(* ===== verification/Prelude.thy ===== *)
theory Prelude
  imports Main "HOL-Library.Char_ord" "HOL-Library.List_Lexorder" "HOL-Library.Product_Lexorder"
    "HOL-Library.Sublist" "HOL-Library.Multiset"
begin

text \<open>
  Shared vocabulary of the development: results (a Go \<open>(value, error)\<close> pair is a sum with the
  error on the left), Go slices and maps (\<open>None\<close> is the nil value, which only the JSON encoder
  tells apart from an empty one), and the facts about sorting, deduplication and association
  lists that the components share.  The collections \<open>result_simps\<close> and \<open>gomap_simps\<close> carry the
  rewriting of handlers and of map lookups.
\<close>

named_theorems result_simps \<open>inversion of results built with rbind\<close>
named_theorems gomap_simps \<open>lookups in Go maps and slices\<close>

section \<open>Results\<close>

text \<open>\<open>rbind m f\<close> is the Go idiom "if err != nil return err": run \<open>f\<close> on the value of \<open>m\<close>.\<close>

definition rbind :: "'e + 'a \<Rightarrow> ('a \<Rightarrow> 'e + 'b) \<Rightarrow> 'e + 'b" where
  "rbind m f = (case m of Inl e \<Rightarrow> Inl e | Inr x \<Rightarrow> f x)"

lemma rbind_Inl [simp]: "rbind (Inl e) f = Inl e"
  by (simp add: rbind_def)

lemma rbind_Inr [simp]: "rbind (Inr x) f = f x"
  by (simp add: rbind_def)

lemma rbind_eq_Inr [result_simps]: "rbind m f = Inr y \<longleftrightarrow> (\<exists>x. m = Inr x \<and> f x = Inr y)"
  by (cases m) auto

lemma rbind_eq_Inl [result_simps]:
  "rbind m f = Inl e \<longleftrightarrow> m = Inl e \<or> (\<exists>x. m = Inr x \<and> f x = Inl e)"
  by (cases m) auto

lemma rbind_cong [fundef_cong]:
  "m = m' \<Longrightarrow> (\<And>x. m' = Inr x \<Longrightarrow> f x = g x) \<Longrightarrow> rbind m f = rbind m' g"
  by (cases m') auto

text \<open>\<open>fold_result\<close> is a Go loop whose body may return an error.\<close>

fun fold_result :: "('a \<Rightarrow> 's \<Rightarrow> 'e + 's) \<Rightarrow> 'a list \<Rightarrow> 's \<Rightarrow> 'e + 's" where
  "fold_result f [] s = Inr s"
| "fold_result f (x # xs) s = rbind (f x s) (fold_result f xs)"

lemma fold_result_invariant:
  assumes "fold_result f xs s = Inr t" and "P s"
    and "\<And>x s s'. x \<in> set xs \<Longrightarrow> P s \<Longrightarrow> f x s = Inr s' \<Longrightarrow> P s'"
  shows "P t"
  using assms
proof (induction xs arbitrary: s)
  case Nil
  then show ?case by simp
next
  case (Cons x xs)
  from Cons.prems(1) obtain u where u: "f x s = Inr u" "fold_result f xs u = Inr t"
    by (auto simp: result_simps)
  have "P u" using Cons.prems(2,3) u(1) by auto
  with u(2) Cons.prems(3) show ?case by (intro Cons.IH [of u]) auto
qed

text \<open>\<open>map_result\<close> converts every element, or stops at the first that fails.\<close>

fun map_result :: "('a \<Rightarrow> 'e + 'b) \<Rightarrow> 'a list \<Rightarrow> 'e + 'b list" where
  "map_result f [] = Inr []"
| "map_result f (x # xs) = rbind (f x) (\<lambda>y. rbind (map_result f xs) (\<lambda>ys. Inr (y # ys)))"

lemma map_result_cong [fundef_cong]:
  "xs = ys \<Longrightarrow> (\<And>x. x \<in> set ys \<Longrightarrow> f x = g x) \<Longrightarrow> map_result f xs = map_result g ys"
  by (induction ys arbitrary: xs) (auto intro: rbind_cong)

lemma map_result_Inr: "map_result f xs = Inr ys \<longleftrightarrow> map f xs = map Inr ys"
proof (induction xs arbitrary: ys)
  case (Cons x xs)
  show ?case by (cases ys) (auto simp: result_simps Cons.IH)
qed auto

section \<open>Slices and maps\<close>

type_synonym 'a slice = "'a list option"
type_synonym 'v gomap = "(string \<times> 'v) list option"

fun elems :: "'a list option \<Rightarrow> 'a list" where
  "elems None = []"
| "elems (Some xs) = xs"

text \<open>
  A Go map is the list of its entries in the order one iteration visits them, with distinct
  keys.  Reading a missing key gives the zero value; for a map to slices that is nil.
\<close>

definition map_get :: "'a slice gomap \<Rightarrow> string \<Rightarrow> 'a slice" where
  "map_get m k = (case map_of (elems m) k of None \<Rightarrow> None | Some v \<Rightarrow> v)"

definition wf_map :: "'v gomap \<Rightarrow> bool" where
  "wf_map m \<longleftrightarrow> distinct (map fst (elems m))"

lemma map_get_entry [gomap_simps]:
  "wf_map m \<Longrightarrow> (k, v) \<in> set (elems m) \<Longrightarrow> map_get m k = v"
  by (simp add: map_get_def wf_map_def)

lemma map_get_elem:
  "x \<in> set (elems (map_get m k)) \<Longrightarrow> \<exists>v. (k, v) \<in> set (elems m) \<and> x \<in> set (elems v)"
  by (auto simp: map_get_def split: option.splits dest: map_of_SomeD)

lemma map_of_mset_cong:
  assumes "mset xs = mset ys" and "distinct (map fst xs)"
  shows "map_of xs = map_of ys"
proof -
  have "distinct (map fst ys)"
    using assms by (metis mset_eq_imp_distinct_iff mset_map)
  moreover have "set xs = set ys" using assms(1) by (metis set_mset_mset)
  ultimately show ?thesis using assms(2) by (simp add: map_of_inject_set)
qed

section \<open>Sorting and deduplication\<close>

lemma sort_mset_cong: "mset xs = mset ys \<Longrightarrow> sort xs = sort ys"
  by (rule properties_for_sort) simp_all

lemma sort_eq_Nil [simp]: "sort xs = [] \<longleftrightarrow> xs = []"
  by (metis set_empty set_sort)

lemma sorted_distinct_set_cong:
  "set xs = set ys \<Longrightarrow> sort (remdups xs) = sort (remdups ys)"
  by (metis sorted_list_of_set_sort_remdups)

lemma distinct_map_snd:
  "distinct (map fst xs) \<Longrightarrow> distinct (map fst (map (\<lambda>(k, v). (k, f v)) xs))"
  by (simp add: comp_def case_prod_beta)

text \<open>Entries with distinct keys have one order by key.\<close>

lemma sort_entries_cong:
  assumes "mset xs = mset ys" and "distinct (map fst xs)"
  shows "sort_key fst (map (\<lambda>(k, v). (k, f v)) xs) = sort_key fst (map (\<lambda>(k, v). (k, f v)) ys)"
proof (rule sort_key_inj_key_eq)
  show "inj_on fst (set (map (\<lambda>(k, v). (k, f v)) xs))"
    using distinct_map_snd [OF assms(2), of f] unfolding distinct_map by blast
qed (use assms(1) in simp_all)

lemma mset_concat_map: "mset (concat (map f xs)) = sum_mset (image_mset (\<lambda>x. mset (f x)) (mset xs))"
  by (induction xs) auto

lemma concat_map_mset_cong:
  "mset xs = mset ys \<Longrightarrow> mset (concat (map f xs)) = mset (concat (map f ys))"
  by (simp add: mset_concat_map)

declare concat_eq_Nil_conv [simp del]

lemma concat_map_eq_Nil [simp]: "concat (map f xs) = [] \<longleftrightarrow> (\<forall>x \<in> set xs. f x = [])"
  by (induction xs) auto

lemma if_singleton_eq_Nil [simp]:
  "(if b then [] else [x]) = [] \<longleftrightarrow> b" "(if b then [x] else []) = [] \<longleftrightarrow> \<not> b"
  by simp_all

end
