(* ===== verification/Go_Time.thy ===== *)
theory Go_Time
  imports Go_Text
begin

text \<open>
  The part of Go's \<open>time\<close> package that the program uses.  A \<open>time.Time\<close> is an instant, in
  nanoseconds since the zero time (January 1 of year 1, UTC), and the offset in seconds of the
  zone it prints in.  Comparisons look at the instant alone.
\<close>

record gtime =
  inst :: int
  zone :: int

definition is_zero :: "gtime \<Rightarrow> bool" where
  "is_zero t \<longleftrightarrow> inst t = 0"

definition after :: "gtime \<Rightarrow> gtime \<Rightarrow> bool" where
  "after a b \<longleftrightarrow> inst a > inst b"

definition utc :: "int \<Rightarrow> gtime" where
  "utc i = \<lparr>inst = i, zone = 0\<rparr>"

text \<open>
  \<open>Truncate(time.Microsecond)\<close>; a \<open>timestamptz\<close> column keeps microseconds too, and the driver
  drops the rest when it sends a time.
\<close>

definition micros :: "int \<Rightarrow> int" where
  "micros i = i - i mod 1000"

lemma micros_idem [simp]: "micros (micros i) = micros i"
  by (simp add: micros_def)

lemma micros_le: "micros i \<le> i"
  by (simp add: micros_def)

lemma micros_mono: "i \<le> j \<Longrightarrow> micros i \<le> micros j"
  by (simp add: micros_def minus_mod_eq_div_mult zdiv_mono1)

section \<open>Formatting\<close>

text \<open>Year, month and day of the day that lies \<open>d\<close> days after January 1 of year 1.\<close>

definition civil :: "int \<Rightarrow> int \<times> int \<times> int" where
  "civil d =
     (let z = d + 306;
          era = z div 146097;
          doe = z mod 146097;
          yoe = (doe - doe div 1460 + doe div 36524 - doe div 146096) div 365;
          doy = doe - (365 * yoe + yoe div 4 - yoe div 100);
          mp = (5 * doy + 2) div 153;
          day = doy - (153 * mp + 2) div 5 + 1;
          month = (if mp < 10 then mp + 3 else mp - 9)
      in (yoe + era * 400 + (if month \<le> 2 then 1 else 0), month, day))"

definition pad :: "nat \<Rightarrow> int \<Rightarrow> string" where
  "pad w i = (let s = show_int i in replicate (w - length s) (CHR ''0'') @ s)"

definition zone_text :: "int \<Rightarrow> string" where
  "zone_text off =
     (if off = 0 then ''Z''
      else let m = \<bar>off\<bar> div 60
           in (if off \<le> - 60 then CHR ''-'' else CHR ''+'') # pad 2 (m div 60) @ CHR '':'' # pad 2 (m mod 60))"

definition clock_text :: "int \<Rightarrow> string" where
  "clock_text secs =
     (case civil (secs div 86400) of (y, m, d) \<Rightarrow>
        let s = secs mod 86400
        in pad 4 y @ CHR ''-'' # pad 2 m @ CHR ''-'' # pad 2 d @ CHR ''T'' #
           pad 2 (s div 3600) @ CHR '':'' # pad 2 (s div 60 mod 60) @ CHR '':'' # pad 2 (s mod 60))"

definition drop_trailing_zeros :: "string \<Rightarrow> string" where
  "drop_trailing_zeros s = rev (dropWhile (\<lambda>c. c = CHR ''0'') (rev s))"

text \<open>\<open>Format(time.RFC3339)\<close>, and the RFC3339Nano form that \<open>MarshalJSON\<close> prints.\<close>

definition rfc3339 :: "gtime \<Rightarrow> string" where
  "rfc3339 t = clock_text (inst t div 1000000000 + zone t) @ zone_text (zone t)"

definition rfc3339_nano :: "gtime \<Rightarrow> string" where
  "rfc3339_nano t =
     (let ns = inst t mod 1000000000
      in clock_text (inst t div 1000000000 + zone t)
         @ (if ns = 0 then [] else CHR ''.'' # drop_trailing_zeros (pad 9 ns))
         @ zone_text (zone t))"

lemma rfc3339_zero: "rfc3339_nano (utc 0) = ''0001-01-01T00:00:00Z''"
  by code_simp

end
