(* ===== verification/Base64.thy ===== *)
theory Base64
  imports Go_Text
begin

text \<open>
  \<open>base64.StdEncoding\<close>: padded groups of four characters.  The decoder skips line breaks, wants
  the padding at the very end, and (as Go's non-strict decoder does) ignores the unused low bits
  of a padded group.  Decoding an encoded text gives the bytes back.
\<close>

definition b64_char :: "nat \<Rightarrow> char" where
  "b64_char i =
     (if i < 26 then char_of (65 + i) else if i < 52 then char_of (71 + i)
      else if i < 62 then char_of (i - 4) else if i = 62 then CHR ''+'' else CHR ''/'')"

definition b64_value :: "char \<Rightarrow> nat option" where
  "b64_value c =
     (let b = byte c
      in if 65 \<le> b \<and> b \<le> 90 then Some (b - 65)
         else if 97 \<le> b \<and> b \<le> 122 then Some (b - 71)
         else if 48 \<le> b \<and> b \<le> 57 then Some (b + 4)
         else if c = CHR ''+'' then Some 62
         else if c = CHR ''/'' then Some 63
         else None)"

fun b64_encode :: "string \<Rightarrow> string" where
  "b64_encode [] = []"
| "b64_encode [a] = [b64_char (byte a div 4), b64_char (byte a mod 4 * 16), CHR ''='', CHR ''='']"
| "b64_encode [a, b] =
     [b64_char (byte a div 4), b64_char (byte a mod 4 * 16 + byte b div 16),
      b64_char (byte b mod 16 * 4), CHR ''='']"
| "b64_encode (a # b # c # r) =
     b64_char (byte a div 4) # b64_char (byte a mod 4 * 16 + byte b div 16) #
     b64_char (byte b mod 16 * 4 + byte c div 64) # b64_char (byte c mod 64) # b64_encode r"

fun b64_groups :: "string \<Rightarrow> string option" where
  "b64_groups [] = Some []"
| "b64_groups (a # b # c # d # r) =
     (case (b64_value a, b64_value b) of
        (Some x, Some y) \<Rightarrow>
          if c = CHR ''='' \<and> d = CHR ''='' \<and> r = [] then Some [char_of (x * 4 + y div 16)]
          else (case b64_value c of
              None \<Rightarrow> None
            | Some z \<Rightarrow>
                if d = CHR ''='' \<and> r = [] then
                  Some [char_of (x * 4 + y div 16), char_of (y mod 16 * 16 + z div 4)]
                else (case b64_value d of
                    None \<Rightarrow> None
                  | Some w \<Rightarrow>
                      map_option
                        (\<lambda>t. char_of (x * 4 + y div 16) # char_of (y mod 16 * 16 + z div 4)
                          # char_of (z mod 4 * 64 + w) # t)
                        (b64_groups r)))
      | _ \<Rightarrow> None)"
| "b64_groups _ = None"

definition b64_decode :: "string \<Rightarrow> string option" where
  "b64_decode s = b64_groups (filter (\<lambda>c. c \<noteq> CHR 0x0A \<and> c \<noteq> CHR 0x0D) s)"

lemma b64_value_char [simp]: "i < 64 \<Longrightarrow> b64_value (b64_char i) = Some i"
  by (auto simp: b64_value_def b64_char_def byte_def of_char_of Let_def)

lemma b64_char_plain [simp]:
  assumes "i < 64"
  shows "b64_char i \<noteq> CHR ''=''" "b64_char i \<noteq> CHR 0x0A" "b64_char i \<noteq> CHR 0x0D"
proof -
  have "b64_value (CHR ''='') = None" "b64_value (CHR 0x0A) = None" "b64_value (CHR 0x0D) = None"
    by (simp_all add: b64_value_def byte_def)
  then show "b64_char i \<noteq> CHR ''=''" "b64_char i \<noteq> CHR 0x0A" "b64_char i \<noteq> CHR 0x0D"
    using b64_value_char [OF assms] by (metis option.distinct(1))+
qed

lemma byte_div [simp]: "byte a div 4 < 64" "byte a div 16 < 16" "byte a div 64 < 4"
  using byte_less [of a] by (simp_all add: less_mult_imp_div_less)

lemma byte_div_div [simp]: "byte a div 16 div 16 = 0" "byte a div 64 div 4 = 0"
  "byte a div 16 mod 16 = byte a div 16" "byte a div 64 mod 4 = byte a div 64"
  by simp_all

lemma b64_index_bounds [simp]:
  "byte a mod 4 * 16 + byte b div 16 < 64" "byte b mod 16 * 4 + byte c div 64 < 64"
  "byte c mod 64 < 64" "byte a mod 4 * 16 < 64" "byte b mod 16 * 4 < 64"
proof -
  have "byte a mod 4 < 4" "byte b mod 16 < 16" by simp_all
  with byte_div(2) [of b] byte_div(3) [of c]
  show "byte a mod 4 * 16 + byte b div 16 < 64" "byte b mod 16 * 4 + byte c div 64 < 64"
    "byte a mod 4 * 16 < 64" "byte b mod 16 * 4 < 64"
    by linarith+
qed simp

lemma b64_encode_no_breaks:
  "filter (\<lambda>c. c \<noteq> CHR 0x0A \<and> c \<noteq> CHR 0x0D) (b64_encode s) = b64_encode s"
  by (induction s rule: b64_encode.induct) simp_all

lemma char_of_byte' [simp]: "char_of (byte c) = c"
  by (simp add: byte_def)

theorem b64_decode_encode: "b64_decode (b64_encode s) = Some s"
proof -
  have "b64_groups (b64_encode s) = Some s"
    by (induction s rule: b64_encode.induct) simp_all
  then show ?thesis by (simp add: b64_decode_def b64_encode_no_breaks)
qed

section \<open>Unpadded and URL-safe forms\<close>

text \<open>\<open>RawStdEncoding\<close> and \<open>RawURLEncoding\<close>; a padding character is not in their alphabets.\<close>

definition b64_raw :: "string \<Rightarrow> string" where
  "b64_raw s = filter (\<lambda>c. c \<noteq> CHR ''='') (b64_encode s)"

definition b64_raw_decode :: "string \<Rightarrow> string option" where
  "b64_raw_decode s =
     (let t = filter (\<lambda>c. c \<noteq> CHR 0x0A \<and> c \<noteq> CHR 0x0D) s
      in if CHR ''='' \<in> set t \<or> length t mod 4 = 1 then None
         else b64_groups (t @ replicate ((4 - length t mod 4) mod 4) (CHR ''='')))"

definition b64_url :: "string \<Rightarrow> string" where
  "b64_url s =
     map (\<lambda>c. if c = CHR ''+'' then CHR ''-'' else if c = CHR ''/'' then CHR ''_'' else c) (b64_raw s)"

lemma b64_raw_pad:
  "b64_encode s = b64_raw s @ replicate ((4 - length (b64_raw s) mod 4) mod 4) (CHR ''='')
     \<and> length (b64_raw s) mod 4 \<noteq> 1"
  by (induction s rule: b64_encode.induct) (simp_all add: b64_raw_def numeral_2_eq_2)

definition b64_alphabet :: "char set" where
  "b64_alphabet = b64_char ` {..<64}"

lemma b64_raw_chars: "set (b64_raw s) \<subseteq> b64_alphabet"
  by (induction s rule: b64_encode.induct) (simp_all add: b64_raw_def b64_alphabet_def)

lemma b64_raw_decode_raw: "b64_raw_decode (b64_raw s) = Some s"
proof -
  have "c \<noteq> CHR 0x0A \<and> c \<noteq> CHR 0x0D" if "c \<in> b64_alphabet" for c
    using that by (auto simp only: b64_alphabet_def image_iff lessThan_iff b64_char_plain)
  then have "\<forall>c \<in> set (b64_raw s). c \<noteq> CHR 0x0A \<and> c \<noteq> CHR 0x0D"
    using b64_raw_chars [of s] by blast
  then have "filter (\<lambda>c. c \<noteq> CHR 0x0A \<and> c \<noteq> CHR 0x0D) (b64_raw s) = b64_raw s"
    by (simp add: filter_id_conv)
  moreover have "CHR ''='' \<notin> set (b64_raw s)" by (simp add: b64_raw_def)
  ultimately show ?thesis
    using b64_decode_encode [of s] b64_raw_pad [of s]
    by (simp add: b64_raw_decode_def Let_def b64_decode_def b64_encode_no_breaks)
qed

lemma length_b64_raw: "length (b64_raw s) = (4 * length s + 2) div 3"
  by (induction s rule: b64_encode.induct) (simp_all add: b64_raw_def)

end
