(* ===== verification/Envelope.thy ===== *)
theory Envelope
  imports Json Base64 "HOL-Library.Word"
begin

text \<open>
  The obligation envelope (package \<open>internal/envelope\<close>): its record, structural and expiry
  validation, the canonical bytes it is signed over, and signing and verification.  Ed25519 and
  SHA-256 are Go's \<open>crypto\<close> packages, passed in as a record of functions.
\<close>

section \<open>The model (model.go)\<close>

type_synonym goint = "64 word"

record party =
  agent :: string
  party_version :: string

record approval =
  condition :: string
  required_role :: string

record delegation =
  max_depth :: goint
  current_depth :: goint
  may_expand_authority :: bool

record envelope =
  env_id :: string
  env_version :: string
  issuer :: party
  recipient :: party
  purpose :: string
  resources :: "string slice gomap"
  allowed_actions :: "string slice"
  denied_actions :: "string slice"
  data_classes :: "string slice"
  approvals :: "approval slice"
  env_delegation :: delegation
  expires_at :: gtime
  policy_version :: string
  parent_envelope :: string
  signature :: string

text \<open>\<open>NewID\<close>; the argument is the 8 bytes read from \<open>crypto/rand\<close>.\<close>

definition new_env_id :: "string \<Rightarrow> string" where
  "new_env_id rand = ''env_'' @ hex_encode rand"

section \<open>Validation (validation.go)\<close>

datatype validation_error =
    ErrMissingID | ErrMissingIssuer | ErrMissingRecipient | ErrMissingPurpose
  | ErrMissingPolicyVersion | ErrMissingExpiresAt | ErrExpired gtime

fun validation_text :: "validation_error \<Rightarrow> string" where
  "validation_text ErrMissingID = ''missing id''"
| "validation_text ErrMissingIssuer = ''missing issuer.agent''"
| "validation_text ErrMissingRecipient = ''missing recipient.agent''"
| "validation_text ErrMissingPurpose = ''missing purpose''"
| "validation_text ErrMissingPolicyVersion = ''missing policy_version''"
| "validation_text ErrMissingExpiresAt = ''missing expires_at''"
| "validation_text (ErrExpired t) = ''envelope expired: expired at '' @ rfc3339 t"

definition validate_structure :: "envelope \<Rightarrow> validation_error option" where
  "validate_structure e =
     (if env_id e = [] then Some ErrMissingID
      else if agent (issuer e) = [] then Some ErrMissingIssuer
      else if agent (recipient e) = [] then Some ErrMissingRecipient
      else if purpose e = [] then Some ErrMissingPurpose
      else if policy_version e = [] then Some ErrMissingPolicyVersion
      else if is_zero (expires_at e) then Some ErrMissingExpiresAt
      else None)"

definition validate_expiration :: "envelope \<Rightarrow> gtime \<Rightarrow> validation_error option" where
  "validate_expiration e now =
     (if \<not> after (expires_at e) now then Some (ErrExpired (expires_at e)) else None)"

section \<open>Canonical bytes (canonical.go)\<close>

text \<open>
  The typed encoding of an envelope: struct fields in declaration order, \<open>omitempty\<close> fields left
  out when empty, a nil slice or map as \<open>null\<close>, map entries in key order.
\<close>

definition json_strings :: "string slice \<Rightarrow> json" where
  "json_strings s = (case s of None \<Rightarrow> JNull | Some xs \<Rightarrow> JArr (map JStr xs))"

definition json_int :: "goint \<Rightarrow> json" where
  "json_int w = JNum (show_int (sint w))"

definition omit_empty :: "string \<Rightarrow> string \<Rightarrow> (string \<times> json) list" where
  "omit_empty k s = (if s = [] then [] else [(k, JStr s)])"

definition encode_party :: "party \<Rightarrow> json" where
  "encode_party p = JObj ((''agent'', JStr (agent p)) # omit_empty ''version'' (party_version p))"

definition encode_approval :: "approval \<Rightarrow> json" where
  "encode_approval a =
     JObj [(''condition'', JStr (condition a)), (''required_role'', JStr (required_role a))]"

definition encode_delegation :: "delegation \<Rightarrow> json" where
  "encode_delegation d =
     JObj [(''max_depth'', json_int (max_depth d)), (''current_depth'', json_int (current_depth d)),
           (''may_expand_authority'', JBool (may_expand_authority d))]"

definition encode_resources :: "string slice gomap \<Rightarrow> json" where
  "encode_resources m =
     (case m of None \<Rightarrow> JNull
      | Some kvs \<Rightarrow> JObj (sort_key fst (map (\<lambda>(k, v). (k, json_strings v)) kvs)))"

definition encode_envelope :: "envelope \<Rightarrow> json" where
  "encode_envelope e =
     JObj ([(''id'', JStr (env_id e)), (''version'', JStr (env_version e)),
            (''issuer'', encode_party (issuer e)), (''recipient'', encode_party (recipient e)),
            (''purpose'', JStr (purpose e)), (''resources'', encode_resources (resources e)),
            (''allowed_actions'', json_strings (allowed_actions e)),
            (''denied_actions'', json_strings (denied_actions e)),
            (''data_classes'', json_strings (data_classes e)),
            (''approvals'',
              (case approvals e of None \<Rightarrow> JNull | Some xs \<Rightarrow> JArr (map encode_approval xs))),
            (''delegation'', encode_delegation (env_delegation e)),
            (''expires_at'', JStr (rfc3339_nano (expires_at e))),
            (''policy_version'', JStr (policy_version e))]
           @ omit_empty ''parent_envelope'' (parent_envelope e)
           @ omit_empty ''signature'' (signature e))"

definition canonical_bytes :: "envelope \<Rightarrow> string" where
  "canonical_bytes e = print_json (encode_envelope (e\<lparr>signature := []\<rparr>))"

section \<open>Signing (signing.go)\<close>

text \<open>
  \<open>crypto/ed25519\<close> and \<open>crypto/sha256\<close>: \<open>ed_sign key message\<close>, \<open>ed_verify public message
  signature\<close>, and the digest; and \<open>argon2.IDKey\<close> of a password and a salt, with the cost
  parameters \<open>operators.go\<close> uses.
\<close>

record crypto =
  ed_sign :: "string \<Rightarrow> string \<Rightarrow> string"
  ed_verify :: "string \<Rightarrow> string \<Rightarrow> string \<Rightarrow> bool"
  sha256 :: "string \<Rightarrow> string"
  argon2id :: "string \<Rightarrow> string \<Rightarrow> string"

text \<open>What Ed25519 documents: a signature verifies under the public half of the signing key.\<close>

definition key_pair :: "crypto \<Rightarrow> string \<Rightarrow> string \<Rightarrow> bool" where
  "key_pair c priv pub \<longleftrightarrow>
     length priv = 64 \<and> length pub = 32 \<and> (\<forall>m. ed_sign c priv m \<noteq> [] \<and> ed_verify c pub m (ed_sign c priv m))"

definition sign :: "crypto \<Rightarrow> envelope \<Rightarrow> string \<Rightarrow> string + string" where
  "sign c e priv =
     (if length priv \<noteq> 64 then Inl (''invalid private key size '' @ show_nat (length priv))
      else Inr (b64_encode (ed_sign c priv (sha256 c (canonical_bytes e)))))"

datatype verify_error = BadKeySize nat | NoSignature | BadEncoding | SignatureInvalid

definition verify :: "crypto \<Rightarrow> envelope \<Rightarrow> string \<Rightarrow> verify_error + unit" where
  "verify c e pub =
     (if length pub \<noteq> 32 then Inl (BadKeySize (length pub))
      else if signature e = [] then Inl NoSignature
      else (case b64_decode (signature e) of
          None \<Rightarrow> Inl BadEncoding
        | Some sig \<Rightarrow>
            if ed_verify c pub (sha256 c (canonical_bytes e)) sig then Inr ()
            else Inl SignatureInvalid))"

section \<open>Lemmas\<close>

lemma validate_structure_None:
  "validate_structure e = None \<longleftrightarrow>
     env_id e \<noteq> [] \<and> agent (issuer e) \<noteq> [] \<and> agent (recipient e) \<noteq> [] \<and> purpose e \<noteq> []
     \<and> policy_version e \<noteq> [] \<and> \<not> is_zero (expires_at e)"
  by (simp add: validate_structure_def)

lemma validate_expiration_None: "validate_expiration e now = None \<longleftrightarrow> after (expires_at e) now"
  by (simp add: validate_expiration_def)

lemma canonical_bytes_signature [simp]: "canonical_bytes (e\<lparr>signature := s\<rparr>) = canonical_bytes e"
  by (simp add: canonical_bytes_def)

lemma b64_encode_eq_Nil [simp]: "b64_encode s = [] \<longleftrightarrow> s = []"
  by (cases s rule: b64_encode.cases) simp_all

lemma sign_ok: "key_pair c priv pub \<Longrightarrow> \<exists>s. sign c e priv = Inr s"
  by (simp add: key_pair_def sign_def)

lemma verify_signed:
  assumes "key_pair c priv pub" and "sign c e priv = Inr s"
  shows "verify c (e\<lparr>signature := s\<rparr>) pub = Inr () \<and> s \<noteq> []"
  using assms by (auto simp: sign_def verify_def key_pair_def b64_decode_encode split: if_splits)

text \<open>The entries of a resource map are encoded in key order, so their order is not signed.\<close>

lemma encode_resources_order:
  assumes "mset xs = mset ys" and "distinct (map fst xs)"
  shows "encode_resources (Some xs) = encode_resources (Some ys)"
  using sort_entries_cong [OF assms, of json_strings] by (simp add: encode_resources_def)

end
