(* ===== verification/Conditions.thy ===== *)
theory Conditions
  imports Envelope Complex_Main
begin

text \<open>
  Approval conditions (\<open>internal/policy/conditions.go\<close>).  The CEL compiler, unparser and
  interpreter are the third-party package \<open>cel-go\<close>: a record of functions that the definitions
  take as an argument.  The syntax tree is the part of its protocol buffer the code inspects.
\<close>

section \<open>The CEL interface\<close>

datatype const = Int64Value int | OtherConst

datatype expr =
    Ident string
  | Select expr string bool
  | Call "expr option" string "expr list"
  | ConstExpr const
  | OtherExpr

record ast =
  ast_expr :: expr
  output_type :: string

datatype cel_value = CelBool bool | CelOther

record 'ctx cel =
  cel_compile :: "string \<Rightarrow> string + ast"
  cel_unparse :: "ast \<Rightarrow> string option"
  cel_program :: "ast \<Rightarrow> string + unit"
  cel_eval :: "ast \<Rightarrow> 'ctx \<Rightarrow> string + cel_value"

text \<open>The variables \<open>NewConditions\<close> declares, each a map from strings to anything.\<close>

definition condition_variables :: "string list" where
  "condition_variables = [''refund'', ''order'', ''customer'', ''request'']"

section \<open>Compiling and evaluating conditions\<close>

definition compile :: "'ctx cel \<Rightarrow> string \<Rightarrow> string + ast" where
  "compile c cond =
     (if length cond > 4096 then Inl ''condition exceeds 4096 bytes''
      else rbind (cel_compile c cond) (\<lambda>a.
        if output_type a \<noteq> ''bool'' then Inl (''condition must return bool, got '' @ output_type a)
        else Inr a))"

definition approval_error :: "approval \<Rightarrow> string \<Rightarrow> string" where
  "approval_error a e = ''approval '' @ quote (required_role a) @ '': '' @ e"

definition wrap_error :: "('e \<Rightarrow> 'f) \<Rightarrow> 'e + 'a \<Rightarrow> 'f + 'a" where
  "wrap_error g m = (case m of Inl e \<Rightarrow> Inl (g e) | Inr x \<Rightarrow> Inr x)"

lemma wrap_error_Inr [simp]: "wrap_error g m = Inr x \<longleftrightarrow> m = Inr x"
  by (simp add: wrap_error_def split: sum.split)

definition role_step :: "'ctx cel \<Rightarrow> 'ctx \<Rightarrow> approval \<Rightarrow> string list \<Rightarrow> string + string list" where
  "role_step c ctx a roles =
     (if blank (required_role a) then Inl ''missing required role''
      else rbind (wrap_error (approval_error a) (compile c (condition a))) (\<lambda>t.
           rbind (cel_program c t) (\<lambda>_.
           rbind (wrap_error (approval_error a) (cel_eval c t ctx)) (\<lambda>v.
             (case v of
                CelOther \<Rightarrow> Inl ''approval did not evaluate to bool''
              | CelBool b \<Rightarrow> Inr (if b then List.insert (required_role a) roles else roles))))))"

definition required_roles :: "'ctx cel \<Rightarrow> approval list \<Rightarrow> 'ctx \<Rightarrow> string + string list" where
  "required_roles c as ctx = rbind (fold_result (role_step c ctx) as []) (\<lambda>roles. Inr (sort roles))"

section \<open>Proving inheritance of a condition\<close>

fun field_path :: "expr \<Rightarrow> string" where
  "field_path (Ident name) = name"
| "field_path (Select operand field test_only) =
     (if \<not> test_only \<and> field_path operand \<noteq> [] then field_path operand @ ''.'' @ field else [])"
| "field_path _ = []"

fun threshold :: "expr \<Rightarrow> (string \<times> string \<times> int) option" where
  "threshold (Call None f [a, ConstExpr (Int64Value n)]) =
     (if field_path a = [] then None else Some (field_path a, f, n))"
| "threshold _ = None"

definition unparse_text :: "'ctx cel \<Rightarrow> ast \<Rightarrow> string" where
  "unparse_text c a = (case cel_unparse c a of None \<Rightarrow> [] | Some s \<Rightarrow> s)"

text \<open>The CEL names of the four comparisons.\<close>

definition op_gt :: string where "op_gt = ''_>_''"
definition op_ge :: string where "op_ge = ''_>=_''"
definition op_lt :: string where "op_lt = ''_<_''"
definition op_le :: string where "op_le = ''_<=_''"

text \<open>The threshold \<open>co cn\<close> holds wherever \<open>po pn\<close> does (the last two \<open>if\<close>s of \<open>preserves\<close>).\<close>

definition weaker_bound :: "string \<Rightarrow> int \<Rightarrow> string \<Rightarrow> int \<Rightarrow> bool" where
  "weaker_bound po pn co cn =
     (if (po = op_gt \<or> po = op_ge) \<and> (co = op_gt \<or> co = op_ge) then
        cn < pn \<or> (cn = pn \<and> (po = op_gt \<or> co = op_ge))
      else if (po = op_lt \<or> po = op_le) \<and> (co = op_lt \<or> co = op_le) then
        cn > pn \<or> (cn = pn \<and> (po = op_lt \<or> co = op_le))
      else False)"

definition preserves :: "'ctx cel \<Rightarrow> ast \<Rightarrow> ast \<Rightarrow> bool" where
  "preserves c parent child =
     (let p = unparse_text c parent; q = unparse_text c child
      in if p = q \<or> q = ''true'' \<or> p = ''false'' then True
         else (case (threshold (ast_expr parent), threshold (ast_expr child)) of
             (Some (pf, po, pn), Some (cf, co, cn)) \<Rightarrow>
               if pf \<noteq> cf then False else weaker_bound po pn co cn
           | _ \<Rightarrow> False))"

section \<open>What the code relies on in CEL\<close>

text \<open>
  \<open>holds c a ctx\<close>: the condition evaluates to true.  \<open>cel_laws c num\<close> is the documented
  behaviour of \<open>cel-go\<close> that \<open>preserves\<close> builds on: two expressions with the same unparsed text
  evaluate alike, the texts \<open>true\<close> and \<open>false\<close> are the constants, and a comparison of a field
  with an integer literal compares the number that the field holds (\<open>num\<close>, undefined where the
  field is missing or no number).  The last law is limited to literals that a float64 represents
  exactly, since \<open>cel-go\<close> converts the literal when the field holds a double.
\<close>

definition holds :: "'ctx cel \<Rightarrow> ast \<Rightarrow> 'ctx \<Rightarrow> bool" where
  "holds c a ctx \<longleftrightarrow> cel_eval c a ctx = Inr (CelBool True)"

definition compares :: "string \<Rightarrow> rat \<Rightarrow> int \<Rightarrow> bool" where
  "compares op x n \<longleftrightarrow>
     (op = op_gt \<and> x > of_int n) \<or> (op = op_ge \<and> x \<ge> of_int n)
     \<or> (op = op_lt \<and> x < of_int n) \<or> (op = op_le \<and> x \<le> of_int n)"

definition exact_literal :: "ast \<Rightarrow> bool" where
  "exact_literal a \<longleftrightarrow>
     (case threshold (ast_expr a) of None \<Rightarrow> True | Some (_, _, n) \<Rightarrow> \<bar>n\<bar> \<le> 2 ^ 53)"

definition cel_laws :: "'ctx cel \<Rightarrow> (string \<Rightarrow> 'ctx \<Rightarrow> rat option) \<Rightarrow> bool" where
  "cel_laws c num \<longleftrightarrow>
     (\<forall>a b s. cel_unparse c a = Some s \<longrightarrow> cel_unparse c b = Some s \<longrightarrow> cel_eval c a = cel_eval c b)
     \<and> (\<forall>a ctx. cel_unparse c a = Some ''true'' \<longrightarrow> cel_eval c a ctx = Inr (CelBool True))
     \<and> (\<forall>a ctx. cel_unparse c a = Some ''false'' \<longrightarrow> cel_eval c a ctx = Inr (CelBool False))
     \<and> (\<forall>a f op n ctx. threshold (ast_expr a) = Some (f, op, n) \<longrightarrow>
          op \<in> {op_gt, op_ge, op_lt, op_le} \<longrightarrow> \<bar>n\<bar> \<le> 2 ^ 53 \<longrightarrow>
          holds c a ctx = (\<exists>x. num f ctx = Some x \<and> compares op x n))"

section \<open>Lemmas\<close>

lemma compile_Inr:
  "compile c s = Inr a \<longleftrightarrow> length s \<le> 4096 \<and> cel_compile c s = Inr a \<and> output_type a = ''bool''"
proof (cases "cel_compile c s")
  case (Inr b)
  show ?thesis
  proof (cases "output_type b = ''bool''")
    case True
    with Inr show ?thesis by (cases "a = b") (simp_all add: compile_def)
  next
    case False
    with Inr show ?thesis by (cases "a = b") (simp_all add: compile_def)
  qed
qed (simp add: compile_def)

lemma ops_distinct [simp]:
  "op_gt \<noteq> op_ge" "op_gt \<noteq> op_lt" "op_gt \<noteq> op_le" "op_ge \<noteq> op_gt" "op_ge \<noteq> op_lt" "op_ge \<noteq> op_le"
  "op_lt \<noteq> op_gt" "op_lt \<noteq> op_ge" "op_lt \<noteq> op_le" "op_le \<noteq> op_gt" "op_le \<noteq> op_ge" "op_le \<noteq> op_lt"
  by (simp_all add: op_gt_def op_ge_def op_lt_def op_le_def)

lemma role_step_Inr:
  assumes "role_step c ctx a roles = Inr roles'"
  shows "\<exists>t b. compile c (condition a) = Inr t \<and> cel_eval c t ctx = Inr (CelBool b)
    \<and> roles' = (if b then List.insert (required_role a) roles else roles)
    \<and> \<not> blank (required_role a)"
proof -
  have nb: "\<not> blank (required_role a)"
    using assms by (auto simp: role_step_def)
  with assms obtain t v where t: "compile c (condition a) = Inr t" "cel_eval c t ctx = Inr v"
    and out: "(case v of CelOther \<Rightarrow> Inl ''approval did not evaluate to bool''
      | CelBool b \<Rightarrow> Inr (if b then List.insert (required_role a) roles else roles)) = Inr roles'"
    by (auto simp only: role_step_def rbind_eq_Inr wrap_error_Inr if_False)
  from out obtain b where "v = CelBool b"
    and "roles' = (if b then List.insert (required_role a) roles else roles)"
    by (cases v) auto
  with t nb show ?thesis by blast
qed

lemma role_loop_set:
  assumes "fold_result (role_step c ctx) as roles = Inr out"
  shows "set out = set roles
    \<union> {required_role a | a t. a \<in> set as \<and> compile c (condition a) = Inr t \<and> holds c t ctx}"
  using assms
proof (induction as arbitrary: roles)
  case Nil
  then show ?case by simp
next
  case (Cons a as)
  from Cons.prems obtain mid
    where m: "role_step c ctx a roles = Inr mid" "fold_result (role_step c ctx) as mid = Inr out"
    by (auto simp: result_simps)
  from role_step_Inr [OF m(1)] obtain t b where
    t: "compile c (condition a) = Inr t" "cel_eval c t ctx = Inr (CelBool b)"
      "mid = (if b then List.insert (required_role a) roles else roles)"
    by blast
  then have "set mid = set roles \<union> {r. r = required_role a \<and> holds c t ctx}"
    by (auto simp: holds_def)
  moreover have "set out = set mid
    \<union> {required_role a | a t. a \<in> set as \<and> compile c (condition a) = Inr t \<and> holds c t ctx}"
    using m(2) by (rule Cons.IH)
  ultimately show ?case using t(1) by auto
qed

lemma role_loop_distinct:
  "fold_result (role_step c ctx) as roles = Inr out \<Longrightarrow> distinct roles \<Longrightarrow> distinct out"
  by (erule fold_result_invariant) (auto dest!: role_step_Inr)

lemma required_roles_set:
  assumes "required_roles c as ctx = Inr out"
  shows "set out = {required_role a | a t. a \<in> set as \<and> compile c (condition a) = Inr t \<and> holds c t ctx}"
proof -
  from assms obtain roles where "fold_result (role_step c ctx) as [] = Inr roles" "out = sort roles"
    by (auto simp: required_roles_def result_simps)
  with role_loop_set [of c ctx as "[]" roles] show ?thesis by simp
qed

lemma required_roles_sorted_distinct:
  "required_roles c as ctx = Inr out \<Longrightarrow> sorted out \<and> distinct out"
  by (auto simp: required_roles_def result_simps dest: role_loop_distinct)

lemma preserves_threshold:
  assumes "preserves c p q" and "unparse_text c p \<noteq> unparse_text c q"
    and "unparse_text c q \<noteq> ''true''" and "unparse_text c p \<noteq> ''false''"
  shows "\<exists>f po pn co cn. threshold (ast_expr p) = Some (f, po, pn)
    \<and> threshold (ast_expr q) = Some (f, co, cn) \<and> weaker_bound po pn co cn"
proof -
  have "\<not> (unparse_text c p = unparse_text c q \<or> unparse_text c q = ''true'' \<or> unparse_text c p = ''false'')"
    using assms by blast
  then have "(case (threshold (ast_expr p), threshold (ast_expr q)) of
       (Some (pf, po, pn), Some (cf, co, cn)) \<Rightarrow> if pf \<noteq> cf then False else weaker_bound po pn co cn
     | _ \<Rightarrow> False)"
    using assms(1) unfolding preserves_def Let_def by (simp only: if_False)
  then show ?thesis
    by (cases "threshold (ast_expr p)"; cases "threshold (ast_expr q)") (auto split: if_splits)
qed

lemma weaker_bound_ops:
  "weaker_bound po pn co cn \<Longrightarrow> po \<in> {op_gt, op_ge, op_lt, op_le} \<and> co \<in> {op_gt, op_ge, op_lt, op_le}"
  by (auto simp: weaker_bound_def split: if_splits)

lemma compares_weaker:
  assumes "compares po x pn" and "weaker_bound po pn co cn"
  shows "compares co x cn"
proof -
  have "cn < pn \<Longrightarrow> of_int cn < (of_int pn :: rat)" "cn > pn \<Longrightarrow> of_int cn > (of_int pn :: rat)"
    by simp_all
  with assms show ?thesis
    by (auto simp: compares_def weaker_bound_def split: if_splits)
qed

lemma preserves_sound:
  assumes laws: "cel_laws c num" and pres: "preserves c p q"
    and unparsed: "cel_unparse c p \<noteq> None" "cel_unparse c q \<noteq> None"
    and exact: "exact_literal p" "exact_literal q" and holds: "holds c p ctx"
  shows "holds c q ctx"
proof -
  obtain s t where st: "cel_unparse c p = Some s" "cel_unparse c q = Some t"
    using unparsed by auto
  then have texts: "unparse_text c p = s" "unparse_text c q = t"
    by (simp_all add: unparse_text_def)
  consider "s = t" | "t = ''true''" | "s = ''false''" | "s \<noteq> t" "t \<noteq> ''true''" "s \<noteq> ''false''"
    by blast
  then show ?thesis
  proof cases
    case 1
    then have "cel_eval c p = cel_eval c q"
      using laws st unfolding cel_laws_def by blast
    with holds show ?thesis by (simp add: holds_def)
  next
    case 2
    then show ?thesis using laws st unfolding cel_laws_def holds_def by blast
  next
    case 3
    then have "cel_eval c p ctx = Inr (CelBool False)"
      using laws st unfolding cel_laws_def by blast
    with holds show ?thesis by (simp add: holds_def)
  next
    case 4
    with pres texts obtain f po pn co cn where th: "threshold (ast_expr p) = Some (f, po, pn)"
        "threshold (ast_expr q) = Some (f, co, cn)" and weaker: "weaker_bound po pn co cn"
      using preserves_threshold [of c p q] by fastforce
    have ops: "po \<in> {op_gt, op_ge, op_lt, op_le}" "co \<in> {op_gt, op_ge, op_lt, op_le}"
      using weaker_bound_ops [OF weaker] by blast+
    have bounds: "\<bar>pn\<bar> \<le> 2 ^ 53" "\<bar>cn\<bar> \<le> 2 ^ 53"
      using exact th by (simp_all add: exact_literal_def)
    obtain x where x: "num f ctx = Some x" "compares po x pn"
      using laws th(1) ops(1) bounds(1) holds unfolding cel_laws_def by blast
    have "compares co x cn" using x(2) weaker by (rule compares_weaker)
    with x(1) show ?thesis
      using laws th(2) ops(2) bounds(2) unfolding cel_laws_def by blast
  qed
qed

end
