(* ===== verification/Policy.thy ===== *)
theory Policy
  imports Conditions
begin

text \<open>
  The monotonic-delegation engine (\<open>internal/policy/policy.go\<close>): standalone validation of an
  envelope, the comparison of a child with its parent, and the sorted result.  The abstract
  specification is the set of demands an envelope permits (\<open>permits\<close>); two interfaces connect it
  to the code: \<open>scope_cover\<close> for resource scopes and \<open>narrowing\<close> for whole envelopes.
\<close>

section \<open>Results\<close>

datatype violation = Violation (v_code: string) (v_field: string) (v_message: string)

definition violation_key :: "violation \<Rightarrow> string \<times> string \<times> string" where
  "violation_key v = (v_field v, v_code v, v_message v)"

text \<open>The order \<open>finish\<close> sorts by: field, then code, then message.\<close>

definition violation_before :: "violation \<Rightarrow> violation \<Rightarrow> bool" where
  "violation_before a b \<longleftrightarrow>
     (if v_field a \<noteq> v_field b then v_field a < v_field b
      else if v_code a \<noteq> v_code b then v_code a < v_code b
      else v_message a < v_message b)"

instantiation violation :: linorder
begin

definition less_violation :: "violation \<Rightarrow> violation \<Rightarrow> bool" where
  "less_violation a b \<longleftrightarrow> violation_before a b"

definition less_eq_violation :: "violation \<Rightarrow> violation \<Rightarrow> bool" where
  "less_eq_violation a b \<longleftrightarrow> a < b \<or> a = b"

lemma less_violation_key: "a < b \<longleftrightarrow> violation_key a < violation_key b"
  by (auto simp: less_violation_def violation_before_def violation_key_def less_prod_def')

lemma violation_key_inject: "violation_key a = violation_key b \<longleftrightarrow> a = b"
  by (cases a; cases b) (auto simp: violation_key_def)

lemma less_eq_violation_key: "a \<le> b \<longleftrightarrow> violation_key a \<le> violation_key b"
  by (auto simp: less_eq_violation_def less_violation_key violation_key_inject le_less)

instance
  by standard
    (auto simp: less_violation_key less_eq_violation_key violation_key_inject [symmetric])

end

definition ALLOW :: string where "ALLOW = ''ALLOW''"
definition DENY :: string where "DENY = ''DENY''"

lemma ALLOW_DENY [simp]: "ALLOW \<noteq> DENY" "DENY \<noteq> ALLOW"
  by (simp_all add: ALLOW_def DENY_def)

record result =
  decision :: string
  violations :: "violation list"

definition finish :: "violation list \<Rightarrow> result" where
  "finish vs = \<lparr>decision = (if vs \<noteq> [] then DENY else ALLOW), violations = sort vs\<rparr>"

section \<open>Scopes and sets\<close>

fun contains :: "string list \<Rightarrow> string \<Rightarrow> bool" where
  "contains [] value = False"
| "contains (v # vs) value = (v = value \<or> contains vs value)"

lemma contains_iff [simp]: "contains vs v \<longleftrightarrow> v \<in> set vs"
  by (induction vs) auto

definition unique :: "string list \<Rightarrow> string list" where
  "unique vs = sort (remdups vs)"

lemma set_unique [simp]: "set (unique vs) = set vs"
  by (simp add: unique_def)

definition valid_scope :: "string \<Rightarrow> bool" where
  "valid_scope s =
     (if s = [] \<or> trim_space s \<noteq> s \<or> contains_any s ''?[]'' then False
      else CHR ''*'' \<notin> set s \<or> s = ''*'' \<or> (suffix ''/*'' s \<and> count_list s (CHR ''*'') = 1))"

definition covers :: "string \<Rightarrow> string \<Rightarrow> bool" where
  "covers parent child =
     (if parent = ''*'' \<or> parent = child then True
      else suffix ''/*'' parent \<and> prefix (trim_suffix parent ''*'') child)"

section \<open>Standalone validation\<close>

definition invalid :: "string \<Rightarrow> string \<Rightarrow> string \<Rightarrow> violation" where
  "invalid side fld reason = Violation ''INVALID_ENVELOPE'' (side @ ''.'' @ fld) reason"

text \<open>A fixed identifier: not blank at either end, not empty, without wildcards.\<close>

definition exact_identifier :: "string \<Rightarrow> bool" where
  "exact_identifier s \<longleftrightarrow> \<not> (trim_space s \<noteq> s \<or> s = [] \<or> contains_any s ''*?[]'')"

definition valid_category :: "string \<Rightarrow> bool" where
  "valid_category s \<longleftrightarrow> \<not> (s = [] \<or> trim_space s \<noteq> s \<or> contains_any s ''*?[]'')"

definition depth_valid :: "delegation \<Rightarrow> bool" where
  "depth_valid d \<longleftrightarrow>
     \<not> (sint (max_depth d) < 0 \<or> sint (current_depth d) < 0
        \<or> sint (current_depth d) > sint (max_depth d))"

definition check_blank :: "envelope \<Rightarrow> string \<Rightarrow> violation list" where
  "check_blank v side =
     concat (map (\<lambda>(fld, val). if blank val then [invalid side fld ''must not be blank''] else [])
       [(''id'', env_id v), (''issuer.agent'', agent (issuer v)),
        (''recipient.agent'', agent (recipient v)), (''purpose'', purpose v),
        (''policy_version'', policy_version v)])"

definition check_identifiers :: "envelope \<Rightarrow> string \<Rightarrow> violation list" where
  "check_identifiers v side =
     concat (map (\<lambda>(fld, vals).
         concat (map (\<lambda>val. if exact_identifier val then []
             else [invalid side fld ''expected nonblank exact identifiers without wildcards''])
           (unique (elems vals))))
       [(''allowed_actions'', allowed_actions v), (''denied_actions'', denied_actions v),
        (''data_classes'', data_classes v)])"

definition check_resources :: "envelope \<Rightarrow> string \<Rightarrow> violation list" where
  "check_resources v side =
     concat (map (\<lambda>(category, scopes).
         (if valid_category category then [] else [invalid side ''resources'' ''invalid resource category''])
         @ concat (map (\<lambda>scope. if valid_scope scope then []
               else [invalid side (''resources.'' @ category)
                       (''unsupported resource pattern '' @ quote scope)])
             (unique (elems scopes))))
       (elems (resources v)))"

definition check_approval :: "'ctx cel \<Rightarrow> string \<Rightarrow> approval \<Rightarrow> violation list" where
  "check_approval c side a =
     (if blank (required_role a) then [invalid side ''approvals'' ''required_role must not be blank''] else [])
     @ (case compile c (condition a) of
          Inr _ \<Rightarrow> []
        | Inl e \<Rightarrow> [invalid side ''approvals'' (''invalid condition '' @ quote (condition a) @ '': '' @ e)])"

definition engine_validate :: "'ctx cel \<Rightarrow> envelope \<Rightarrow> string \<Rightarrow> gtime \<Rightarrow> violation list" where
  "engine_validate c v side now =
     (case validate_structure v of None \<Rightarrow> [] | Some e \<Rightarrow> [invalid side ''structure'' (validation_text e)])
     @ (case validate_expiration v now of None \<Rightarrow> [] | Some e \<Rightarrow> [invalid side ''expires_at'' (validation_text e)])
     @ (if env_version v \<noteq> ''1'' then [invalid side ''version'' ''only envelope version 1 is supported''] else [])
     @ check_blank v side
     @ (if depth_valid (env_delegation v) then []
        else [invalid side ''delegation'' ''depth must be nonnegative and within maximum''])
     @ (if may_expand_authority (env_delegation v)
        then [invalid side ''delegation.may_expand_authority'' ''authority expansion is not supported''] else [])
     @ check_identifiers v side
     @ check_resources v side
     @ concat (map (check_approval c side) (elems (approvals v)))"

definition Validate :: "'ctx cel \<Rightarrow> envelope \<Rightarrow> gtime \<Rightarrow> result" where
  "Validate c v now = finish (engine_validate c v ''envelope'' now)"

section \<open>Comparing a child with its parent\<close>

definition depth_steps :: "goint \<Rightarrow> goint \<Rightarrow> bool" where
  "depth_steps child parent \<longleftrightarrow> \<not> (child = 0 \<or> child - 1 \<noteq> parent)"

definition check_new :: "string \<Rightarrow> string \<Rightarrow> string \<Rightarrow> string list \<Rightarrow> string list \<Rightarrow> violation list" where
  "check_new code fld msg values known =
     concat (map (\<lambda>x. if contains known x then [] else [Violation code fld (msg @ quote x)]) (unique values))"

definition check_scopes :: "string slice gomap \<Rightarrow> string slice gomap \<Rightarrow> violation list" where
  "check_scopes parent child =
     concat (map (\<lambda>(category, scopes).
         concat (map (\<lambda>scope.
             if \<exists>allowed \<in> set (elems (map_get parent category)). covers allowed scope then []
             else [Violation ''RESOURCE_EXPANDED'' (''resources.'' @ category)
                     (''scope '' @ quote scope @ '' is outside parent resources'')])
           (unique (elems scopes))))
       (elems child))"

text \<open>
  Both conditions have compiled before (\<open>engine_validate\<close> found nothing), so the case where one
  does not is never reached; the code would dereference a nil tree there.
\<close>

definition inherits :: "'ctx cel \<Rightarrow> approval \<Rightarrow> approval \<Rightarrow> bool" where
  "inherits c requirement proposed \<longleftrightarrow>
     required_role proposed = required_role requirement
     \<and> (case (compile c (condition requirement), compile c (condition proposed)) of
          (Inr p, Inr q) \<Rightarrow> preserves c p q
        | _ \<Rightarrow> False)"

definition check_approvals :: "'ctx cel \<Rightarrow> approval list \<Rightarrow> approval list \<Rightarrow> violation list" where
  "check_approvals c parent child =
     concat (map (\<lambda>requirement.
         if \<exists>proposed \<in> set child. inherits c requirement proposed then []
         else [Violation ''APPROVAL_WEAKENED'' ''approvals''
                 (''cannot prove inheritance of role '' @ quote (required_role requirement)
                  @ '' when '' @ condition requirement)])
       parent)"

definition diff_checks :: "'ctx cel \<Rightarrow> envelope \<Rightarrow> envelope \<Rightarrow> violation list" where
  "diff_checks c parent child =
     (if parent_envelope child \<noteq> env_id parent
      then [Violation ''PARENT_MISMATCH'' ''parent_envelope'' ''child must reference the parent id''] else [])
     @ (if env_id child = env_id parent
        then [Violation ''ID_REUSED'' ''id'' ''child must have a different id''] else [])
     @ (if issuer child \<noteq> recipient parent
        then [Violation ''ISSUER_MISMATCH'' ''issuer'' ''child issuer must match parent recipient''] else [])
     @ (if purpose child \<noteq> purpose parent
        then [Violation ''PURPOSE_CHANGED'' ''purpose'' ''child must retain parent purpose''] else [])
     @ (if policy_version child \<noteq> policy_version parent
        then [Violation ''POLICY_VERSION_CHANGED'' ''policy_version'' ''child must retain policy version''] else [])
     @ (if after (expires_at child) (expires_at parent)
        then [Violation ''EXPIRY_EXPANDED'' ''expires_at'' ''child expires after parent''] else [])
     @ (if sint (max_depth (env_delegation child)) > sint (max_depth (env_delegation parent))
        then [Violation ''DEPTH_EXPANDED'' ''delegation.max_depth'' ''child increases maximum depth''] else [])
     @ (if depth_steps (current_depth (env_delegation child)) (current_depth (env_delegation parent)) then []
        else [Violation ''DEPTH_INVALID'' ''delegation.current_depth'' ''child depth must equal parent depth plus one''])
     @ check_new ''ACTION_EXPANDED'' ''allowed_actions'' ''new action ''
         (elems (allowed_actions child)) (elems (allowed_actions parent))
     @ check_new ''DENIAL_REMOVED'' ''denied_actions'' ''removed denial ''
         (elems (denied_actions parent)) (elems (denied_actions child))
     @ check_new ''DATA_EXPANDED'' ''data_classes'' ''new data class ''
         (elems (data_classes child)) (elems (data_classes parent))
     @ check_scopes (resources parent) (resources child)
     @ check_approvals c (elems (approvals parent)) (elems (approvals child))"

definition diff :: "'ctx cel \<Rightarrow> envelope \<Rightarrow> envelope \<Rightarrow> gtime \<Rightarrow> result" where
  "diff c parent child now =
     (let vs = engine_validate c parent ''parent'' now @ engine_validate c child ''child'' now
      in if vs \<noteq> [] then finish vs else finish (diff_checks c parent child))"

end
