(* ===== verification/Store.thy ===== *)
theory Store
  imports Policy
begin

text \<open>
  The database (\<open>internal/store\<close>): the tables of \<open>schema.sql\<close> as lists of rows, the statements
  the handlers issue with the constraints the schema puts on them, and the transaction wrapper.
  PostgreSQL itself is modelled only through the SQL that the program sends.  The interface
  \<open>keyed_table\<close> states what an insert into a table with a key promises; every such table of the
  schema interprets it.
\<close>

section \<open>Errors\<close>

text \<open>
  An \<open>apiError\<close> with its status and message, the driver's \<open>ErrNoRows\<close>, a unique violation (SQLSTATE
  23505), a foreign-key violation, and any other failure.
\<close>

datatype api_error = Api nat string | NoRows | UniqueViolation | ForeignKey | Internal string

definition bad :: "string \<Rightarrow> api_error" where
  "bad message = Api 400 message"

definition denied :: "string \<Rightarrow> api_error" where
  "denied message = Api 403 message"

fun error_text :: "api_error \<Rightarrow> string" where
  "error_text (Api status message) = message"
| "error_text NoRows = ''no rows in result set''"
| "error_text UniqueViolation = ''duplicate key value violates unique constraint''"
| "error_text ForeignKey = ''violates foreign key constraint''"
| "error_text (Internal message) = message"

section \<open>Tables\<close>

text \<open>
  The \<open>document\<close> column holds the envelope its JSON decodes to, \<open>None\<close> when it does not decode.
  Times are instants; every \<open>timestamptz\<close> column holds whole microseconds.
\<close>

record env_row =
  er_id :: string
  er_run :: string
  er_parent :: "string option"
  er_doc :: "envelope option"
  er_revoked :: "int option"
  er_created :: int

record handoff_row =
  ho_id :: string
  ho_run :: string
  ho_parent :: string
  ho_child :: "string option"
  ho_proposed :: string
  ho_result :: result
  ho_created :: int

record approval_row =
  pr_id :: string
  pr_envelope :: string
  pr_action :: string
  pr_resource :: string
  pr_hash :: string
  pr_approver :: string
  pr_role :: string
  pr_expires :: int
  pr_consumed :: "int option"
  pr_created :: int
  pr_operator :: "string option"
  pr_amount :: "int option"

record action_row =
  ta_id :: string
  ta_run :: string
  ta_envelope :: string
  ta_agent :: string
  ta_tool :: string
  ta_hash :: string
  ta_result :: result
  ta_created :: int

record violation_row =
  vr_run :: string
  vr_envelope :: string
  vr_violation :: violation

record audit_row =
  au_id :: string
  au_run :: string
  au_type :: string
  au_payload :: json
  au_payload_hash :: string
  au_previous :: string
  au_hash :: string
  au_time :: int

record operator_row =
  op_id :: string
  op_username :: string
  op_display :: string
  op_role :: string
  op_password :: string
  op_disabled :: bool

record session_row =
  se_token :: string
  se_operator :: string
  se_expires :: int

record limit_row =
  li_bucket :: string
  li_attempts :: int
  li_reset :: int

record db =
  t_metadata :: "(string \<times> string) list"
  t_agents :: "(string \<times> string) list"
  t_runs :: "(string \<times> int) list"
  t_envelopes :: "env_row list"
  t_handoffs :: "handoff_row list"
  t_approvals :: "approval_row list"
  t_actions :: "action_row list"
  t_violations :: "violation_row list"
  t_audit :: "audit_row list"
  t_operators :: "operator_row list"
  t_sessions :: "session_row list"
  t_limits :: "limit_row list"

definition empty_db :: db where
  "empty_db =
     \<lparr>t_metadata = [], t_agents = [], t_runs = [], t_envelopes = [], t_handoffs = [], t_approvals = [],
      t_actions = [], t_violations = [], t_audit = [], t_operators = [], t_sessions = [], t_limits = []\<rparr>"

section \<open>Statements\<close>

definition has_run :: "db \<Rightarrow> string \<Rightarrow> bool" where
  "has_run d i \<longleftrightarrow> i \<in> fst ` set (t_runs d)"

definition has_envelope :: "db \<Rightarrow> string \<Rightarrow> bool" where
  "has_envelope d i \<longleftrightarrow> i \<in> er_id ` set (t_envelopes d)"

definition find_envelope :: "db \<Rightarrow> string \<Rightarrow> env_row option" where
  "find_envelope d i = find (\<lambda>r. er_id r = i) (t_envelopes d)"

definition insert_agent :: "string \<Rightarrow> string \<Rightarrow> db \<Rightarrow> db" where
  "insert_agent name version d = d\<lparr>t_agents := (if (name, version) \<in> set (t_agents d) then t_agents d
      else t_agents d @ [(name, version)])\<rparr>"

definition insert_run :: "string \<times> int \<Rightarrow> db \<Rightarrow> api_error + db" where
  "insert_run r d =
     (if has_run d (fst r) then Inl UniqueViolation else Inr (d\<lparr>t_runs := t_runs d @ [r]\<rparr>))"

definition insert_envelope :: "env_row \<Rightarrow> db \<Rightarrow> api_error + db" where
  "insert_envelope r d =
     (if has_envelope d (er_id r) then Inl UniqueViolation
      else if er_parent r = None \<and> (\<exists>x \<in> set (t_envelopes d). er_run x = er_run r \<and> er_parent x = None)
        then Inl UniqueViolation
      else if \<not> has_run d (er_run r) then Inl ForeignKey
      else if (case er_parent r of None \<Rightarrow> False | Some p \<Rightarrow> \<not> has_envelope d p) then Inl ForeignKey
      else Inr (d\<lparr>t_envelopes := t_envelopes d @ [r]\<rparr>))"

definition revoke_envelope :: "string \<Rightarrow> int \<Rightarrow> db \<Rightarrow> db" where
  "revoke_envelope i t d =
     d\<lparr>t_envelopes := map (\<lambda>r. if er_id r = i then r\<lparr>er_revoked := Some t\<rparr> else r) (t_envelopes d)\<rparr>"

definition insert_handoff :: "handoff_row \<Rightarrow> db \<Rightarrow> api_error + db" where
  "insert_handoff r d =
     (if ho_id r \<in> ho_id ` set (t_handoffs d) then Inl UniqueViolation
      else if \<not> has_run d (ho_run r) \<or> \<not> has_envelope d (ho_parent r) then Inl ForeignKey
      else if (case ho_child r of None \<Rightarrow> False | Some c \<Rightarrow> \<not> has_envelope d c) then Inl ForeignKey
      else if decision (ho_result r) \<notin> {ALLOW, DENY} then Inl (Internal ''violates check constraint'')
      else Inr (d\<lparr>t_handoffs := t_handoffs d @ [r]\<rparr>))"

definition insert_approval :: "approval_row \<Rightarrow> db \<Rightarrow> api_error + db" where
  "insert_approval r d =
     (if pr_id r \<in> pr_id ` set (t_approvals d) then Inl UniqueViolation
      else if \<not> has_envelope d (pr_envelope r) then Inl ForeignKey
      else if (case pr_operator r of None \<Rightarrow> False | Some o' \<Rightarrow> o' \<notin> op_id ` set (t_operators d)) then Inl ForeignKey
      else Inr (d\<lparr>t_approvals := t_approvals d @ [r]\<rparr>))"

definition consume_approval :: "int \<Rightarrow> string \<Rightarrow> db \<Rightarrow> db" where
  "consume_approval t i d =
     d\<lparr>t_approvals := map (\<lambda>r. if pr_id r = i then r\<lparr>pr_consumed := Some t\<rparr> else r) (t_approvals d)\<rparr>"

definition insert_action :: "action_row \<Rightarrow> db \<Rightarrow> api_error + db" where
  "insert_action r d =
     (if ta_id r \<in> ta_id ` set (t_actions d) then Inl UniqueViolation
      else if \<not> has_run d (ta_run r) \<or> \<not> has_envelope d (ta_envelope r) then Inl ForeignKey
      else if decision (ta_result r) \<notin> {ALLOW, DENY} then Inl (Internal ''violates check constraint'')
      else Inr (d\<lparr>t_actions := t_actions d @ [r]\<rparr>))"

definition insert_violation :: "violation_row \<Rightarrow> db \<Rightarrow> api_error + db" where
  "insert_violation r d =
     (if \<not> has_run d (vr_run r) \<or> \<not> has_envelope d (vr_envelope r) then Inl ForeignKey
      else Inr (d\<lparr>t_violations := t_violations d @ [r]\<rparr>))"

definition insert_audit :: "audit_row \<Rightarrow> db \<Rightarrow> api_error + db" where
  "insert_audit r d =
     (if au_id r \<in> au_id ` set (t_audit d) then Inl UniqueViolation
      else if \<not> has_run d (au_run r) then Inl ForeignKey
      else Inr (d\<lparr>t_audit := t_audit d @ [r]\<rparr>))"

text \<open>What a statement that succeeds has done.\<close>

named_theorems inserted \<open>the database after an insert\<close>

lemma insert_run_Inr:
  "insert_run r d = Inr d' \<longleftrightarrow> \<not> has_run d (fst r) \<and> d' = d\<lparr>t_runs := t_runs d @ [r]\<rparr>"
  by (auto simp: insert_run_def)

lemma insert_envelope_Inr:
  "insert_envelope r d = Inr d' \<longleftrightarrow>
     \<not> has_envelope d (er_id r) \<and> has_run d (er_run r)
     \<and> (er_parent r = None \<longrightarrow> (\<forall>x \<in> set (t_envelopes d). er_run x = er_run r \<longrightarrow> er_parent x \<noteq> None))
     \<and> (\<forall>p. er_parent r = Some p \<longrightarrow> has_envelope d p) \<and> d' = d\<lparr>t_envelopes := t_envelopes d @ [r]\<rparr>"
  by (cases "er_parent r") (auto simp: insert_envelope_def)

lemma insert_handoff_Inr [inserted]:
  "insert_handoff r d = Inr d' \<Longrightarrow> d' = d\<lparr>t_handoffs := t_handoffs d @ [r]\<rparr>"
  by (auto simp: insert_handoff_def split: if_splits)

lemma insert_approval_Inr [inserted]:
  "insert_approval r d = Inr d' \<Longrightarrow>
     d' = d\<lparr>t_approvals := t_approvals d @ [r]\<rparr> \<and> pr_id r \<notin> pr_id ` set (t_approvals d)"
  by (auto simp: insert_approval_def split: if_splits)

lemma insert_action_Inr [inserted]:
  "insert_action r d = Inr d' \<Longrightarrow> d' = d\<lparr>t_actions := t_actions d @ [r]\<rparr>"
  by (auto simp: insert_action_def split: if_splits)

lemma insert_violation_Inr [inserted]:
  "insert_violation r d = Inr d' \<Longrightarrow> d' = d\<lparr>t_violations := t_violations d @ [r]\<rparr>"
  by (auto simp: insert_violation_def split: if_splits)

lemma insert_audit_Inr [inserted]:
  "insert_audit r d = Inr d' \<Longrightarrow> d' = d\<lparr>t_audit := t_audit d @ [r]\<rparr> \<and> has_run d (au_run r)"
  by (auto simp: insert_audit_def split: if_splits)

lemmas insert_run_dest [inserted] = insert_run_Inr [THEN iffD1]
lemmas insert_envelope_dest [inserted] = insert_envelope_Inr [THEN iffD1]

section \<open>Transactions (store.go)\<close>

text \<open>
  The failures a transaction can meet outside its body: beginning, taking the advisory lock,
  committing.  On any error the deferred rollback leaves the database as it was.
\<close>

record faults =
  f_begin :: "api_error option"
  f_lock :: "api_error option"
  f_commit :: "api_error option"

definition transaction :: "faults \<Rightarrow> (db \<Rightarrow> api_error + 'a \<times> db) \<Rightarrow> db \<Rightarrow> (api_error + 'a) \<times> db" where
  "transaction f fn d =
     (case f_begin f of
        Some e \<Rightarrow> (Inl e, d)
      | None \<Rightarrow>
          (case f_lock f of
             Some e \<Rightarrow> (Inl e, d)
           | None \<Rightarrow>
               (case fn d of
                  Inl e \<Rightarrow> (Inl e, d)
                | Inr (x, d') \<Rightarrow> (case f_commit f of Some e \<Rightarrow> (Inl e, d) | None \<Rightarrow> (Inr x, d')))))"

section \<open>Tables with a key\<close>

locale keyed_table =
  fixes rows :: "'d \<Rightarrow> 'r list"
    and key :: "'r \<Rightarrow> 'k"
    and ins :: "'r \<Rightarrow> 'd \<Rightarrow> api_error + 'd"
  assumes insert_rows: "ins r d = Inr d' \<Longrightarrow> rows d' = rows d @ [r]"
    and insert_fresh: "ins r d = Inr d' \<Longrightarrow> key r \<notin> key ` set (rows d)"
begin

lemma insert_distinct:
  "ins r d = Inr d' \<Longrightarrow> distinct (map key (rows d)) \<Longrightarrow> distinct (map key (rows d'))"
  using insert_rows [of r d d'] insert_fresh [of r d d'] by simp

lemma find_inserted:
  assumes "ins r d = Inr d'"
  shows "find (\<lambda>x. key x = k) (rows d')
    = (if key r = k then Some r else find (\<lambda>x. key x = k) (rows d))"
proof -
  have "find (\<lambda>x. key x = k) (rows d) = None" if "key r = k"
    unfolding find_None_iff using insert_fresh [OF assms] that by (metis imageI)
  moreover have "find P (xs @ [r]) = (case find P xs of None \<Rightarrow> if P r then Some r else None | Some x \<Rightarrow> Some x)"
    for P xs by (induction xs) auto
  ultimately show ?thesis
    by (auto simp: insert_rows [OF assms] split: option.split)
qed

lemma find_kept:
  "ins r d = Inr d' \<Longrightarrow> find (\<lambda>x. key x = k) (rows d) = Some y \<Longrightarrow> find (\<lambda>x. key x = k) (rows d') = Some y"
  using insert_fresh find_inserted
  by (metis (mono_tags, lifting) find_Some_iff image_eqI nth_mem)

end

interpretation runs_table: keyed_table t_runs fst insert_run
  by unfold_locales (auto simp: insert_run_def has_run_def split: if_splits)

interpretation envelopes_table: keyed_table t_envelopes er_id insert_envelope
  by unfold_locales (auto simp: insert_envelope_def has_envelope_def split: if_splits)

interpretation handoffs_table: keyed_table t_handoffs ho_id insert_handoff
  by unfold_locales (auto simp: insert_handoff_def split: if_splits)

interpretation approvals_table: keyed_table t_approvals pr_id insert_approval
  by unfold_locales (auto simp: insert_approval_def split: if_splits)

interpretation actions_table: keyed_table t_actions ta_id insert_action
  by unfold_locales (auto simp: insert_action_def split: if_splits)

interpretation audit_table: keyed_table t_audit au_id insert_audit
  by unfold_locales (auto simp: insert_audit_def split: if_splits)

end
