(* ===== verification/Audit_Log.thy ===== *)
theory Audit_Log
  imports Store
begin

text \<open>
  The audit log (\<open>internal/server/audit.go\<close>): appending an event to a run's hash chain and
  verifying the chain against the stored envelopes.  \<open>hash_chain\<close> is the interface of a list of
  events that each carry the hash of the one before.
\<close>

section \<open>Digests\<close>

text \<open>\<open>digest\<close> of server.go: of a value made of maps, and of the header struct.\<close>

definition digest_text :: "crypto \<Rightarrow> string \<Rightarrow> string" where
  "digest_text c s = hex_encode (sha256 c s)"

definition digest :: "crypto \<Rightarrow> json \<Rightarrow> string" where
  "digest c v = digest_text c (marshal_any v)"

record audit_header =
  h_id :: string
  h_run :: string
  h_type :: string
  h_payload_hash :: string
  h_previous :: string
  h_time :: gtime

definition encode_header :: "audit_header \<Rightarrow> json" where
  "encode_header h =
     JObj [(''id'', JStr (h_id h)), (''run_id'', JStr (h_run h)), (''event_type'', JStr (h_type h)),
           (''payload_hash'', JStr (h_payload_hash h)), (''previous_event_hash'', JStr (h_previous h)),
           (''timestamp'', JStr (rfc3339_nano (h_time h)))]"

definition header_hash :: "crypto \<Rightarrow> audit_header \<Rightarrow> string" where
  "header_hash c h = digest_text c (print_json (encode_header h))"

definition new_id :: "string \<Rightarrow> string \<Rightarrow> string" where
  "new_id pre rand = pre @ trim_prefix (new_env_id rand) ''env_''"

section \<open>Appending\<close>

definition events_of :: "string \<Rightarrow> db \<Rightarrow> audit_row list" where
  "events_of run d = filter (\<lambda>r. au_run r = run) (t_audit d)"

definition last_hash :: "string \<Rightarrow> db \<Rightarrow> string" where
  "last_hash run d = (case rev (events_of run d) of [] \<Rightarrow> [] | r # _ \<Rightarrow> au_hash r)"

text \<open>\<open>rand\<close> is what \<open>newID\<close> reads, \<open>now\<close> what \<open>time.Now\<close> returns.\<close>

definition audit_event :: "crypto \<Rightarrow> string \<Rightarrow> int \<Rightarrow> string \<Rightarrow> string \<Rightarrow> json \<Rightarrow> db \<Rightarrow> audit_row" where
  "audit_event c rand now run kind payload d =
     (let payload_hash = digest c payload;
          previous = last_hash run d;
          header = \<lparr>h_id = new_id ''evt_'' rand, h_run = run, h_type = kind,
                    h_payload_hash = payload_hash, h_previous = previous, h_time = utc (micros now)\<rparr>
      in \<lparr>au_id = h_id header, au_run = run, au_type = kind, au_payload = payload,
          au_payload_hash = payload_hash, au_previous = previous, au_hash = header_hash c header,
          au_time = inst (h_time header)\<rparr>)"

definition append_audit ::
  "crypto \<Rightarrow> string \<Rightarrow> int \<Rightarrow> string \<Rightarrow> string \<Rightarrow> json \<Rightarrow> db \<Rightarrow> api_error + db" where
  "append_audit c rand now run kind payload d = insert_audit (audit_event c rand now run kind payload d) d"

section \<open>Verifying\<close>

definition row_header :: "audit_row \<Rightarrow> audit_header" where
  "row_header r =
     \<lparr>h_id = au_id r, h_run = au_run r, h_type = au_type r, h_payload_hash = au_payload_hash r,
      h_previous = au_previous r, h_time = utc (au_time r)\<rparr>"

fun as_object :: "json \<Rightarrow> json option" where
  "as_object (JObj kvs) = Some (JObj kvs)"
| "as_object _ = None"

definition field_text :: "json \<Rightarrow> string \<Rightarrow> string" where
  "field_text v k = (case json_field v k of Some (JStr s) \<Rightarrow> s | _ \<Rightarrow> [])"

text \<open>The envelope an event snapshots: the one created, or the one a persisted handoff issued.\<close>

definition event_snapshot :: "string \<Rightarrow> json \<Rightarrow> json option" where
  "event_snapshot kind payload =
     (if kind = ''handoff.evaluated'' \<and> json_field payload ''persisted'' = Some (JBool True) then
        (case json_field payload ''proposed_child'' of None \<Rightarrow> None | Some v \<Rightarrow> as_object v)
      else if kind = ''envelope.created'' then as_object payload
      else None)"

record verify_state =
  vs_failures :: "string list"
  vs_previous :: string
  vs_count :: nat
  vs_snapshots :: "(string \<times> string) list"

definition put :: "'k \<Rightarrow> 'v \<Rightarrow> ('k \<times> 'v) list \<Rightarrow> ('k \<times> 'v) list" where
  "put k v m = (k, v) # filter (\<lambda>p. fst p \<noteq> k) m"

definition event_intact :: "crypto \<Rightarrow> string \<Rightarrow> audit_row \<Rightarrow> bool" where
  "event_intact c previous r \<longleftrightarrow>
     \<not> (au_previous r \<noteq> previous \<or> header_hash c (row_header r) \<noteq> au_hash r
        \<or> digest c (au_payload r) \<noteq> au_payload_hash r)"

definition verify_event :: "crypto \<Rightarrow> audit_row \<Rightarrow> verify_state \<Rightarrow> verify_state" where
  "verify_event c r s =
     (let fails = (if event_intact c (vs_previous s) r then []
                   else [''audit event modified: '' @ au_id r]);
          snap = event_snapshot (au_type r) (au_payload r);
          bad_snap = (case snap of None \<Rightarrow> False
                      | Some v \<Rightarrow> field_text v ''id'' = [] \<or> field_text v ''signature'' = [])
      in s\<lparr>vs_failures := vs_failures s @ fails
             @ (if bad_snap then [''invalid envelope snapshot: '' @ au_id r] else []),
           vs_previous := au_hash r,
           vs_count := Suc (vs_count s),
           vs_snapshots :=
             (case snap of None \<Rightarrow> vs_snapshots s
              | Some v \<Rightarrow> if bad_snap then vs_snapshots s
                          else put (field_text v ''id'') (field_text v ''signature'') (vs_snapshots s))\<rparr>)"

definition verify_events :: "crypto \<Rightarrow> audit_row list \<Rightarrow> verify_state" where
  "verify_events c rs = fold (verify_event c) rs
     \<lparr>vs_failures = [], vs_previous = [], vs_count = 0, vs_snapshots = []\<rparr>"

text \<open>The run's envelopes by row id; a document that does not decode is an error.\<close>

definition read_envelope :: "env_row \<Rightarrow> (string \<times> envelope) list \<Rightarrow> api_error + (string \<times> envelope) list" where
  "read_envelope r m =
     (case er_doc r of None \<Rightarrow> Inl (Internal ''cannot decode document'') | Some v \<Rightarrow> Inr (put (er_id r) v m))"

definition run_rows :: "string \<Rightarrow> db \<Rightarrow> env_row list" where
  "run_rows run d = sort_key er_id (filter (\<lambda>r. er_run r = run) (t_envelopes d))"

definition parent_text :: "env_row list \<Rightarrow> string \<Rightarrow> string" where
  "parent_text rs i =
     (case find (\<lambda>r. er_id r = i) rs of None \<Rightarrow> [] | Some r \<Rightarrow> (case er_parent r of None \<Rightarrow> [] | Some p \<Rightarrow> p))"

definition check_snapshot :: "(string \<times> envelope) list \<Rightarrow> string \<times> string \<Rightarrow> string list" where
  "check_snapshot envs p =
     (case map_of envs (fst p) of
        Some v \<Rightarrow> if signature v \<noteq> snd p then [''missing or replaced envelope: '' @ fst p] else []
      | None \<Rightarrow> [''missing or replaced envelope: '' @ fst p])"

definition check_envelope ::
  "crypto \<Rightarrow> string \<Rightarrow> (string \<times> string) list \<Rightarrow> (string \<times> envelope) list \<Rightarrow> env_row list
    \<Rightarrow> string \<times> envelope \<Rightarrow> string list" where
  "check_envelope c pub snaps envs rs p =
     (case p of (i, v) \<Rightarrow>
       (if map_of snaps i = None then [''missing creation event: '' @ i] else [])
       @ (if verify c v pub \<noteq> Inr () \<or> env_id v \<noteq> i then [''envelope signature invalid: '' @ i] else [])
       @ (if parent_text rs i \<noteq> parent_envelope v then [''parent reference modified: '' @ i] else [])
       @ (if parent_envelope v \<noteq> [] \<and> map_of envs (parent_envelope v) = None
          then [''missing parent: '' @ i] else []))"

record report =
  rp_status :: string
  rp_events :: nat
  rp_envelopes :: nat
  rp_head :: string
  rp_failures :: "string list"

definition verify_audit :: "crypto \<Rightarrow> string \<Rightarrow> string \<Rightarrow> db \<Rightarrow> api_error + report" where
  "verify_audit c pub run d =
     (if \<not> has_run d run then Inl NoRows
      else
        let s = verify_events c (events_of run d); rs = run_rows run d
        in rbind (fold_result read_envelope rs []) (\<lambda>envs.
             let failures = sort (vs_failures s
                   @ (if vs_count s = 0 then [''missing audit events''] else [])
                   @ concat (map (check_snapshot envs) (vs_snapshots s))
                   @ concat (map (check_envelope c pub (vs_snapshots s) envs rs) envs))
             in Inr \<lparr>rp_status = (if length failures > 0 then ''INVALID'' else ''VALID''),
                     rp_events = vs_count s, rp_envelopes = length envs,
                     rp_head = vs_previous s, rp_failures = failures\<rparr>))"

end
