(* ===== verification/Json_Inject.thy ===== *)
theory Json_Inject
  imports Json
begin

text \<open>
  The encoder is unambiguous: over values whose strings are valid UTF-8 and whose numbers are
  number literals, equal texts come from equal values.  The audit log and the approvals hash
  these texts, so this is what ties a hash to the value it was computed from.
\<close>

section \<open>Well-formed values\<close>

definition valid_utf8 :: "string \<Rightarrow> bool" where
  "valid_utf8 s \<longleftrightarrow> (\<forall>r \<in> set (runes s). length r = 1 \<longrightarrow> byte (hd r) < 128)"

definition num_chars :: string where
  "num_chars = ''0123456789+-.eE''"

definition num_literal :: "string \<Rightarrow> bool" where
  "num_literal s \<longleftrightarrow> s \<noteq> [] \<and> (is_digit (hd s) \<or> hd s = CHR ''-'') \<and> set s \<subseteq> set num_chars"

fun json_ok :: "json \<Rightarrow> bool" where
  "json_ok (JNum s) \<longleftrightarrow> num_literal s"
| "json_ok (JStr s) \<longleftrightarrow> valid_utf8 s"
| "json_ok (JArr vs) \<longleftrightarrow> (\<forall>v \<in> set vs. json_ok v)"
| "json_ok (JObj kvs) \<longleftrightarrow> (\<forall>(k, v) \<in> set kvs. valid_utf8 k \<and> json_ok v)"
| "json_ok v \<longleftrightarrow> True"

section \<open>Strings\<close>

text \<open>A decoder for one escaped rune, used only to show that escapes do not overlap.\<close>

definition hex_value :: "char \<Rightarrow> nat" where
  "hex_value c = (if byte c < 58 then byte c - 48 else byte c - 87)"

definition unescape4 :: "string \<Rightarrow> string" where
  "unescape4 t =
     (if take 2 t = ''00'' then [char_of (16 * hex_value (t ! 2) + hex_value (t ! 3))]
      else [CHR 0xE2, CHR 0x80, char_of (160 + hex_value (t ! 3))])"

definition unescape_short :: "char \<Rightarrow> char" where
  "unescape_short e =
     (if e = CHR ''b'' then CHR 0x08 else if e = CHR ''f'' then CHR 0x0C
      else if e = CHR ''n'' then CHR 0x0A else if e = CHR ''r'' then CHR 0x0D
      else if e = CHR ''t'' then CHR 0x09 else e)"

definition unescape :: "string \<Rightarrow> string \<times> string" where
  "unescape s =
     (if hd s \<noteq> CHR 0x5C then (take (rune_size s) s, drop (rune_size s) s)
      else if s ! 1 = CHR ''u'' then (unescape4 (take 4 (drop 2 s)), drop 6 s)
      else ([unescape_short (s ! 1)], drop 2 s))"

definition rune_ok :: "string \<Rightarrow> bool" where
  "rune_ok r \<longleftrightarrow> 0 < rune_size r \<and> rune_size r = length r"

lemma hex_value_digit: "d < 16 \<Longrightarrow> hex_value (hex_digit d) = d"
  by (simp add: hex_value_def hex_digit_def byte_def of_char_of)

lemma hex_value_byte:
  "16 * hex_value (hex_digit (byte c div 16)) + hex_value (hex_digit (byte c mod 16)) = byte c"
proof -
  have "byte c div 16 < 16" using byte_less [of c] by (simp add: less_mult_imp_div_less)
  then show ?thesis by (simp add: hex_value_digit)
qed

lemma char_of_byte [simp]: "char_of (byte c) = c"
  by (simp add: byte_def)

lemma rune_size_le_4: "rune_size s \<le> 4"
  by (simp add: rune_size_def split: list.split)

lemma rune_ok_single: "rune_ok [c] \<longleftrightarrow> byte c < 128"
  by (auto simp: rune_ok_def rune_size_def)

lemma rune_ok_shape:
  assumes "rune_ok r"
  obtains (one) a where "r = [a]" "byte a < 128"
  | (two) a b where "r = [a, b]" "194 \<le> byte a" "byte a \<le> 223" "second_ok (byte a) (byte b)"
  | (three) a b c where "r = [a, b, c]" "224 \<le> byte a" "byte a \<le> 239"
      "second_ok (byte a) (byte b)" "cont (byte c)"
  | (four) a b c d where "r = [a, b, c, d]" "240 \<le> byte a" "byte a \<le> 244"
      "second_ok (byte a) (byte b)" "cont (byte c)" "cont (byte d)"
proof -
  have len: "length r \<le> 4" "r \<noteq> []"
    using assms rune_size_le_4 [of r] by (auto simp: rune_ok_def)
  then consider a where "r = [a]" | a b where "r = [a, b]" | a b c where "r = [a, b, c]"
    | a b c d where "r = [a, b, c, d]"
    by (cases r; cases "tl r"; cases "tl (tl r)"; cases "tl (tl (tl r))") auto
  then show thesis
  proof cases
    case 1
    with assms show ?thesis by (intro one) (auto simp: rune_ok_single)
  next
    case (2 a b)
    with assms show ?thesis
      by (intro two [of a b]) (auto simp: rune_ok_def rune_size_def split: if_splits)
  next
    case (3 a b c)
    with assms show ?thesis
      by (intro three [of a b c]) (auto simp: rune_ok_def rune_size_def split: if_splits)
  next
    case (4 a b c d)
    with assms show ?thesis
      by (intro four [of a b c d]) (auto simp: rune_ok_def rune_size_def split: if_splits)
  qed
qed

lemma rune_size_append: "rune_ok r \<Longrightarrow> rune_size (r @ x) = length r"
  by (erule rune_ok_shape) (simp_all add: rune_size_def)

lemma rune_ok_long: "rune_ok r \<Longrightarrow> length r \<noteq> 1 \<Longrightarrow> 194 \<le> byte (hd r)"
  by (erule rune_ok_shape) simp_all

lemma unescape_hex:
  assumes "byte c < 128"
  shows "unescape ([CHR 0x5C] @ ''u00'' @ hex_byte c @ x) = ([c], x)"
  by (simp add: unescape_def unescape4_def hex_byte_def hex_value_byte)

lemma unescape_short_code:
  "e \<noteq> CHR ''u'' \<Longrightarrow> unescape (CHR 0x5C # e # x) = ([unescape_short e], x)"
  by (simp add: unescape_def)

lemma unescape_plain:
  "rune_ok r \<Longrightarrow> hd r \<noteq> CHR 0x5C \<Longrightarrow> unescape (r @ x) = (r, x)"
  by (auto simp: unescape_def rune_size_append rune_ok_def)

lemma rune_ok_take:
  assumes "0 < rune_size s"
  shows "rune_ok (take (rune_size s) s)"
proof -
  have "s \<noteq> []" using assms by (auto simp: rune_size_def)
  then consider a where "s = [a]" | a b where "s = [a, b]" | a b c where "s = [a, b, c]"
    | a b c d t where "s = a # b # c # d # t"
    by (cases s; cases "tl s"; cases "tl (tl s)"; cases "tl (tl (tl s))") auto
  then show ?thesis
    by cases (use assms in \<open>auto simp: rune_ok_def rune_size_def split: if_splits\<close>)
qed

lemma escape_rune_long:
  assumes "length r \<noteq> 1"
  shows "escape_rune r =
     (if r = [CHR 0xE2, CHR 0x80, CHR 0xA8] then [CHR 0x5C] @ ''u2028''
      else if r = [CHR 0xE2, CHR 0x80, CHR 0xA9] then [CHR 0x5C] @ ''u2029''
      else r)"
  using assms unfolding escape_rune_def by (cases r; cases "tl r") simp_all

lemma char_of_separators: "char_of (168 :: nat) = CHR 0xA8" "char_of (169 :: nat) = CHR 0xA9"
  by code_simp+

lemma unescape_line_separators:
  "unescape ([CHR 0x5C] @ ''u2028'' @ x) = ([CHR 0xE2, CHR 0x80, CHR 0xA8], x)"
  "unescape ([CHR 0x5C] @ ''u2029'' @ x) = ([CHR 0xE2, CHR 0x80, CHR 0xA9], x)"
  by (simp_all add: unescape_def unescape4_def hex_value_def byte_def char_of_separators)

lemma rune_ok_long_head: "rune_ok r \<Longrightarrow> length r \<noteq> 1 \<Longrightarrow> hd r \<noteq> CHR 0x5C \<and> hd r \<noteq> CHR 0x22"
  using rune_ok_long [of r] by (auto simp: byte_def)

lemma unescape_escape:
  assumes "rune_ok r"
  shows "unescape (escape_rune r @ x) = (r, x)"
proof (cases "length r = 1")
  case True
  then obtain c where "r = [c]" by (cases r) auto
  with assms show ?thesis
    using unescape_hex [of c x] unescape_plain [of "[c]" x]
    by (simp add: escape_rune_def unescape_short_code unescape_short_def rune_ok_single)
next
  case False
  have "hd r \<noteq> CHR 0x5C" using assms False by (simp add: rune_ok_long_head)
  with assms False show ?thesis
    using unescape_line_separators [of x] unescape_plain [of r x] by (simp add: escape_rune_long)
qed

lemma escape_rune_head:
  assumes "rune_ok r"
  shows "\<exists>c t. escape_rune r = c # t \<and> c \<noteq> CHR 0x22"
proof (cases "length r = 1")
  case True
  then obtain c where "r = [c]" by (cases r) auto
  then show ?thesis by (simp add: escape_rune_def)
next
  case False
  with assms have "hd r \<noteq> CHR 0x22" "r \<noteq> []" by (auto simp: rune_ok_long_head rune_ok_def)
  with False show ?thesis by (cases r) (simp_all add: escape_rune_long)
qed

lemma valid_utf8_runes:
  assumes "valid_utf8 s"
  shows "\<forall>r \<in> set (runes s). rune_ok r"
  using assms
proof (induction s rule: runes.induct)
  case 1
  then show ?case by simp
next
  case (2 c cs)
  let ?n = "rune_size (c # cs)"
  have "valid_utf8 (drop (max 1 ?n) (c # cs))"
    using "2.prems" by (simp add: valid_utf8_def Let_def)
  then have tail: "\<forall>r \<in> set (runes (drop (max 1 ?n) (c # cs))). rune_ok r"
    by (intro "2.IH") simp_all
  have "rune_ok (take (max 1 ?n) (c # cs))"
  proof (cases "?n = 0")
    case True
    with "2.prems" have "byte c < 128" by (simp add: valid_utf8_def Let_def)
    with True show ?thesis by (simp add: rune_ok_single)
  next
    case False
    then have "max 1 ?n = ?n" by simp
    with False rune_ok_take [of "c # cs"] show ?thesis by (simp del: take_Cons')
  qed
  with tail show ?case by (simp add: Let_def)
qed

lemma escape_runes_inject:
  assumes "concat (map escape_rune rs) @ CHR 0x22 # x = concat (map escape_rune rs') @ CHR 0x22 # y"
    and "\<forall>r \<in> set rs. rune_ok r" and "\<forall>r \<in> set rs'. rune_ok r"
  shows "rs = rs' \<and> x = y"
  using assms
proof (induction rs arbitrary: rs')
  case Nil
  show ?case
  proof (cases rs')
    case (Cons r t)
    with Nil obtain c u where "escape_rune r = c # u" "c \<noteq> CHR 0x22"
      using escape_rune_head [of r] by auto
    with Nil Cons show ?thesis by simp
  qed (use Nil in simp)
next
  case (Cons r rs)
  show ?case
  proof (cases rs')
    case Nil
    obtain c u where "escape_rune r = c # u" "c \<noteq> CHR 0x22"
      using escape_rune_head [of r] Cons.prems(2) by auto
    with Cons.prems Nil show ?thesis by simp
  next
    case (Cons r' t)
    let ?a = "concat (map escape_rune rs) @ CHR 0x22 # x"
    let ?b = "concat (map escape_rune t) @ CHR 0x22 # y"
    have "unescape (escape_rune r @ ?a) = unescape (escape_rune r' @ ?b)"
      using Cons.prems(1) Cons by simp
    then have "r = r'" "?a = ?b"
      using Cons.prems(2,3) Cons by (simp_all add: unescape_escape)
    moreover from this Cons.IH [of t] Cons.prems(2,3) Cons have "rs = t \<and> x = y" by simp
    ultimately show ?thesis using Cons by simp
  qed
qed

lemma print_string_inject:
  assumes "print_string s @ x = print_string t @ y" and "valid_utf8 s" and "valid_utf8 t"
  shows "s = t \<and> x = y"
proof -
  have "runes s = runes t \<and> x = y"
    using assms by (intro escape_runes_inject) (simp_all add: print_string_def valid_utf8_runes)
  then show ?thesis by (metis concat_runes)
qed

section \<open>Values\<close>

text \<open>What may follow a value inside a text: nothing, a comma or a closing bracket.\<close>

definition delim :: "string \<Rightarrow> bool" where
  "delim x \<longleftrightarrow> x = [] \<or> hd x \<in> set '',]}'' \<or> hd x = CHR 0x0A"

lemma delim_Nil [simp]: "delim []"
  by (simp add: delim_def)

lemma delim_Cons [simp]: "delim (c # x) \<longleftrightarrow> c \<in> set '',]}'' \<or> c = CHR 0x0A"
  by (simp add: delim_def)

lemma takeWhile_num_chars:
  assumes "set s \<subseteq> set num_chars" and "delim x"
  shows "takeWhile (\<lambda>c. c \<in> set num_chars) (s @ x) = s"
proof -
  have "takeWhile (\<lambda>c. c \<in> set num_chars) x = []"
    using assms(2) by (cases x) (auto simp: num_chars_def)
  then show ?thesis using assms(1) by (subst takeWhile_append2) auto
qed

lemma num_literal_inject:
  assumes "s @ x = t @ y" and "num_literal s" "num_literal t" and "delim x" "delim y"
  shows "s = t \<and> x = y"
proof -
  have "s = t"
    using assms takeWhile_num_chars [of s x] takeWhile_num_chars [of t y]
    by (simp add: num_literal_def)
  with assms(1) show ?thesis by simp
qed

lemma join_Cons: "join sep (x # xs) = x @ concat (map ((@) sep) xs)"
  by (induction xs arbitrary: x) simp_all

lemma tail_inject:
  assumes "concat (map (\<lambda>v. CHR '','' # p v) vs) @ c # x
      = concat (map (\<lambda>v. CHR '','' # p v) ws) @ c # y"
    and "\<And>v w x y. v \<in> set vs \<Longrightarrow> w \<in> set ws \<Longrightarrow> p v @ x = p w @ y \<Longrightarrow> delim x \<Longrightarrow> delim y
      \<Longrightarrow> v = w \<and> x = y"
    and "c \<in> set '']}''"
  shows "vs = ws \<and> x = y"
  using assms(1,2)
proof (induction vs arbitrary: ws)
  case Nil
  then show ?case using assms(3) by (cases ws) auto
next
  case (Cons v vs)
  show ?case
  proof (cases ws)
    case Nil
    with Cons.prems(1) assms(3) show ?thesis by auto
  next
    case (Cons w t)
    let ?r = "\<lambda>us z. concat (map (\<lambda>v. CHR '','' # p v) us) @ c # z"
    have d: "delim (?r us z)" for us z
      using assms(3) by (cases us) auto
    have "p v @ ?r vs x = p w @ ?r t y"
      using Cons.prems(1) Cons by simp
    then have "v = w \<and> ?r vs x = ?r t y"
      using Cons by (intro Cons.prems(2)) (simp_all only: d list.set_intros)
    moreover have "v' = w' \<and> x' = y'" if "v' \<in> set vs" "w' \<in> set t" "p v' @ x' = p w' @ y'"
      "delim x'" "delim y'" for v' w' x' y'
      by (rule Cons.prems(2)) (use that Cons in auto)
    ultimately have "vs = t \<and> x = y" by (intro Cons.IH) auto
    with \<open>v = w \<and> ?r vs x = ?r t y\<close> show ?thesis using Cons by simp
  qed
qed

lemma join_inject:
  assumes "join '','' (map p vs) @ c # x = join '','' (map p ws) @ c # y"
    and elem: "\<And>v w x y. v \<in> set vs \<Longrightarrow> w \<in> set ws \<Longrightarrow> p v @ x = p w @ y \<Longrightarrow> delim x \<Longrightarrow> delim y
      \<Longrightarrow> v = w \<and> x = y"
    and head: "\<And>v. v \<in> set vs \<union> set ws \<Longrightarrow> \<exists>a t. p v = a # t \<and> a \<notin> set '',]}''"
    and c: "c \<in> set '']}''"
  shows "vs = ws \<and> x = y"
proof -
  have comma: "CHR '','' # join '','' (map p us) = concat (map (\<lambda>v. CHR '','' # p v) us)"
    if "us \<noteq> []" for us :: "'a list"
    using that by (cases us) (simp_all add: join_Cons comp_def)
  have start: "\<exists>a t. join '','' (map p us) = a # t \<and> a \<notin> set '',]}''"
    if "us \<noteq> []" "set us \<subseteq> set vs \<union> set ws" for us
    using that head [of "hd us"] by (cases us) (auto simp: join_Cons)
  consider "vs = []" "ws = []" | "vs = []" "ws \<noteq> []" | "vs \<noteq> []" "ws = []" | "vs \<noteq> []" "ws \<noteq> []"
    by blast
  then show ?thesis
  proof cases
    case 1
    with assms(1) show ?thesis by simp
  next
    case 2
    with start [of ws] assms(1) c show ?thesis by auto
  next
    case 3
    with start [of vs] assms(1) c show ?thesis by auto
  next
    case 4
    have "concat (map (\<lambda>v. CHR '','' # p v) vs) @ c # x
        = concat (map (\<lambda>v. CHR '','' # p v) ws) @ c # y"
      using assms(1) comma [OF 4(1)] comma [OF 4(2)] by (metis append_Cons)
    then show ?thesis by (rule tail_inject) (use elem c in blast)+
  qed
qed

lemma num_literal_head: "num_literal s \<Longrightarrow> \<exists>a t. s = a # t \<and> (is_digit a \<or> a = CHR ''-'')"
  by (cases s) (auto simp: num_literal_def)

lemma is_digit_punctuation [simp]:
  "\<not> is_digit CHR '',''" "\<not> is_digit CHR '']''" "\<not> is_digit CHR ''}''" "\<not> is_digit CHR 0x22"
  "\<not> is_digit CHR ''[''" "\<not> is_digit CHR ''{''" "\<not> is_digit CHR ''n''" "\<not> is_digit CHR ''t''"
  "\<not> is_digit CHR ''f''"
  by (simp_all add: is_digit_def byte_def)

lemma print_json_head:
  assumes "json_ok v"
  shows "\<exists>a t. print_json v = a # t \<and> a \<notin> set '',]}''"
proof (cases v)
  case (JNum s)
  with assms num_literal_head [of s] show ?thesis by auto
qed (auto simp: print_string_def)

theorem print_json_inject:
  assumes "print_json v @ x = print_json w @ y" and "json_ok v" "json_ok w" and "delim x" "delim y"
  shows "v = w \<and> x = y"
  using assms
proof (induction v arbitrary: w x y)
  case JNull
  then show ?case by (cases w) (auto simp: print_string_def split: if_splits dest: num_literal_head)
next
  case (JBool b)
  then show ?case by (cases w) (auto simp: print_string_def split: if_splits dest: num_literal_head)
next
  case (JNum s)
  then obtain t where "w = JNum t"
    using num_literal_head [of s] by (cases w) (auto simp: print_string_def split: if_splits)
  with JNum show ?case using num_literal_inject [of s x t y] by simp
next
  case (JStr s)
  then obtain t where "w = JStr t"
    by (cases w) (auto simp: print_string_def split: if_splits dest: num_literal_head)
  with JStr show ?case using print_string_inject [of s x t y] by simp
next
  case (JArr vs)
  then obtain ws where w: "w = JArr ws"
    by (cases w) (auto simp: print_string_def split: if_splits dest: num_literal_head)
  have "vs = ws \<and> x = y"
  proof (rule join_inject [where p = print_json and c = "CHR '']''"])
    show "join '','' (map print_json vs) @ CHR '']'' # x = join '','' (map print_json ws) @ CHR '']'' # y"
      using JArr.prems(1) w by simp
  qed (use JArr w print_json_head in auto)
  with w show ?case by simp
next
  case (JObj kvs)
  then obtain ws where w: "w = JObj ws"
    by (cases w) (auto simp: print_string_def split: if_splits dest: num_literal_head)
  let ?p = "\<lambda>(k, v). print_string k @ '':'' @ print_json v"
  have "kvs = ws \<and> x = y"
  proof (rule join_inject [where p = ?p and c = "CHR ''}''"])
    show "join '','' (map ?p kvs) @ CHR ''}'' # x = join '','' (map ?p ws) @ CHR ''}'' # y"
      using JObj.prems(1) w by simp
  next
    fix a b x' y'
    assume m: "a \<in> set kvs" "b \<in> set ws" and e: "?p a @ x' = ?p b @ y'" and d: "delim x'" "delim y'"
    obtain k v where a: "a = (k, v)" by (cases a)
    obtain l u where b: "b = (l, u)" by (cases b)
    have ok: "valid_utf8 k" "json_ok v" "valid_utf8 l" "json_ok u"
      using m a b JObj.prems w by auto
    with e a b have "k = l" "print_json v @ x' = print_json u @ y'"
      using print_string_inject [of k _ l] by fastforce+
    moreover have "v = u \<and> x' = y'"
      using JObj.IH [OF m(1), of v x' u y'] a calculation(2) ok d by (simp add: snds.simps)
    ultimately show "a = b \<and> x' = y'" using a b by simp
  qed (auto simp: print_string_def)
  with w show ?case by simp
qed

section \<open>Hexadecimal digests\<close>

lemma hex_byte_inject: "hex_byte a = hex_byte b \<longleftrightarrow> a = b"
proof
  assume "hex_byte a = hex_byte b"
  then have "hex_digit (byte a div 16) = hex_digit (byte b div 16)"
    "hex_digit (byte a mod 16) = hex_digit (byte b mod 16)"
    by (simp_all only: hex_byte_def list.inject)
  then have "byte a = byte b" using hex_value_byte [of a] hex_value_byte [of b] by metis
  then show "a = b" by (metis char_of_byte)
qed simp

lemma hex_encode_inject: "hex_encode s = hex_encode t \<longleftrightarrow> s = t"
proof
  show "hex_encode s = hex_encode t \<Longrightarrow> s = t"
  proof (induction s arbitrary: t)
    case Nil
    then show ?case by (cases t) (auto simp: hex_encode_def hex_byte_def)
  next
    case (Cons a s)
    then obtain b u where t: "t = b # u" by (cases t) (auto simp: hex_encode_def hex_byte_def)
    have "hex_byte a @ hex_encode s = hex_byte b @ hex_encode u"
      using Cons.prems t by (simp add: hex_encode_def)
    then have "hex_byte a = hex_byte b \<and> hex_encode s = hex_encode u"
      by (simp add: hex_byte_def)
    with Cons.IH t hex_byte_inject show ?case by simp
  qed
qed simp

lemma hex_encode_eq_Nil [simp]: "hex_encode s = [] \<longleftrightarrow> s = []"
  by (cases s) (auto simp: hex_encode_def hex_byte_def)

end
