(* ===== verification/Server.thy ===== *)
theory Server
  imports Audit_Log Json_Inject
begin

text \<open>
  What the handlers of \<open>internal/server\<close> share: the server's configuration, the values one request
  draws from the clock and from \<open>crypto/rand\<close>, an envelope as it is stored (\<open>load\<close>, \<open>save\<close>), and
  the responses.  A handler maps the database to an error or to a response with its status and the
  new database.
\<close>

section \<open>Configuration and draws\<close>

text \<open>
  \<open>srv_lower\<close> is \<open>unicode.ToLower\<close> on one encoded rune outside ASCII, a table of the Unicode standard;
  \<open>srv_db_lower\<close> is PostgreSQL's \<open>lower\<close> under the database's collation.
\<close>

record 'ctx server =
  srv_crypto :: crypto
  srv_cel :: "'ctx cel"
  srv_key :: string
  srv_pub :: string
  srv_token_hash :: string
  srv_demo :: bool
  srv_lower :: "string \<Rightarrow> string"
  srv_db_lower :: "string \<Rightarrow> string"

text \<open>
  \<open>d_now\<close> is the handler's \<open>time.Now\<close>, \<open>d_audit\<close> the one of \<open>appendAudit\<close>, and \<open>d_txnow\<close> the
  \<open>now()\<close> of the transaction; the others are the random bytes behind the ids a handler makes.
\<close>

record draws =
  d_now :: gtime
  d_audit :: int
  d_txnow :: int
  d_env :: string
  d_run :: string
  d_handoff :: string
  d_event :: string
  d_action :: string
  d_approval :: string
  d_operator :: string
  d_session :: string
  d_salt :: string
  d_trace :: "string \<times> string"

section \<open>Stored envelopes\<close>

record stored =
  st_env :: envelope
  st_run :: string
  st_revoked :: "int option"
  st_parent :: "string option"

definition load :: "db \<Rightarrow> string \<Rightarrow> api_error + stored" where
  "load d i =
     (case find_envelope d i of
        None \<Rightarrow> Inl NoRows
      | Some r \<Rightarrow>
          (case er_doc r of
             None \<Rightarrow> Inl (Internal ''cannot decode document'')
           | Some v \<Rightarrow>
               if env_id v \<noteq> i then Inl (Internal ''stored envelope id mismatch'')
               else Inr \<lparr>st_env = v, st_run = er_run r, st_revoked = er_revoked r, st_parent = er_parent r\<rparr>))"

definition insert_party :: "party \<Rightarrow> db \<Rightarrow> db" where
  "insert_party p d = insert_agent (agent p) (party_version p) d"

definition save :: "string \<Rightarrow> envelope \<Rightarrow> int \<Rightarrow> db \<Rightarrow> api_error + db" where
  "save run v t d =
     insert_envelope
       \<lparr>er_id = env_id v, er_run = run,
        er_parent = (if parent_envelope v \<noteq> [] then Some (parent_envelope v) else None),
        er_doc = Some v, er_revoked = None, er_created = t\<rparr>
       (insert_party (recipient v) (insert_party (issuer v) d))"

section \<open>Responses\<close>

record operator =
  o_id :: string
  o_username :: string
  o_display :: string
  o_role :: string

record approval_view =
  av_id :: string
  av_envelope :: string
  av_action :: string
  av_resource :: string
  av_hash :: string
  av_by :: string
  av_role :: string
  av_expires :: gtime
  av_operator :: "(operator \<times> int) option"

record summary =
  su_id :: string
  su_created :: int
  su_purpose :: string
  su_agent :: string
  su_version :: string
  su_envelopes :: nat
  su_handoffs :: nat
  su_blocked :: nat

record overview_stats =
  ov_runs :: nat
  ov_handoffs :: nat
  ov_blocked_handoffs :: nat
  ov_blocked_actions :: nat
  ov_versions :: nat

datatype response =
    RStored stored
  | RResult result
  | RHandoff string result "envelope option"
  | RRevoked string
  | RDiff result
  | RApproval approval_view
  | RAction string result "string list"
  | RChain string "stored list" "handoff_row list" "action_row list"
  | RViolations "violation list"
  | RAudit report
  | RApprovals "(approval_row \<times> string) list"
  | ROverview overview_stats "summary list" nat int
  | ROperator operator
  | RLogin string operator int
  | RError string
  | RStatus string

type_synonym outcome = "api_error + (response \<times> nat) \<times> db"

section \<open>The policy result in JSON\<close>

definition encode_violation :: "violation \<Rightarrow> json" where
  "encode_violation v =
     JObj [(''code'', JStr (v_code v)), (''field'', JStr (v_field v)), (''message'', JStr (v_message v))]"

definition encode_result :: "result \<Rightarrow> json" where
  "encode_result r =
     JObj [(''decision'', JStr (decision r)), (''violations'', JArr (map encode_violation (violations r)))]"

section \<open>Recording violations\<close>

definition record_violations :: "string \<Rightarrow> string \<Rightarrow> result \<Rightarrow> db \<Rightarrow> api_error + db" where
  "record_violations run i res d =
     fold_result (\<lambda>v. insert_violation \<lparr>vr_run = run, vr_envelope = i, vr_violation = v\<rparr>) (violations res) d"

section \<open>Lemmas\<close>

lemma new_id_inject [simp]: "new_id pre r = new_id pre r' \<longleftrightarrow> r = r'"
proof -
  have "new_id pre r = pre @ hex_encode r" for r
    by (simp add: new_id_def new_env_id_def trim_prefix_def)
  then show ?thesis by (simp add: hex_encode_inject)
qed

lemma load_Inr:
  "load d i = Inr v \<longleftrightarrow>
     (\<exists>r. find_envelope d i = Some r \<and> er_doc r = Some (st_env v) \<and> env_id (st_env v) = i
        \<and> st_run v = er_run r \<and> st_revoked v = er_revoked r \<and> st_parent v = er_parent r)"
  by (cases v) (auto simp: load_def split: option.splits)

lemma load_id: "load d i = Inr v \<Longrightarrow> env_id (st_env v) = i"
  by (auto simp: load_Inr)

lemma insert_party_tables [simp]:
  "t_envelopes (insert_party p d) = t_envelopes d" "t_runs (insert_party p d) = t_runs d"
  "t_audit (insert_party p d) = t_audit d" "t_approvals (insert_party p d) = t_approvals d"
  "t_handoffs (insert_party p d) = t_handoffs d" "t_actions (insert_party p d) = t_actions d"
  "t_violations (insert_party p d) = t_violations d" "t_operators (insert_party p d) = t_operators d"
  "t_sessions (insert_party p d) = t_sessions d" "t_limits (insert_party p d) = t_limits d"
  "t_metadata (insert_party p d) = t_metadata d"
  by (simp_all add: insert_party_def insert_agent_def)

lemma record_violations_Inr [inserted]:
  assumes "record_violations run i res d = Inr d'"
  shows "\<exists>vs. d' = d\<lparr>t_violations := t_violations d @ vs\<rparr>"
  using assms unfolding record_violations_def
proof (rule fold_result_invariant)
  show "\<exists>vs. d = d\<lparr>t_violations := t_violations d @ vs\<rparr>" by (rule exI [of _ "[]"]) simp
next
  fix x u u'
  assume "\<exists>vs. u = d\<lparr>t_violations := t_violations d @ vs\<rparr>"
    and "insert_violation \<lparr>vr_run = run, vr_envelope = i, vr_violation = x\<rparr> u = Inr u'"
  then show "\<exists>vs. u' = d\<lparr>t_violations := t_violations d @ vs\<rparr>"
    by (auto dest!: insert_violation_Inr)
qed

lemma append_audit_Inr [inserted]:
  "append_audit c rand now run kind payload d = Inr d' \<Longrightarrow>
     d' = d\<lparr>t_audit := t_audit d @ [audit_event c rand now run kind payload d]\<rparr> \<and> has_run d run"
  by (auto simp: append_audit_def audit_event_def Let_def dest: inserted)

lemma consume_other_tables [simp]:
  "t_envelopes (fold (consume_approval t) ids d) = t_envelopes d"
  "t_runs (fold (consume_approval t) ids d) = t_runs d"
  "t_audit (fold (consume_approval t) ids d) = t_audit d"
  "t_operators (fold (consume_approval t) ids d) = t_operators d"
  by (induction ids arbitrary: d) (simp_all add: consume_approval_def)

lemma consumed_rows:
  "t_approvals (fold (consume_approval t) ids d) =
     map (\<lambda>r. if pr_id r \<in> set ids then r\<lparr>pr_consumed := Some t\<rparr> else r) (t_approvals d)"
  by (induction ids arbitrary: d) (auto simp: consume_approval_def intro!: map_cong)

end
