(* ===== verification/Samples.thy ===== *)
theory Samples
  imports Policy
begin

text \<open>
  Concrete data for the witnesses: the two policies of \<open>examples/policy-parent.json\<close> and
  \<open>examples/policy-child-allow.json\<close>, and a CEL interpreter that knows the two conditions in
  them.  Its evaluation context is the amount of a refund, if there is one.
\<close>

definition amount_gt :: "int \<Rightarrow> ast" where
  "amount_gt n =
     \<lparr>ast_expr = Call None ''_>_'' [Select (Ident ''refund'') ''amount'' False, ConstExpr (Int64Value n)],
      output_type = ''bool''\<rparr>"

definition sample_num :: "string \<Rightarrow> int option \<Rightarrow> rat option" where
  "sample_num f ctx = (if f = ''refund.amount'' then map_option of_int ctx else None)"

definition sample_eval :: "ast \<Rightarrow> int option \<Rightarrow> string + cel_value" where
  "sample_eval a ctx =
     (case threshold (ast_expr a) of
        None \<Rightarrow> Inl ''no such overload''
      | Some (f, op, n) \<Rightarrow>
          (case sample_num f ctx of
             None \<Rightarrow> Inl ''no such key''
           | Some x \<Rightarrow> Inr (CelBool (compares op x n))))"

definition sample_cel :: "int option cel" where
  "sample_cel =
     \<lparr>cel_compile = (\<lambda>s. if s = ''refund.amount > 500'' then Inr (amount_gt 500)
        else if s = ''refund.amount > 300'' then Inr (amount_gt 300) else Inl ''syntax error''),
      cel_unparse = (\<lambda>a. if a = amount_gt 500 then Some ''refund.amount > 500''
        else if a = amount_gt 300 then Some ''refund.amount > 300'' else None),
      cel_program = (\<lambda>a. Inr ()),
      cel_eval = sample_eval\<rparr>"

definition sample_now :: gtime where
  "sample_now = utc 63902822400000000000"

definition sample_parent :: envelope where
  "sample_parent =
     \<lparr>env_id = ''env_parent'', env_version = ''1'',
      issuer = \<lparr>agent = ''support-agent'', party_version = ''2.3''\<rparr>,
      recipient = \<lparr>agent = ''billing-agent'', party_version = []\<rparr>,
      purpose = ''customer_support_refund'',
      resources = Some [(''orders'', Some [''*'']), (''customers'', Some [''cus_8291''])],
      allowed_actions = Some [''orders.read'', ''refunds.create''],
      denied_actions = Some [''customers.delete'', ''customers.update_identity'', ''payments.export''],
      data_classes = Some [''customer_pii'', ''payment_metadata''],
      approvals = Some [\<lparr>condition = ''refund.amount > 500'', required_role = ''refund_manager''\<rparr>],
      env_delegation = \<lparr>max_depth = 2, current_depth = 0, may_expand_authority = False\<rparr>,
      expires_at = utc 66206505600000000000, policy_version = ''refund-policy-v8'',
      parent_envelope = [], signature = []\<rparr>"

definition sample_child :: envelope where
  "sample_child =
     \<lparr>env_id = ''env_child'', env_version = ''1'',
      issuer = \<lparr>agent = ''billing-agent'', party_version = []\<rparr>,
      recipient = \<lparr>agent = ''notification-agent'', party_version = []\<rparr>,
      purpose = ''customer_support_refund'',
      resources = Some [(''orders'', Some [''48319'']), (''customers'', Some [''cus_8291''])],
      allowed_actions = Some [''orders.read''],
      denied_actions = Some [''customers.delete'', ''customers.update_identity'', ''payments.export''],
      data_classes = Some [''customer_pii'', ''payment_metadata''],
      approvals = Some [\<lparr>condition = ''refund.amount > 300'', required_role = ''refund_manager''\<rparr>],
      env_delegation = \<lparr>max_depth = 2, current_depth = 1, may_expand_authority = False\<rparr>,
      expires_at = utc 66174969600000000000, policy_version = ''refund-policy-v8'',
      parent_envelope = ''env_parent'', signature = []\<rparr>"

lemma amount_gt_threshold [simp]:
  "threshold (ast_expr (amount_gt n)) = Some (''refund.amount'', ''_>_'', n)"
  by (simp add: amount_gt_def)

lemma amount_gt_inject [simp]: "amount_gt m = amount_gt n \<longleftrightarrow> m = n"
  by (simp add: amount_gt_def)

lemma sample_unparse:
  "cel_unparse sample_cel (amount_gt 500) = Some ''refund.amount > 500''"
  "cel_unparse sample_cel (amount_gt 300) = Some ''refund.amount > 300''"
  by (simp_all add: sample_cel_def)

lemma sample_unparse_Some:
  "cel_unparse sample_cel a = Some s \<Longrightarrow>
     a = amount_gt 500 \<and> s = ''refund.amount > 500'' \<or> a = amount_gt 300 \<and> s = ''refund.amount > 300''"
  by (auto simp: sample_cel_def split: if_splits)

lemma sample_laws: "cel_laws sample_cel sample_num"
  unfolding cel_laws_def
proof (intro conjI allI impI)
  fix a b :: ast and s
  assume "cel_unparse sample_cel a = Some s" "cel_unparse sample_cel b = Some s"
  then show "cel_eval sample_cel a = cel_eval sample_cel b"
    by (auto dest!: sample_unparse_Some)
next
  fix a :: ast and f op n ctx
  assume "threshold (ast_expr a) = Some (f, op, n)"
  then show "holds sample_cel a ctx = (\<exists>x. sample_num f ctx = Some x \<and> compares op x n)"
    by (auto simp: holds_def sample_cel_def sample_eval_def split: option.splits)
qed (auto dest: sample_unparse_Some)

lemma sample_allowed: "decision (diff sample_cel sample_parent sample_child sample_now) = ALLOW"
  by code_simp

section \<open>Stand-ins for the cryptographic primitives\<close>

definition sample_crypto :: crypto where
  "sample_crypto =
     \<lparr>ed_sign = (\<lambda>k m. ''sig''), ed_verify = (\<lambda>p m s. s = ''sig''), sha256 = (\<lambda>m. take 4 m @ ''h''),
      argon2id = (\<lambda>p s. take 32 (p @ replicate 32 (CHR ''.'')))\<rparr>"

definition sample_key :: string where "sample_key = replicate 64 (CHR ''k'')"
definition sample_pub :: string where "sample_pub = replicate 32 (CHR ''p'')"

lemma sample_key_pair: "key_pair sample_crypto sample_key sample_pub"
  by (simp add: key_pair_def sample_crypto_def sample_key_def sample_pub_def)

end
