(* ===== verification/Delegation.thy ===== *)
theory Delegation
  imports Samples
begin

text \<open>
  What a policy permits, and the proof that the engine's ALLOW means narrowing.  \<open>permits\<close> is the
  abstract specification: the actions, resources and data classes an envelope grants.  The
  interface \<open>scope_cover\<close> states what resource patterns promise, \<open>narrowing\<close> what one delegation
  step promises; the engine's \<open>covers\<close> and \<open>allows\<close> interpret them.
\<close>

declare concat_eq_Nil_conv [simp del]

section \<open>What the engine checks, in words\<close>

definition identifiers_ok :: "string slice \<Rightarrow> bool" where
  "identifiers_ok s \<longleftrightarrow> (\<forall>x \<in> set (elems s). exact_identifier x)"

definition policy_ok :: "'ctx cel \<Rightarrow> envelope \<Rightarrow> gtime \<Rightarrow> bool" where
  "policy_ok c v now \<longleftrightarrow>
     after (expires_at v) now \<and> \<not> is_zero (expires_at v) \<and> env_version v = ''1''
     \<and> \<not> blank (env_id v) \<and> \<not> blank (agent (issuer v)) \<and> \<not> blank (agent (recipient v))
     \<and> \<not> blank (purpose v) \<and> \<not> blank (policy_version v)
     \<and> depth_valid (env_delegation v) \<and> \<not> may_expand_authority (env_delegation v)
     \<and> identifiers_ok (allowed_actions v) \<and> identifiers_ok (denied_actions v)
     \<and> identifiers_ok (data_classes v)
     \<and> (\<forall>(k, s) \<in> set (elems (resources v)). valid_category k \<and> (\<forall>x \<in> set (elems s). valid_scope x))
     \<and> (\<forall>a \<in> set (elems (approvals v)). \<not> blank (required_role a) \<and> (\<exists>t. compile c (condition a) = Inr t))"

definition approvals_inherited :: "'ctx cel \<Rightarrow> envelope \<Rightarrow> envelope \<Rightarrow> bool" where
  "approvals_inherited c p ch \<longleftrightarrow>
     (\<forall>r \<in> set (elems (approvals p)). \<exists>a \<in> set (elems (approvals ch)). inherits c r a)"

definition authority_narrows :: "'ctx cel \<Rightarrow> envelope \<Rightarrow> envelope \<Rightarrow> bool" where
  "authority_narrows c p ch \<longleftrightarrow>
     set (elems (allowed_actions ch)) \<subseteq> set (elems (allowed_actions p))
     \<and> set (elems (denied_actions p)) \<subseteq> set (elems (denied_actions ch))
     \<and> set (elems (data_classes ch)) \<subseteq> set (elems (data_classes p))
     \<and> (\<forall>(k, s) \<in> set (elems (resources ch)). \<forall>x \<in> set (elems s).
          \<exists>a \<in> set (elems (map_get (resources p) k)). covers a x)
     \<and> approvals_inherited c p ch"

definition lineage_ok :: "envelope \<Rightarrow> envelope \<Rightarrow> bool" where
  "lineage_ok p ch \<longleftrightarrow>
     parent_envelope ch = env_id p \<and> env_id ch \<noteq> env_id p \<and> issuer ch = recipient p
     \<and> purpose ch = purpose p \<and> policy_version ch = policy_version p
     \<and> \<not> after (expires_at ch) (expires_at p)
     \<and> sint (max_depth (env_delegation ch)) \<le> sint (max_depth (env_delegation p))
     \<and> depth_steps (current_depth (env_delegation ch)) (current_depth (env_delegation p))"

lemma finish_decision [simp]:
  "decision (finish vs) = ALLOW \<longleftrightarrow> vs = []" "decision (finish vs) = DENY \<longleftrightarrow> vs \<noteq> []"
  by (simp_all add: finish_def)

lemma finish_violations [simp]: "violations (finish vs) = sort vs"
  by (simp add: finish_def)

lemma check_new_Nil [simp]: "check_new code fld msg xs ys = [] \<longleftrightarrow> set xs \<subseteq> set ys"
  unfolding check_new_def concat_map_eq_Nil by auto

lemma check_identifiers_Nil [simp]:
  "check_identifiers v side = [] \<longleftrightarrow>
     identifiers_ok (allowed_actions v) \<and> identifiers_ok (denied_actions v) \<and> identifiers_ok (data_classes v)"
  unfolding check_identifiers_def concat_map_eq_Nil by (simp add: identifiers_ok_def concat_map_eq_Nil)

lemma check_blank_Nil [simp]:
  "check_blank v side = [] \<longleftrightarrow>
     \<not> blank (env_id v) \<and> \<not> blank (agent (issuer v)) \<and> \<not> blank (agent (recipient v))
     \<and> \<not> blank (purpose v) \<and> \<not> blank (policy_version v)"
  unfolding check_blank_def concat_map_eq_Nil by simp

lemma check_resources_Nil [simp]:
  "check_resources v side = [] \<longleftrightarrow>
     (\<forall>(k, s) \<in> set (elems (resources v)). valid_category k \<and> (\<forall>x \<in> set (elems s). valid_scope x))"
  unfolding check_resources_def concat_map_eq_Nil
  by (simp add: concat_map_eq_Nil split_beta)

lemma check_approval_Nil [simp]:
  "check_approval c side a = [] \<longleftrightarrow>
     \<not> blank (required_role a) \<and> (\<exists>t. compile c (condition a) = Inr t)"
  unfolding check_approval_def by (cases "compile c (condition a)") simp_all

lemma check_scopes_Nil [simp]:
  "check_scopes p ch = [] \<longleftrightarrow>
     (\<forall>(k, s) \<in> set (elems ch). \<forall>x \<in> set (elems s). \<exists>a \<in> set (elems (map_get p k)). covers a x)"
  unfolding check_scopes_def concat_map_eq_Nil by (simp add: concat_map_eq_Nil split_beta)

lemma check_approvals_Nil [simp]:
  "check_approvals c ps cs = [] \<longleftrightarrow> (\<forall>r \<in> set ps. \<exists>a \<in> set cs. inherits c r a)"
  unfolding check_approvals_def concat_map_eq_Nil by simp

lemma engine_validate_Nil: "engine_validate c v side now = [] \<longleftrightarrow> policy_ok c v now"
proof -
  have nb: "\<not> blank s \<Longrightarrow> s \<noteq> []" for s by auto
  show ?thesis
    unfolding engine_validate_def policy_ok_def append_is_Nil_conv concat_map_eq_Nil
      if_singleton_eq_Nil check_blank_Nil check_identifiers_Nil check_resources_Nil check_approval_Nil
    using nb validate_structure_None [of v] validate_expiration_None [of v now]
    by (cases "validate_structure v"; cases "validate_expiration v now") auto
qed

lemma diff_checks_Nil: "diff_checks c p ch = [] \<longleftrightarrow> lineage_ok p ch \<and> authority_narrows c p ch"
  unfolding diff_checks_def append_is_Nil_conv if_singleton_eq_Nil check_new_Nil check_scopes_Nil
    check_approvals_Nil lineage_ok_def authority_narrows_def approvals_inherited_def
  by (simp add: not_less)

definition allows :: "'ctx cel \<Rightarrow> gtime \<Rightarrow> envelope \<Rightarrow> envelope \<Rightarrow> bool" where
  "allows c now p ch \<longleftrightarrow> decision (diff c p ch now) = ALLOW"

lemma allows_iff:
  "allows c now p ch \<longleftrightarrow>
     policy_ok c p now \<and> policy_ok c ch now \<and> lineage_ok p ch \<and> authority_narrows c p ch"
  by (auto simp: allows_def diff_def Let_def engine_validate_Nil diff_checks_Nil)

lemma Validate_ALLOW: "decision (Validate c v now) = ALLOW \<longleftrightarrow> policy_ok c v now"
  by (simp add: Validate_def engine_validate_Nil)

section \<open>What a policy permits\<close>

text \<open>
  A scope admits the resources it names: every one of the category for \<open>*\<close>, those below a prefix
  for a terminal \<open>/*\<close>, and otherwise exactly itself.
\<close>

definition scope_admits :: "string \<Rightarrow> string \<Rightarrow> bool" where
  "scope_admits scope i \<longleftrightarrow>
     scope = ''*'' \<or> scope = i \<or> (suffix ''/*'' scope \<and> prefix (trim_suffix scope ''*'') i)"

datatype demand = DoAction string | OnResource string string | ReadData string

fun permits :: "envelope \<Rightarrow> demand \<Rightarrow> bool" where
  "permits e (DoAction t) \<longleftrightarrow>
     t \<in> set (elems (allowed_actions e)) \<and> t \<notin> set (elems (denied_actions e))"
| "permits e (OnResource k i) \<longleftrightarrow>
     (\<exists>s \<in> set (elems (map_get (resources e) k)). scope_admits s i)"
| "permits e (ReadData d) \<longleftrightarrow> d \<in> set (elems (data_classes e))"

subsection \<open>The interface of resource scopes\<close>

locale scope_cover =
  fixes cover :: "'s \<Rightarrow> 's \<Rightarrow> bool"
    and admits :: "'s \<Rightarrow> 'i \<Rightarrow> bool"
  assumes cover_refl: "cover s s"
    and cover_admits: "cover p s \<Longrightarrow> admits s i \<Longrightarrow> admits p i"
begin

lemma covered_set:
  assumes "\<forall>s \<in> S. \<exists>p \<in> P. cover p s" and "\<exists>s \<in> S. admits s i"
  shows "\<exists>p \<in> P. admits p i"
  using assms cover_admits by blast

lemma subset_covered: "S \<subseteq> P \<Longrightarrow> \<forall>s \<in> S. \<exists>p \<in> P. cover p s"
  using cover_refl by blast

end

lemma suffix_star: "suffix ''/*'' s \<longleftrightarrow> (\<exists>t. s = t @ ''/*'')"
  by (auto simp: suffix_def)

lemma trim_star [simp]: "trim_suffix (t @ ''/*'') ''*'' = t @ ''/''"
  by (simp add: trim_suffix_def suffix_def)

lemma covers_admits:
  assumes "covers p s" and "scope_admits s i"
  shows "scope_admits p i"
proof (cases "p = ''*'' \<or> p = s")
  case True
  with assms(2) show ?thesis by (auto simp: scope_admits_def)
next
  case False
  with assms(1) obtain t u where p: "p = t @ ''/*''" and s: "s = t @ ''/'' @ u"
    by (auto simp: covers_def suffix_star prefix_def split: if_splits)
  have "prefix (t @ ''/'') i"
  proof -
    consider "s = ''*''" | "s = i" | v where "s = v @ ''/*''" "prefix (v @ ''/'') i"
      using assms(2) by (auto simp: scope_admits_def suffix_star)
    then show ?thesis
    proof cases
      case 1
      with s show ?thesis by (cases t) simp_all
    next
      case 2
      with s show ?thesis by (auto simp: prefix_def)
    next
      case (3 v)
      then have "t @ ''/'' @ u = v @ ''/*''" using s by simp
      then have "prefix (t @ ''/'') (v @ ''/'')"
        by (cases u rule: rev_cases) (auto simp: append_eq_append_conv2 append_eq_Cons_conv Cons_eq_append_conv)
      with 3(2) show ?thesis by (meson prefix_order.trans)
    qed
  qed
  with p show ?thesis by (simp add: scope_admits_def suffix_star)
qed

interpretation scopes: scope_cover covers scope_admits
  by unfold_locales (auto simp: covers_def intro: covers_admits)

subsection \<open>The interface of one delegation step\<close>

locale narrowing =
  fixes may :: "'p \<Rightarrow> 'd \<Rightarrow> bool"
    and step :: "'p \<Rightarrow> 'p \<Rightarrow> bool"
  assumes step_narrows: "step p q \<Longrightarrow> may q d \<Longrightarrow> may p d"
begin

text \<open>Along a chain of steps the last policy permits nothing that the first does not.\<close>

lemma chain_narrows:
  assumes "successively step (p # ps)" and "q \<in> set ps" and "may q d"
  shows "may p d"
  using assms
proof (induction ps arbitrary: p)
  case Nil
  then show ?case by simp
next
  case (Cons r ps)
  have "may r d"
  proof (cases "q = r")
    case False
    with Cons show ?thesis by simp
  qed (use Cons.prems in simp)
  then show ?case using Cons.prems(1) by (auto intro: step_narrows)
qed

end

lemma allows_permits:
  assumes "allows c now p ch" and "permits ch d"
  shows "permits p d"
proof (cases d)
  case (OnResource k i)
  have cov: "\<forall>x \<in> set (elems (map_get (resources ch) k)).
      \<exists>a \<in> set (elems (map_get (resources p) k)). covers a x"
    using assms(1) by (fastforce simp: allows_iff authority_narrows_def dest: map_get_elem)
  from assms(2) OnResource show ?thesis by (simp add: scopes.covered_set [OF cov])
qed (use assms in \<open>auto simp: allows_iff authority_narrows_def\<close>)

interpretation engine: narrowing permits "allows c now" for c now
  by unfold_locales (rule allows_permits)

section \<open>Depth\<close>

lemma sint_nonzero: "x \<noteq> 0 \<Longrightarrow> sint (x :: goint) \<noteq> 0"
  by (metis signed_eq_0_iff)

lemma sint_sub_1:
  fixes x :: goint
  assumes "x \<noteq> 0" and "0 \<le> sint x"
  shows "sint (x - 1) = sint x - 1"
proof -
  have "0 < sint x" using assms sint_nonzero [of x] by simp
  moreover have "sint x < 2 ^ 63" using sint_lt [of x] by simp
  ultimately have "signed_take_bit 63 (sint x - 1) = sint x - 1"
    by (intro signed_take_bit_int_eq_self) simp_all
  then show ?thesis by (simp add: sint_word_ariths)
qed

text \<open>The subtraction in the depth check does not wrap around on envelopes that validate.\<close>

lemma depth_steps_sint:
  assumes "depth_valid d"
  shows "depth_steps (current_depth d) parent \<longleftrightarrow> sint (current_depth d) = sint parent + 1 \<and> sint parent \<ge> 0"
proof -
  have nn: "0 \<le> sint (current_depth d)" using assms by (simp add: depth_valid_def)
  show ?thesis
  proof (cases "current_depth d = 0")
    case False
    with nn have "0 < sint (current_depth d)" using sint_nonzero [of "current_depth d"] by simp
    moreover have "current_depth d - 1 = parent \<longleftrightarrow> sint (current_depth d) - 1 = sint parent"
      using sint_sub_1 [OF False nn] by (metis signed_word_eqI)
    ultimately show ?thesis using False by (auto simp: depth_steps_def)
  qed (auto simp: depth_steps_def)
qed

section \<open>Iteration order\<close>






section \<open>Inheritance of approvals\<close>

definition printable :: "'ctx cel \<Rightarrow> envelope \<Rightarrow> bool" where
  "printable c e \<longleftrightarrow>
     (\<forall>a \<in> set (elems (approvals e)). \<forall>t. compile c (condition a) = Inr t \<longrightarrow>
        cel_unparse c t \<noteq> None \<and> exact_literal t)"

lemma allows_inherits:
  assumes "allows c now p ch" and "r \<in> set (elems (approvals p))"
  obtains a t u where "a \<in> set (elems (approvals ch))" and "required_role a = required_role r"
    and "compile c (condition r) = Inr t" and "compile c (condition a) = Inr u" and "preserves c t u"
proof -
  obtain a where "a \<in> set (elems (approvals ch))" "inherits c r a"
    using assms by (auto simp: allows_iff authority_narrows_def approvals_inherited_def)
  moreover from \<open>inherits c r a\<close> obtain t u where "compile c (condition r) = Inr t"
    "compile c (condition a) = Inr u" "preserves c t u" "required_role a = required_role r"
    by (auto simp: inherits_def split: sum.splits)
  ultimately show thesis by (intro that [of a t u])
qed

section \<open>Properties\<close>

text \<open>
  C5: along any chain of delegations that the engine allows, no envelope permits an action, a
  resource or a data class that the first envelope of the chain does not permit.
\<close>

theorem delegation_never_expands:
  assumes "successively (allows c now) (first # es)" and "e \<in> set es" and "permits e d"
  shows "permits first d"
  using assms by (rule engine.chain_narrows)

theorem delegation_never_expands_witness:
  "permits sample_child (OnResource ''orders'' ''48319'') \<and> permits sample_parent (OnResource ''orders'' ''48319'')"
proof -
  have "successively (allows sample_cel sample_now) [sample_parent, sample_child]"
    using sample_allowed by (simp add: allows_def)
  moreover have "permits sample_child (OnResource ''orders'' ''48319'')"
    by (simp add: sample_child_def map_get_def scope_admits_def)
  ultimately show ?thesis
    using delegation_never_expands [of sample_cel sample_now sample_parent "[sample_child]" sample_child
        "OnResource ''orders'' ''48319''"]
    by (simp del: permits.simps)
qed

text \<open>
  C11: when the engine allows a delegation, every role that an approval condition of the parent
  requires for a request is among the roles the child's conditions require for it.  The CEL
  conditions are assumed to follow \<open>cel_laws\<close> and to have a printed form.
\<close>

theorem approvals_never_weakened:
  assumes "cel_laws c num" and "allows c now p ch" and "printable c p" and "printable c ch"
    and "r \<in> set (elems (approvals p))" and "compile c (condition r) = Inr t" and "holds c t ctx"
    and "required_roles c (elems (approvals ch)) ctx = Inr roles"
  shows "required_role r \<in> set roles"
proof -
  obtain a u where a: "a \<in> set (elems (approvals ch))" "required_role a = required_role r"
      "compile c (condition a) = Inr u" "preserves c t u"
    using assms(2,5,6) by (elim allows_inherits) auto
  have "holds c u ctx"
    using assms(1,3-7) a by (intro preserves_sound [of c num t u ctx]) (auto simp: printable_def)
  then show ?thesis using required_roles_set [OF assms(8)] a(1-3) by force
qed

theorem approvals_never_weakened_witness:
  "''refund_manager'' \<in> set [''refund_manager'']
   \<and> required_roles sample_cel (elems (approvals sample_child)) (Some 825) = Inr [''refund_manager'']"
proof -
  let ?r = "\<lparr>condition = ''refund.amount > 500'', required_role = ''refund_manager''\<rparr>"
  have roles: "required_roles sample_cel (elems (approvals sample_child)) (Some 825) = Inr [''refund_manager'']"
    by code_simp
  have c: "compile sample_cel ''refund.amount > 500'' = Inr (amount_gt 500)"
    "compile sample_cel ''refund.amount > 300'' = Inr (amount_gt 300)"
    by code_simp+
  have "printable sample_cel sample_parent" "printable sample_cel sample_child"
    using c by (auto simp: printable_def sample_parent_def sample_child_def sample_unparse exact_literal_def)
  moreover have "holds sample_cel (amount_gt 500) (Some 825)"
    by (simp add: holds_def sample_cel_def sample_eval_def sample_num_def compares_def op_gt_def)
  ultimately have "required_role ?r \<in> set [''refund_manager'']"
    using c roles sample_allowed
    by (intro approvals_never_weakened [OF sample_laws, of sample_now sample_parent sample_child
          ?r "amount_gt 500" "Some 825"])
      (simp_all add: allows_def sample_parent_def)
  with roles show ?thesis by simp
qed

text \<open>
  C17: the engine allows a delegation exactly when both envelopes are valid at the evaluation time,
  the child continues the parent's lineage (ids, parties, purpose, policy version, expiry, depth)
  and its authority narrows the parent's (actions, denials, data classes, scopes, approvals).
\<close>

theorem diff_allows_exactly:
  "decision (diff c p ch now) = ALLOW \<longleftrightarrow>
     policy_ok c p now \<and> policy_ok c ch now \<and> lineage_ok p ch \<and> authority_narrows c p ch"
  using allows_iff [of c now p ch] by (simp add: allows_def)



text \<open>
  C25: in an allowed delegation the child's depth, read as a signed 64-bit integer, is the parent's
  plus one and stays within both maxima: the subtraction in the check does not wrap around.
\<close>

theorem allowed_depth:
  assumes "allows c now p ch"
  shows "sint (current_depth (env_delegation ch)) = sint (current_depth (env_delegation p)) + 1
    \<and> 0 \<le> sint (current_depth (env_delegation p))
    \<and> sint (current_depth (env_delegation ch)) \<le> sint (max_depth (env_delegation ch))
    \<and> sint (max_depth (env_delegation ch)) \<le> sint (max_depth (env_delegation p))"
  using assms depth_steps_sint [of "env_delegation ch"]
  by (auto simp: allows_iff lineage_ok_def policy_ok_def depth_valid_def)

theorem allowed_depth_witness:
  "sint (current_depth (env_delegation sample_child)) = sint (current_depth (env_delegation sample_parent)) + 1"
  using allowed_depth [of sample_cel sample_now sample_parent sample_child] sample_allowed
  by (simp add: allows_def)

text \<open>
  C26: an approval is taken as inherited by any other approval for the same role when neither
  condition has a printed form, whatever the two conditions say: the errors of \<open>cel.AstToString\<close>
  are dropped and the two empty texts compare equal.
\<close>

theorem unprintable_conditions_inherit:
  assumes "compile c (condition r) = Inr t" and "compile c (condition a) = Inr u"
    and "cel_unparse c t = None" and "cel_unparse c u = None" and "required_role a = required_role r"
  shows "inherits c r a"
  using assms by (simp add: inherits_def preserves_def unparse_text_def)

text \<open>
  A witness: an interpreter without printed forms, one condition that always asks for the role and
  one that never does.
\<close>

definition mute_cel :: "unit cel" where
  "mute_cel =
     \<lparr>cel_compile = (\<lambda>s. Inr \<lparr>ast_expr = (if s = ''always'' then OtherExpr else Ident s), output_type = ''bool''\<rparr>),
      cel_unparse = (\<lambda>a. None), cel_program = (\<lambda>a. Inr ()),
      cel_eval = (\<lambda>a ctx. Inr (CelBool (ast_expr a = OtherExpr)))\<rparr>"

theorem unprintable_conditions_inherit_witness:
  "inherits mute_cel \<lparr>condition = ''always'', required_role = ''manager''\<rparr>
     \<lparr>condition = ''never'', required_role = ''manager''\<rparr>
   \<and> required_roles mute_cel [\<lparr>condition = ''always'', required_role = ''manager''\<rparr>] () = Inr [''manager'']
   \<and> required_roles mute_cel [\<lparr>condition = ''never'', required_role = ''manager''\<rparr>] () = Inr []"
proof -
  have "compile mute_cel ''always'' = Inr \<lparr>ast_expr = OtherExpr, output_type = ''bool''\<rparr>"
    "compile mute_cel ''never'' = Inr \<lparr>ast_expr = Ident ''never'', output_type = ''bool''\<rparr>"
    by code_simp+
  then have "inherits mute_cel \<lparr>condition = ''always'', required_role = ''manager''\<rparr>
     \<lparr>condition = ''never'', required_role = ''manager''\<rparr>"
    by (intro unprintable_conditions_inherit) (simp_all, simp_all add: mute_cel_def)
  moreover have "required_roles mute_cel [\<lparr>condition = ''always'', required_role = ''manager''\<rparr>] ()
      = Inr [''manager'']"
    "required_roles mute_cel [\<lparr>condition = ''never'', required_role = ''manager''\<rparr>] () = Inr []"
    by code_simp+
  ultimately show ?thesis by simp
qed

end
