(* ===== verification/Control.thy ===== *)
theory Control
  imports Server Delegation
begin

text \<open>
  The envelope handlers (\<open>internal/server/envelopes.go\<close>): the check that an envelope and all its
  ancestors are still in force (\<open>active\<close>), creating, delegating, revoking and reading envelopes.
\<close>

section \<open>An envelope is active\<close>

text \<open>
  \<open>check_link\<close> is the part of the loop body that looks at one envelope; the loop visits at most 129
  envelopes (\<open>depth\<close> from 0 to 128), which is the fuel \<open>active\<close> starts with.
\<close>

definition check_link :: "'ctx server \<Rightarrow> gtime \<Rightarrow> string \<Rightarrow> string list \<Rightarrow> stored \<Rightarrow> api_error + unit" where
  "check_link s now run seen v =
     (if env_id (st_env v) \<in> set seen then Inl (denied ''cyclic parent chain'')
      else if st_run v \<noteq> run then Inl (denied ''parent run mismatch'')
      else if st_revoked v \<noteq> None then Inl (denied ''envelope or ancestor revoked'')
      else if verify (srv_crypto s) (st_env v) (srv_pub s) \<noteq> Inr ()
        then Inl (denied ''invalid stored envelope signature'')
      else if decision (Validate (srv_cel s) (st_env v) now) \<noteq> ALLOW
        then Inl (denied ''invalid or expired envelope'')
      else Inr ())"

fun active_loop ::
  "'ctx server \<Rightarrow> gtime \<Rightarrow> string \<Rightarrow> db \<Rightarrow> nat \<Rightarrow> string list \<Rightarrow> stored \<Rightarrow> api_error + unit" where
  "active_loop s now run d 0 seen v = Inl (denied ''delegation chain too deep'')"
| "active_loop s now run d (Suc n) seen v =
     rbind (check_link s now run seen v) (\<lambda>_.
       case st_parent v of
         None \<Rightarrow>
           if parent_envelope (st_env v) \<noteq> [] \<or> current_depth (env_delegation (st_env v)) \<noteq> 0
           then Inl (denied ''invalid root'') else Inr ()
       | Some p \<Rightarrow>
           if p \<noteq> parent_envelope (st_env v) then Inl (denied ''parent reference mismatch'')
           else rbind (load d (parent_envelope (st_env v))) (\<lambda>parent.
             if decision (diff (srv_cel s) (st_env parent) (st_env v) now) \<noteq> ALLOW
             then Inl (denied ''invalid stored delegation'')
             else active_loop s now run d n (env_id (st_env v) # seen) parent))"

definition active :: "'ctx server \<Rightarrow> gtime \<Rightarrow> db \<Rightarrow> stored \<Rightarrow> api_error + unit" where
  "active s now d v = active_loop s now (st_run v) d 129 [] v"

section \<open>Creating a root envelope\<close>

record create_request =
  cr_run :: string
  cr_envelope :: envelope

text \<open>The defaults the handler fills in.\<close>

definition fill_root :: "string \<Rightarrow> envelope \<Rightarrow> envelope" where
  "fill_root rand v =
     v\<lparr>env_id := (if env_id v = [] then new_env_id rand else env_id v),
       env_version := (if env_version v = [] then ''1'' else env_version v)\<rparr>"

definition create_run :: "draws \<Rightarrow> create_request \<Rightarrow> string" where
  "create_run w q = (if cr_run q = [] then new_id ''run_'' (d_run w) else cr_run q)"

definition create :: "'ctx server \<Rightarrow> draws \<Rightarrow> api_error + create_request \<Rightarrow> db \<Rightarrow> outcome" where
  "create s w body d =
     rbind body (\<lambda>q.
       let run = create_run w q; v = fill_root (d_env w) (cr_envelope q)
       in if parent_envelope v \<noteq> [] \<or> current_depth (env_delegation v) \<noteq> 0
             \<or> sint (max_depth (env_delegation v)) > 128
          then Inl (bad ''root requires no parent, current_depth 0, and max_depth <= 128'')
          else if \<exists>(category, scopes) \<in> set (elems (resources v)). CHR '':'' \<in> set category
          then Inl (bad (''resource categories must not contain '' @ [CHR 0x27, CHR '':'', CHR 0x27]))
          else let res = Validate (srv_cel s) v (d_now w)
          in if decision res \<noteq> ALLOW then Inr ((RResult res, 422), d)
          else rbind (wrap_error Internal (sign (srv_crypto s) v (srv_key s))) (\<lambda>sig.
            let v = v\<lparr>signature := sig\<rparr>
            in rbind (insert_run (run, d_txnow w) d) (\<lambda>d.
               rbind (save run v (d_txnow w) d) (\<lambda>d.
               rbind (append_audit (srv_crypto s) (d_event w) (d_audit w) run ''envelope.created'' (encode_envelope v) d) (\<lambda>d.
                 Inr ((RStored \<lparr>st_env = v, st_run = run, st_revoked = None, st_parent = None\<rparr>, 201), d))))))"

definition get :: "string \<Rightarrow> db \<Rightarrow> outcome" where
  "get i d = rbind (load d i) (\<lambda>v. Inr ((RStored v, 200), d))"

section \<open>Delegating\<close>

definition fill_child :: "string \<Rightarrow> string \<Rightarrow> envelope \<Rightarrow> envelope" where
  "fill_child rand i child =
     child\<lparr>env_id := (if env_id child = [] then new_env_id rand else env_id child),
           env_version := (if env_version child = [] then ''1'' else env_version child),
           parent_envelope := (if parent_envelope child = [] then i else parent_envelope child)\<rparr>"

definition judge_handoff :: "'ctx server \<Rightarrow> gtime \<Rightarrow> db \<Rightarrow> stored \<Rightarrow> envelope \<Rightarrow> result" where
  "judge_handoff s now d parent child =
     (let res = diff (srv_cel s) (st_env parent) child now
      in case active s now d parent of
           Inl e \<Rightarrow> \<lparr>decision = DENY,
             violations = violations res @ [Violation ''PARENT_INACTIVE'' ''parent_envelope'' (error_text e)]\<rparr>
         | Inr _ \<Rightarrow> res)"

definition handoff_payload :: "string \<Rightarrow> string \<Rightarrow> envelope \<Rightarrow> bool \<Rightarrow> result \<Rightarrow> json" where
  "handoff_payload hid i child persisted res =
     JObj [(''id'', JStr hid), (''parent_id'', JStr i), (''proposed_child'', encode_envelope child),
           (''persisted'', JBool persisted), (''result'', encode_result res)]"

text \<open>Signing and saving an allowed child: the child as answered and whether it was saved.\<close>

definition persist_child ::
  "'ctx server \<Rightarrow> draws \<Rightarrow> string \<Rightarrow> envelope \<Rightarrow> bool \<Rightarrow> db \<Rightarrow> api_error + (envelope \<times> bool) \<times> db" where
  "persist_child s w run child keep d =
     (if keep then
        rbind (wrap_error Internal (sign (srv_crypto s) child (srv_key s))) (\<lambda>sig.
          let child = child\<lparr>signature := sig\<rparr>
          in rbind (save run child (d_txnow w) d) (\<lambda>d. Inr ((child, True), d)))
      else Inr ((child, False), d))"

definition evaluate_handoff ::
  "'ctx server \<Rightarrow> draws \<Rightarrow> string \<Rightarrow> envelope \<Rightarrow> bool \<Rightarrow> db \<Rightarrow> outcome" where
  "evaluate_handoff s w i proposed persist d =
     rbind (load d i) (\<lambda>parent.
       let child = fill_child (d_env w) i proposed;
           res = judge_handoff s (d_now w) d parent child;
           run = st_run parent;
           hid = new_id ''handoff_'' (d_handoff w)
       in rbind (persist_child s w run child (decision res = ALLOW \<and> persist) d) (\<lambda>((child, kept), d).
          rbind (insert_handoff
              \<lparr>ho_id = hid, ho_run = run, ho_parent = i, ho_child = (if kept then Some (env_id child) else None),
               ho_proposed = env_id child, ho_result = res, ho_created = d_txnow w\<rparr> d) (\<lambda>d.
          rbind (record_violations run i res d) (\<lambda>d.
          rbind (append_audit (srv_crypto s) (d_event w) (d_audit w) run ''handoff.evaluated''
              (handoff_payload hid i child kept res) d) (\<lambda>d.
            Inr ((RHandoff hid res (if kept then Some child else None),
                  if decision res = DENY then 403 else if persist then 201 else 200), d))))))"

record handoff_request =
  hr_parent :: string
  hr_child :: envelope

definition delegate :: "'ctx server \<Rightarrow> draws \<Rightarrow> string \<Rightarrow> api_error + envelope \<Rightarrow> db \<Rightarrow> outcome" where
  "delegate s w i body d = rbind body (\<lambda>child. evaluate_handoff s w i child True d)"

definition handoff :: "'ctx server \<Rightarrow> draws \<Rightarrow> api_error + handoff_request \<Rightarrow> db \<Rightarrow> outcome" where
  "handoff s w body d = rbind body (\<lambda>q. evaluate_handoff s w (hr_parent q) (hr_child q) False d)"

section \<open>Revoking\<close>

definition revoke :: "'ctx server \<Rightarrow> draws \<Rightarrow> string \<Rightarrow> db \<Rightarrow> outcome" where
  "revoke s w i d =
     rbind (load d i) (\<lambda>v.
       rbind (if st_revoked v = None then
                append_audit (srv_crypto s) (d_event w) (d_audit w) (st_run v) ''envelope.revoked''
                  (JObj [(''envelope_id'', JStr (env_id (st_env v)))])
                  (revoke_envelope (env_id (st_env v)) (d_txnow w) d)
              else Inr d) (\<lambda>d.
         Inr ((RRevoked (env_id (st_env v)), 200), d)))"

section \<open>Reading\<close>

record diff_request =
  dr_parent :: envelope
  dr_child :: envelope

definition diff_policies :: "'ctx server \<Rightarrow> draws \<Rightarrow> api_error + diff_request \<Rightarrow> db \<Rightarrow> outcome" where
  "diff_policies s w body d =
     rbind body (\<lambda>q. Inr ((RDiff (diff (srv_cel s) (dr_parent q) (dr_child q) (d_now w)), 200), d))"

definition run_exists :: "string \<Rightarrow> db \<Rightarrow> api_error + unit" where
  "run_exists run d = (if has_run d run then Inr () else Inl NoRows)"

definition read_stored :: "string \<Rightarrow> env_row \<Rightarrow> api_error + stored" where
  "read_stored run r =
     (case er_doc r of
        None \<Rightarrow> Inl (Internal ''cannot decode document'')
      | Some v \<Rightarrow> Inr \<lparr>st_env = v, st_run = run, st_revoked = er_revoked r, st_parent = None\<rparr>)"

text \<open>\<open>queryDocuments\<close>: the rows of a run, by their time and identifier.\<close>

definition query_documents :: "('r \<Rightarrow> string) \<Rightarrow> ('r \<Rightarrow> int \<times> string) \<Rightarrow> string \<Rightarrow> 'r list \<Rightarrow> 'r list" where
  "query_documents run_of order run rows = sort_key order (filter (\<lambda>r. run_of r = run) rows)"

definition chain :: "string \<Rightarrow> db \<Rightarrow> outcome" where
  "chain run d =
     rbind (run_exists run d) (\<lambda>_.
     rbind (fold_result (\<lambda>r acc. rbind (read_stored run r) (\<lambda>v. Inr (acc @ [v])))
         (sort_key (\<lambda>r. (er_created r, er_id r)) (filter (\<lambda>r. er_run r = run) (t_envelopes d))) []) (\<lambda>envs.
       Inr ((RChain run envs
              (query_documents ho_run (\<lambda>r. (ho_created r, ho_id r)) run (t_handoffs d))
              (query_documents ta_run (\<lambda>r. (ta_created r, ta_id r)) run (t_actions d)), 200), d)))"

definition run_violations :: "string \<Rightarrow> db \<Rightarrow> outcome" where
  "run_violations run d =
     rbind (run_exists run d) (\<lambda>_.
       Inr ((RViolations (map vr_violation (filter (\<lambda>r. vr_run r = run) (t_violations d))), 200), d))"

definition verify_run :: "'ctx server \<Rightarrow> string \<Rightarrow> db \<Rightarrow> outcome" where
  "verify_run s run d =
     rbind (verify_audit (srv_crypto s) (srv_pub s) run d) (\<lambda>rep. Inr ((RAudit rep, 200), d))"

section \<open>What being active means\<close>

text \<open>
  \<open>ancestry d v vs\<close>: following the stored parent references from \<open>v\<close> gives the list \<open>vs\<close>, which
  ends in a root.  \<open>in_force\<close> is what must hold of each of them.
\<close>

inductive ancestry :: "db \<Rightarrow> stored \<Rightarrow> stored list \<Rightarrow> bool" for d where
  root: "st_parent v = None \<Longrightarrow> ancestry d v [v]"
| up: "st_parent v = Some p \<Longrightarrow> load d p = Inr u \<Longrightarrow> ancestry d u us \<Longrightarrow> ancestry d v (v # us)"

code_pred (modes: i \<Rightarrow> i \<Rightarrow> o \<Rightarrow> bool) ancestry .

inductive_simps ancestry_Cons: "ancestry d v (x # us)"
inductive_simps ancestry_Nil [simp]: "ancestry d v []"

definition in_force :: "'ctx server \<Rightarrow> gtime \<Rightarrow> string \<Rightarrow> stored \<Rightarrow> bool" where
  "in_force s now run v \<longleftrightarrow>
     st_run v = run \<and> st_revoked v = None \<and> verify (srv_crypto s) (st_env v) (srv_pub s) = Inr ()
     \<and> policy_ok (srv_cel s) (st_env v) now
     \<and> (case st_parent v of
          None \<Rightarrow> parent_envelope (st_env v) = [] \<and> current_depth (env_delegation (st_env v)) = 0
        | Some p \<Rightarrow> p = parent_envelope (st_env v))"

definition delegates :: "'ctx server \<Rightarrow> gtime \<Rightarrow> stored \<Rightarrow> stored \<Rightarrow> bool" where
  "delegates s now v u \<longleftrightarrow> allows (srv_cel s) now (st_env u) (st_env v)"

definition stored_id :: "stored \<Rightarrow> string" where
  "stored_id v = env_id (st_env v)"

lemma ancestry_hd: "ancestry d v vs \<Longrightarrow> \<exists>us. vs = v # us"
  by (auto elim: ancestry.cases)

lemma ancestry_root: "st_parent v = None \<Longrightarrow> ancestry d v vs \<longleftrightarrow> vs = [v]"
  by (auto elim: ancestry.cases intro: ancestry.intros)

lemma ancestry_up:
  "st_parent v = Some p \<Longrightarrow> load d p = Inr u \<Longrightarrow> ancestry d v vs \<longleftrightarrow> (\<exists>us. ancestry d u us \<and> vs = v # us)"
  by (auto elim: ancestry.cases intro: ancestry.intros)

lemma ancestry_missing: "st_parent v = Some p \<Longrightarrow> load d p = Inl e \<Longrightarrow> \<not> ancestry d v vs"
  by (auto elim: ancestry.cases)

lemma check_link_ok:
  "check_link s now run seen v = Inr x \<longleftrightarrow>
     stored_id v \<notin> set seen \<and> st_run v = run \<and> st_revoked v = None
     \<and> verify (srv_crypto s) (st_env v) (srv_pub s) = Inr () \<and> policy_ok (srv_cel s) (st_env v) now"
  by (simp add: check_link_def Validate_ALLOW stored_id_def)

lemma in_force_root:
  "st_parent v = None \<Longrightarrow> in_force s now run v \<longleftrightarrow>
     (\<exists>x. check_link s now run [] v = Inr x) \<and> parent_envelope (st_env v) = []
     \<and> current_depth (env_delegation (st_env v)) = 0"
  by (auto simp: in_force_def check_link_ok)

lemma active_loop_iff:
  "active_loop s now run d n seen v = Inr () \<longleftrightarrow>
     (\<exists>vs. ancestry d v vs \<and> (\<forall>u \<in> set vs. in_force s now run u) \<and> distinct (map stored_id vs)
        \<and> set (map stored_id vs) \<inter> set seen = {} \<and> successively (delegates s now) vs \<and> length vs \<le> n)"
proof (induction n arbitrary: seen v)
  case 0
  then show ?case using ancestry_hd by fastforce
next
  case (Suc n)
  show ?case
  proof (cases "st_parent v")
    case None
    then show ?thesis
      by (auto simp: result_simps ancestry_root in_force_def check_link_ok)
  next
    case (Some p)
    show ?thesis
    proof (cases "load d p")
      case (Inl e)
      with Some show ?thesis by (auto simp: result_simps ancestry_missing)
    next
      case (Inr u)
      have "active_loop s now run d (Suc n) seen v = Inr () \<longleftrightarrow>
          stored_id v \<notin> set seen \<and> in_force s now run v \<and> delegates s now v u
          \<and> active_loop s now run d n (stored_id v # seen) u = Inr ()"
        using Some Inr by (auto simp: result_simps in_force_def check_link_ok delegates_def allows_def stored_id_def)
      also have "\<dots> \<longleftrightarrow> (\<exists>us. ancestry d u us \<and> (\<forall>x \<in> set (v # us). in_force s now run x)
          \<and> distinct (map stored_id (v # us)) \<and> set (map stored_id (v # us)) \<inter> set seen = {}
          \<and> successively (delegates s now) (v # us) \<and> length (v # us) \<le> Suc n)"
        unfolding Suc.IH using ancestry_hd by fastforce
      finally show ?thesis
        unfolding ancestry_up [OF Some Inr] by blast
    qed
  qed
qed

subsection \<open>The bound of the loop\<close>

text \<open>
  Roots are created with a maximum depth of at most 128, and every delegation adds one to the depth
  and keeps it within the maximum: the loop's 129 rounds reach the root of every sound chain, and
  no sound chain visits an id twice.
\<close>

definition bounded_roots :: "db \<Rightarrow> bool" where
  "bounded_roots d \<longleftrightarrow>
     (\<forall>r \<in> set (t_envelopes d). \<forall>v. er_parent r = None \<longrightarrow> er_doc r = Some v \<longrightarrow>
        sint (max_depth (env_delegation v)) \<le> 128)"

definition sound_chain :: "'ctx server \<Rightarrow> gtime \<Rightarrow> db \<Rightarrow> stored \<Rightarrow> stored list \<Rightarrow> bool" where
  "sound_chain s now d v vs \<longleftrightarrow>
     ancestry d v vs \<and> (\<forall>u \<in> set vs. in_force s now (st_run v) u) \<and> successively (delegates s now) vs"

definition depth_of :: "stored \<Rightarrow> int" where
  "depth_of v = sint (current_depth (env_delegation (st_env v)))"

definition max_of :: "stored \<Rightarrow> int" where
  "max_of v = sint (max_depth (env_delegation (st_env v)))"

lemma delegates_depth:
  "delegates s now v u \<Longrightarrow> depth_of v = depth_of u + 1 \<and> depth_of v \<le> max_of v \<and> max_of v \<le> max_of u"
  using depth_steps_sint [of "env_delegation (st_env v)"]
  by (auto simp: delegates_def depth_of_def max_of_def allows_iff lineage_ok_def policy_ok_def depth_valid_def)

lemma chain_depths:
  assumes "ancestry d v vs" and "successively (delegates s now) vs" and "depth_of (last vs) = 0"
  shows "depth_of v = int (length vs) - 1 \<and> max_of v \<le> max_of (last vs)
    \<and> (\<forall>u \<in> set (tl vs). depth_of u < depth_of v)"
  using assms
proof (induction rule: ancestry.induct)
  case (up v p u us)
  obtain ws where ws: "us = u # ws" using ancestry_hd [OF up.hyps(3)] by auto
  then have st: "delegates s now v u" "successively (delegates s now) us" using up.prems(1) by simp_all
  have l: "last (v # us) = last us" using ws by simp
  with up.prems(2) have "depth_of (last us) = 0" by simp
  note ih = up.IH [OF st(2) this]
  have "depth_of x < depth_of v" if "x \<in> set us" for x
    using that ih delegates_depth [OF st(1)] unfolding ws by (cases "x = u") auto
  with ih delegates_depth [OF st(1)] l show ?case by simp
qed simp

lemma in_force_root_depth: "in_force s now run v \<Longrightarrow> st_parent v = None \<Longrightarrow> depth_of v = 0"
  by (simp add: in_force_def depth_of_def)

lemma ancestry_last: "ancestry d v vs \<Longrightarrow> vs \<noteq> [] \<and> st_parent (last vs) = None"
  by (induction rule: ancestry.induct) simp_all

lemma ancestry_loaded:
  "ancestry d v vs \<Longrightarrow> load d (stored_id v) = Inr v \<Longrightarrow> u \<in> set vs \<Longrightarrow> load d (stored_id u) = Inr u"
proof (induction rule: ancestry.induct)
  case (up v p w us)
  have "stored_id w = p" using load_id [OF up.hyps(2)] by (simp only: stored_id_def)
  with up.hyps(2) up.IH have "u \<in> set us \<Longrightarrow> load d (stored_id u) = Inr u" by simp
  with up.prems show ?case by (cases "u = v") simp_all
qed simp

lemma find_envelope_in: "find_envelope d i = Some r \<Longrightarrow> r \<in> set (t_envelopes d) \<and> er_id r = i"
  unfolding find_envelope_def find_Some_iff by auto

lemma sound_chain_distinct:
  assumes "ancestry d v vs" and "successively (delegates s now) vs" and "depth_of (last vs) = 0"
    and "load d (stored_id v) = Inr v"
  shows "distinct (map stored_id vs)"
  using assms
proof (induction rule: ancestry.induct)
  case (up v p u us)
  have vs: "ancestry d v (v # us)" using up.hyps by (rule ancestry.up)
  obtain ws where ws: "us = u # ws" using ancestry_hd [OF up.hyps(3)] by auto
  have "stored_id x \<noteq> stored_id v" if "x \<in> set us" for x
  proof
    assume "stored_id x = stored_id v"
    moreover have "load d (stored_id x) = Inr x"
      using ancestry_loaded [OF vs up.prems(3), of x] that by simp
    ultimately have "x = v" using up.prems(3) by (metis sum.inject(2))
    moreover have "depth_of x < depth_of v" using chain_depths [OF vs up.prems(1,2)] that
      unfolding list.sel by blast
    ultimately show False by simp
  qed
  moreover have "load d (stored_id u) = Inr u"
    using up.hyps(2) load_id [OF up.hyps(2)] by (simp only: stored_id_def)
  moreover have "successively (delegates s now) us" "depth_of (last us) = 0"
    using up.prems(1,2) ws by simp_all
  ultimately show ?case using up.IH by (simp add: image_iff) metis
qed simp

lemma sound_chain_length:
  assumes "sound_chain s now d v vs" and "bounded_roots d" and "load d (stored_id v) = Inr v"
  shows "length vs \<le> 129 \<and> distinct (map stored_id vs)"
proof -
  let ?r = "last vs"
  have a: "ancestry d v vs" "successively (delegates s now) vs" "vs \<noteq> []"
    using assms(1) ancestry_hd by (auto simp: sound_chain_def)
  have r: "st_parent ?r = None" "?r \<in> set vs" using ancestry_last [OF a(1)] by simp_all
  with assms(1) have f: "in_force s now (st_run v) ?r" by (simp add: sound_chain_def)
  have d0: "depth_of ?r = 0" using in_force_root_depth [OF f r(1)] .
  obtain x where x: "find_envelope d (stored_id ?r) = Some x" "er_doc x = Some (st_env ?r)" "er_parent x = None"
    using ancestry_loaded [OF a(1) assms(3) r(2)] r(1) unfolding load_Inr by auto
  with assms(2) have m: "max_of ?r \<le> 128"
    using find_envelope_in [OF x(1)] unfolding bounded_roots_def max_of_def by blast
  have "depth_of v \<le> max_of v"
    using assms(1) a(3) ancestry_hd [OF a(1)]
    by (auto simp: sound_chain_def in_force_def policy_ok_def depth_valid_def depth_of_def max_of_def)
  with chain_depths [OF a(1,2) d0] m sound_chain_distinct [OF a(1,2) d0 assms(3)] show ?thesis by auto
qed

lemma active_sound_chain: "active s now d v = Inr () \<Longrightarrow> \<exists>vs. sound_chain s now d v vs"
  by (auto simp: active_def active_loop_iff sound_chain_def)

lemma active_iff:
  assumes "bounded_roots d" and "load d i = Inr v"
  shows "active s now d v = Inr () \<longleftrightarrow> (\<exists>vs. sound_chain s now d v vs)"
proof
  assume "\<exists>vs. sound_chain s now d v vs"
  then obtain vs where vs: "sound_chain s now d v vs" ..
  have "load d (stored_id v) = Inr v" using assms(2) load_id [OF assms(2)] by (simp add: stored_id_def)
  from sound_chain_length [OF vs assms(1) this] vs show "active s now d v = Inr ()"
    unfolding active_def active_loop_iff sound_chain_def by auto
qed (rule active_sound_chain)

text \<open>What an active envelope permits, each of its ancestors permits.\<close>

lemma sound_chain_permits:
  assumes "sound_chain s now d v vs" and "u \<in> set vs" and "permits (st_env v) x"
  shows "permits (st_env u) x"
proof -
  obtain us where us: "vs = v # us"
    using assms(1) ancestry_hd [of d v vs] by (auto simp: sound_chain_def)
  show ?thesis
  proof (cases "u = v")
    case False
    with assms(2) us have "u \<in> set us" by simp
    then obtain xs ys where s: "us = xs @ u # ys" by (meson split_list)
    have "successively (delegates s now) ((v # xs @ [u]) @ ys)"
      using assms(1) us s by (simp add: sound_chain_def)
    then have "successively (delegates s now) (v # xs @ [u])"
      unfolding successively_append_iff by blast
    then have "successively (\<lambda>a b. delegates s now b a) (u # rev xs @ [v])"
      using successively_rev [of "\<lambda>a b. delegates s now b a" "v # xs @ [u]"] by simp
    then have "successively (allows (srv_cel s) now) (map st_env (u # rev xs @ [v]))"
      unfolding successively_map by (simp only: delegates_def)
    then show ?thesis
      using engine.chain_narrows [of "srv_cel s" now "st_env u" "map st_env (rev xs @ [v])" "st_env v"] assms(3)
      by simp
  qed (use assms(3) in simp)
qed

section \<open>What the handlers do to the database\<close>

text \<open>The row \<open>save\<close> inserts.\<close>

definition row_of :: "string \<Rightarrow> envelope \<Rightarrow> int \<Rightarrow> env_row" where
  "row_of run v t =
     \<lparr>er_id = env_id v, er_run = run,
      er_parent = (if parent_envelope v \<noteq> [] then Some (parent_envelope v) else None),
      er_doc = Some v, er_revoked = None, er_created = t\<rparr>"

lemma save_Inr:
  assumes "save run v t d = Inr d'"
  shows "\<not> has_envelope d (env_id v)"
    and "parent_envelope v \<noteq> [] \<Longrightarrow> has_envelope d (parent_envelope v)"
    and "t_envelopes d' = t_envelopes d @ [row_of run v t]" and "t_runs d' = t_runs d"
    and "t_audit d' = t_audit d" and "t_approvals d' = t_approvals d"
  using assms by (auto simp: save_def row_of_def insert_envelope_Inr has_envelope_def)

lemma audit_event_cong: "t_audit d = t_audit d' \<Longrightarrow> audit_event c r n run k p d = audit_event c r n run k p d'"
  by (simp add: audit_event_def last_hash_def events_of_def)

definition root_ok :: "envelope \<Rightarrow> bool" where
  "root_ok v \<longleftrightarrow>
     parent_envelope v = [] \<and> current_depth (env_delegation v) = 0 \<and> sint (max_depth (env_delegation v)) \<le> 128
     \<and> (\<forall>(k, x) \<in> set (elems (resources v)). CHR '':'' \<notin> set k)"

lemma create_Inr:
  assumes "create s w (Inr q) d = Inr ((resp, status), d')"
  obtains (rejected) "resp = RResult (Validate (srv_cel s) (fill_root (d_env w) (cr_envelope q)) (d_now w))"
      "status = 422" "d' = d" "decision (Validate (srv_cel s) (fill_root (d_env w) (cr_envelope q)) (d_now w)) \<noteq> ALLOW"
  | (created) v sig where "v = (fill_root (d_env w) (cr_envelope q))\<lparr>signature := sig\<rparr>"
      "sign (srv_crypto s) (fill_root (d_env w) (cr_envelope q)) (srv_key s) = Inr sig"
      "root_ok v" "policy_ok (srv_cel s) v (d_now w)"
      "resp = RStored \<lparr>st_env = v, st_run = create_run w q, st_revoked = None, st_parent = None\<rparr>" "status = 201"
      "\<not> has_run d (create_run w q)" "\<not> has_envelope d (env_id v)"
      "t_runs d' = t_runs d @ [(create_run w q, d_txnow w)]"
      "t_envelopes d' = t_envelopes d @ [row_of (create_run w q) v (d_txnow w)]"
      "t_approvals d' = t_approvals d"
      "t_audit d' = t_audit d @ [audit_event (srv_crypto s) (d_event w) (d_audit w) (create_run w q)
         ''envelope.created'' (encode_envelope v) d]"
proof -
  let ?v = "fill_root (d_env w) (cr_envelope q)" and ?run = "create_run w q"
  let ?ok = "decision (Validate (srv_cel s) ?v (d_now w)) = ALLOW"
  have pre: "\<not> (parent_envelope ?v \<noteq> [] \<or> current_depth (env_delegation ?v) \<noteq> 0
             \<or> sint (max_depth (env_delegation ?v)) > 128)"
    "\<not> (\<exists>(category, scopes) \<in> set (elems (resources ?v)). CHR '':'' \<in> set category)"
    using assms by (auto simp: create_def Let_def split: if_splits)
  show thesis
  proof (cases ?ok)
    case False
    with assms pre show thesis
      by (intro rejected) (simp_all add: create_def Let_def)
  next
    case True
    then obtain sig d1 d2 where s: "sign (srv_crypto s) ?v (srv_key s) = Inr sig"
      and d1: "insert_run (?run, d_txnow w) d = Inr d1"
      and d2: "save ?run (?v\<lparr>signature := sig\<rparr>) (d_txnow w) d1 = Inr d2"
      and d3: "append_audit (srv_crypto s) (d_event w) (d_audit w) ?run ''envelope.created''
         (encode_envelope (?v\<lparr>signature := sig\<rparr>)) d2 = Inr d'"
      and r: "resp = RStored \<lparr>st_env = ?v\<lparr>signature := sig\<rparr>, st_run = ?run, st_revoked = None, st_parent = None\<rparr>"
        "status = 201"
      using assms pre by (auto simp: create_def Let_def result_simps)
    have ok: "root_ok (?v\<lparr>signature := sig\<rparr>)" using pre by (auto simp: root_ok_def)
    have p: "policy_ok (srv_cel s) (?v\<lparr>signature := sig\<rparr>) (d_now w)"
      using True by (simp add: Validate_ALLOW policy_ok_def)
    show thesis
      by (rule created [OF refl s ok p])
        (use r d1 save_Inr [OF d2] append_audit_Inr [OF d3] in
          \<open>auto simp: insert_run_Inr has_envelope_def intro: audit_event_cong\<close>)
  qed
qed

lemma judge_handoff_ALLOW:
  "decision (judge_handoff s now d parent child) = ALLOW \<longleftrightarrow>
     allows (srv_cel s) now (st_env parent) child \<and> active s now d parent = Inr ()"
  by (simp add: judge_handoff_def allows_def Let_def split: sum.split)

lemma judge_handoff_decision: "decision (judge_handoff s now d parent child) \<in> {ALLOW, DENY}"
  by (simp add: judge_handoff_def diff_def finish_def Let_def split: sum.split)

lemma evaluate_handoff_Inr:
  assumes "evaluate_handoff s w i proposed persist d = Inr ((resp, status), d')"
  obtains parent child kept res where "load d i = Inr parent"
    and "res = judge_handoff s (d_now w) d parent (fill_child (d_env w) i proposed)"
    and "kept \<longleftrightarrow> decision res = ALLOW \<and> persist"
    and "if kept then \<exists>sig. sign (srv_crypto s) (fill_child (d_env w) i proposed) (srv_key s) = Inr sig
             \<and> child = (fill_child (d_env w) i proposed)\<lparr>signature := sig\<rparr>
           else child = fill_child (d_env w) i proposed"
    and "resp = RHandoff (new_id ''handoff_'' (d_handoff w)) res (if kept then Some child else None)"
    and "status = (if decision res = DENY then 403 else if persist then 201 else 200)"
    and "kept \<longrightarrow> \<not> has_envelope d (env_id child)" and "has_run d (st_run parent)"
    and "t_runs d' = t_runs d" "t_approvals d' = t_approvals d"
    and "t_envelopes d' = t_envelopes d @ (if kept then [row_of (st_run parent) child (d_txnow w)] else [])"
    and "t_audit d' = t_audit d @ [audit_event (srv_crypto s) (d_event w) (d_audit w) (st_run parent)
         ''handoff.evaluated'' (handoff_payload (new_id ''handoff_'' (d_handoff w)) i child kept res) d]"
proof -
  let ?ch = "fill_child (d_env w) i proposed"
  from assms obtain parent child kept d1 d2 d3 where 1: "load d i = Inr parent"
    and p: "persist_child s w (st_run parent) ?ch
        (decision (judge_handoff s (d_now w) d parent ?ch) = ALLOW \<and> persist) d = Inr ((child, kept), d1)"
    and h: "insert_handoff
              \<lparr>ho_id = new_id ''handoff_'' (d_handoff w), ho_run = st_run parent, ho_parent = i,
               ho_child = (if kept then Some (env_id child) else None), ho_proposed = env_id child,
               ho_result = judge_handoff s (d_now w) d parent ?ch, ho_created = d_txnow w\<rparr> d1 = Inr d2"
    and v: "record_violations (st_run parent) i (judge_handoff s (d_now w) d parent ?ch) d2 = Inr d3"
    and a: "append_audit (srv_crypto s) (d_event w) (d_audit w) (st_run parent) ''handoff.evaluated''
        (handoff_payload (new_id ''handoff_'' (d_handoff w)) i child kept (judge_handoff s (d_now w) d parent ?ch)) d3
        = Inr d'"
    and r: "resp = RHandoff (new_id ''handoff_'' (d_handoff w)) (judge_handoff s (d_now w) d parent ?ch)
          (if kept then Some child else None)"
      "status = (if decision (judge_handoff s (d_now w) d parent ?ch) = DENY then 403 else if persist then 201 else 200)"
    by (auto simp: evaluate_handoff_def Let_def result_simps split: prod.splits)
  have "persist_child s w run x keep d = Inr ((c, k), e) \<Longrightarrow>
      keep \<and> k \<and> (\<exists>sig. sign (srv_crypto s) x (srv_key s) = Inr sig \<and> c = x\<lparr>signature := sig\<rparr>
          \<and> save run c (d_txnow w) d = Inr e)
      \<or> \<not> keep \<and> \<not> k \<and> c = x \<and> e = d" for run x keep c k e
    by (cases keep) (auto simp: persist_child_def result_simps Let_def)
  from this [OF p] consider
      (kept) sig where "kept" "decision (judge_handoff s (d_now w) d parent ?ch) = ALLOW \<and> persist"
        "sign (srv_crypto s) ?ch (srv_key s) = Inr sig" "child = ?ch\<lparr>signature := sig\<rparr>"
        "save (st_run parent) child (d_txnow w) d = Inr d1"
    | (dropped) "\<not> kept" "\<not> (decision (judge_handoff s (d_now w) d parent ?ch) = ALLOW \<and> persist)"
        "child = ?ch" "d1 = d"
    by blast
  then show thesis
  proof cases
    case kept
    show thesis
      by (rule that [OF 1 refl, of kept child])
        (use kept r save_Inr [OF kept(5)] insert_handoff_Inr [OF h] record_violations_Inr [OF v]
          append_audit_Inr [OF a] in \<open>auto simp: has_run_def intro: audit_event_cong\<close>)
  next
    case dropped
    show thesis
      by (rule that [OF 1 refl, of kept child])
        (use dropped r insert_handoff_Inr [OF h] record_violations_Inr [OF v]
          append_audit_Inr [OF a] in \<open>auto simp: has_run_def intro: audit_event_cong\<close>)
  qed
qed

lemma revoke_Inr:
  assumes "revoke s w i d = Inr ((resp, status), d')"
  obtains (again) v where "load d i = Inr v" "st_revoked v \<noteq> None" "resp = RRevoked i" "status = 200" "d' = d"
  | (revoked) v where "load d i = Inr v" "st_revoked v = None" "resp = RRevoked i" "status = 200"
      "has_run d (st_run v)" "t_runs d' = t_runs d" "t_approvals d' = t_approvals d"
      "t_envelopes d' = map (\<lambda>r. if er_id r = i then r\<lparr>er_revoked := Some (d_txnow w)\<rparr> else r) (t_envelopes d)"
      "t_audit d' = t_audit d @ [audit_event (srv_crypto s) (d_event w) (d_audit w) (st_run v) ''envelope.revoked''
         (JObj [(''envelope_id'', JStr i)]) d]"
proof -
  from assms obtain v where v: "load d i = Inr v" by (auto simp: revoke_def result_simps)
  note i = load_id [OF v]
  show thesis
  proof (cases "st_revoked v = None")
    case False
    with assms v i show thesis by (intro again [of v]) (auto simp: revoke_def)
  next
    case True
    with assms v i have a: "append_audit (srv_crypto s) (d_event w) (d_audit w) (st_run v) ''envelope.revoked''
        (JObj [(''envelope_id'', JStr i)]) (revoke_envelope i (d_txnow w) d) = Inr d'"
      and r: "resp = RRevoked i" "status = 200"
      by (auto simp: revoke_def result_simps)
    show thesis
      by (rule revoked [OF v True r])
        (use append_audit_Inr [OF a] in
          \<open>auto simp: revoke_envelope_def has_run_def intro: audit_event_cong\<close>)
  qed
qed

section \<open>When the handlers succeed\<close>

lemma create_ok:
  assumes "root_ok (fill_root (d_env w) (cr_envelope q))"
    and "decision (Validate (srv_cel s) (fill_root (d_env w) (cr_envelope q)) (d_now w)) = ALLOW"
    and "sign (srv_crypto s) (fill_root (d_env w) (cr_envelope q)) (srv_key s) = Inr sig"
    and "v = (fill_root (d_env w) (cr_envelope q))\<lparr>signature := sig\<rparr>"
    and "insert_run (create_run w q, d_txnow w) d = Inr d1" and "save (create_run w q) v (d_txnow w) d1 = Inr d2"
    and "append_audit (srv_crypto s) (d_event w) (d_audit w) (create_run w q) ''envelope.created''
      (encode_envelope v) d2 = Inr d3"
  shows "create s w (Inr q) d
    = Inr ((RStored \<lparr>st_env = v, st_run = create_run w q, st_revoked = None, st_parent = None\<rparr>, 201), d3)"
proof -
  let ?v = "fill_root (d_env w) (cr_envelope q)"
  have p1: "\<not> (parent_envelope ?v \<noteq> [] \<or> current_depth (env_delegation ?v) \<noteq> 0
      \<or> sint (max_depth (env_delegation ?v)) > 128)"
    and p2: "\<not> (\<exists>(category, scopes) \<in> set (elems (resources ?v)). CHR '':'' \<in> set category)"
    using assms(1) by (auto simp: root_ok_def)
  have p3: "\<not> decision (Validate (srv_cel s) ?v (d_now w)) \<noteq> ALLOW" using assms(2) by simp
  show ?thesis
    unfolding create_def rbind_Inr Let_def if_not_P [OF p1] if_not_P [OF p2] if_not_P [OF p3]
    using assms(3-) by (simp add: wrap_error_def)
qed

lemma evaluate_handoff_ok:
  assumes "load d i = Inr parent" and "child = fill_child (d_env w) i proposed"
    and "judge_handoff s (d_now w) d parent child = res"
    and "persist_child s w (st_run parent) child (decision res = ALLOW \<and> persist) d = Inr ((child', kept), d1)"
    and "insert_handoff
          \<lparr>ho_id = new_id ''handoff_'' (d_handoff w), ho_run = st_run parent, ho_parent = i,
           ho_child = (if kept then Some (env_id child') else None), ho_proposed = env_id child',
           ho_result = res, ho_created = d_txnow w\<rparr> d1 = Inr d2"
    and "record_violations (st_run parent) i res d2 = Inr d3"
    and "append_audit (srv_crypto s) (d_event w) (d_audit w) (st_run parent) ''handoff.evaluated''
          (handoff_payload (new_id ''handoff_'' (d_handoff w)) i child' kept res) d3 = Inr d4"
  shows "evaluate_handoff s w i proposed persist d
    = Inr ((RHandoff (new_id ''handoff_'' (d_handoff w)) res (if kept then Some child' else None),
        if decision res = DENY then 403 else if persist then 201 else 200), d4)"
  using assms by (simp add: evaluate_handoff_def Let_def)

end
