(* ===== verification/Go_Float.thy ===== *)
theory Go_Float
  imports Go_Text Complex_Main "HOL-Library.Log_Nat"
begin

text \<open>
  \<open>strconv.ParseFloat(s, 64)\<close> on the spelling of a JSON number: the exact decimal value, rounded to
  the nearest IEEE double (ties to even); \<open>None\<close> when it overflows.  A double is a pair \<open>(m, k)\<close>
  that stands for \<open>m * 2 ^ k\<close>, with at most 53 bits in \<open>m\<close>; the two zeros are one value.
\<close>

section \<open>The exact value\<close>

text \<open>Sign, integer part, fractiontion and exponent of a JSON number.\<close>

definition split_exponent :: "string \<Rightarrow> string \<times> string" where
  "split_exponent s =
     (case cut (CHR ''e'') s of
        Some p \<Rightarrow> p
      | None \<Rightarrow> (case cut (CHR ''E'') s of Some p \<Rightarrow> p | None \<Rightarrow> (s, ''0'')))"

definition split_point :: "string \<Rightarrow> string \<times> string" where
  "split_point s = (case cut (CHR ''.'') s of Some p \<Rightarrow> p | None \<Rightarrow> (s, []))"

text \<open>The value as a sign, a numerator and a denominator.\<close>

definition decimal_value :: "string \<Rightarrow> (bool \<times> nat \<times> nat) option" where
  "decimal_value s =
     (case split_exponent s of (mantissa, ex) \<Rightarrow>
        let negative = (mantissa \<noteq> [] \<and> hd mantissa = CHR ''-'')
        in (case split_point (if negative then tl mantissa else mantissa) of (whole, fraction) \<Rightarrow>
              (case (parse_digits (whole @ fraction), parse_int ex) of
                 (Some m, Some e) \<Rightarrow>
                   (let e' = e - int (length fraction)
                    in if 0 \<le> e' then Some (negative, m * 10 ^ nat e', 1)
                       else Some (negative, m, 10 ^ nat (- e')))
               | _ \<Rightarrow> None)))"

section \<open>Rounding\<close>

definition div_half_even :: "nat \<Rightarrow> nat \<Rightarrow> nat" where
  "div_half_even n m =
     (let q = n div m; r = 2 * (n mod m)
      in if r < m then q else if m < r then q + 1 else if even q then q else q + 1)"

text \<open>The exponent \<open>e\<close> with \<open>2 ^ e \<le> n / m < 2 ^ (e + 1)\<close>.\<close>

definition binary_exponent :: "nat \<Rightarrow> nat \<Rightarrow> int" where
  "binary_exponent n m =
     (let e = bitlen (int n) - bitlen (int m)
      in if (if 0 \<le> e then m * 2 ^ nat e \<le> n else m \<le> n * 2 ^ nat (- e)) then e else e - 1)"

definition round_double :: "nat \<Rightarrow> nat \<Rightarrow> (nat \<times> int) option" where
  "round_double n m =
     (if n = 0 then Some (0, 0)
      else let k = max (binary_exponent n m - 52) (- 1074);
               q = (if 0 \<le> k then div_half_even n (m * 2 ^ nat k) else div_half_even (n * 2 ^ nat (- k)) m);
               (m', k') = (if q = 2 ^ 53 then (2 ^ 52, k + 1) else (q, k))
           in if k' > 971 then None else Some (m', k'))"

definition parse_float :: "string \<Rightarrow> (int \<times> int) option" where
  "parse_float s =
     (case decimal_value s of
        None \<Rightarrow> None
      | Some (negative, n, m) \<Rightarrow>
          (case round_double n m of
             None \<Rightarrow> None
           | Some (q, k) \<Rightarrow> Some (if negative then - int q else int q, k)))"

text \<open>The rounded quotient is within half a unit of the exact one.\<close>

lemma div_half_even_error:
  assumes "0 < m"
  shows "2 * \<bar>int n - int (div_half_even n m) * int m\<bar> \<le> int m"
proof -
  define q r where "q = n div m" and "r = n mod m"
  have n: "int n = int q * int m + int r" and r: "int r < int m"
    using assms by (simp_all add: q_def r_def flip: of_nat_mult of_nat_add)
  consider "div_half_even n m = q" "2 * r \<le> m" | "div_half_even n m = q + 1" "m \<le> 2 * r"
    by (fastforce simp: div_half_even_def Let_def q_def r_def split: if_splits)
  then show ?thesis
  proof cases
    case 1
    then show ?thesis using n r by simp
  next
    case 2
    then show ?thesis using n r by (simp add: algebra_simps)
  qed
qed

end
