(* ===== verification/Actions.thy ===== *)
theory Actions
  imports Control Go_Float
begin

text \<open>
  Approvals and actions (\<open>internal/server/actions.go\<close>): a manager's approval of one exact action, and
  the decision whether an agent may run a tool now.  The conditions of an envelope are evaluated on
  the action's arguments, converted to CEL values.
\<close>

section \<open>CEL values of arguments (celValues)\<close>

datatype celval =
    VNull
  | VBool bool
  | VInt int
  | VUint nat
  | VDouble "int \<times> int"
  | VString string
  | VList "celval list"
  | VMap "(string \<times> celval) list"

type_synonym activation = "(string \<times> celval) list"

definition cel_number :: "string \<Rightarrow> string + celval" where
  "cel_number s =
     (case parse_sized 64 s of
        Some n \<Rightarrow> Inr (VInt n)
      | None \<Rightarrow>
          (case parse_uint64 s of
             Some n \<Rightarrow> Inr (VUint n)
           | None \<Rightarrow>
               if \<not> contains_any s ''.eE'' then Inl ''integer outside supported range''
               else (case parse_float s of
                   None \<Rightarrow> Inl ''number outside supported range''
                 | Some x \<Rightarrow> Inr (VDouble x))))"

fun cel_values :: "json \<Rightarrow> string + celval" where
  "cel_values JNull = Inr VNull"
| "cel_values (JBool b) = Inr (VBool b)"
| "cel_values (JNum s) = cel_number s"
| "cel_values (JStr s) = Inr (VString s)"
| "cel_values (JArr vs) = rbind (map_result cel_values vs) (\<lambda>ws. Inr (VList ws))"
| "cel_values (JObj kvs) =
     rbind (map_result (\<lambda>(k, v). rbind (cel_values v) (\<lambda>w. Inr (k, w))) kvs) (\<lambda>ws. Inr (VMap ws))"

section \<open>Membership and resources\<close>

fun has :: "string list \<Rightarrow> string \<Rightarrow> bool" where
  "has [] want = False"
| "has (v # vs) want = (if v = want then True else has vs want)"

definition concrete_id :: "string \<Rightarrow> bool" where
  "concrete_id i \<longleftrightarrow> \<not> (i = [] \<or> contains_any i ''*?[]'' \<or> trim_space i \<noteq> i)"

definition resource_allowed :: "string list \<Rightarrow> string \<Rightarrow> bool" where
  "resource_allowed scopes i \<longleftrightarrow>
     concrete_id i
     \<and> (\<exists>scope \<in> set scopes.
          scope = ''*'' \<or> scope = i \<or> (suffix ''/*'' scope \<and> prefix (trim_suffix scope ''*'') i))"

definition dedupe_step :: "string \<Rightarrow> string list \<Rightarrow> string list" where
  "dedupe_step v acc = (if acc = [] \<or> last acc \<noteq> v then acc @ [v] else acc)"

definition dedupe :: "string list \<Rightarrow> string list" where
  "dedupe vs = fold dedupe_step vs []"

section \<open>Approving (approve)\<close>

record approval_request =
  aq_envelope :: string
  aq_action :: string
  aq_resource :: string
  aq_arguments :: "json gomap"
  aq_approved_by :: string
  aq_role :: string
  aq_expires :: gtime

definition refund_manager :: string where
  "refund_manager = ''refund_manager''"

text \<open>The amount of a request for \<open>refunds.create\<close> with exactly an order id and a positive amount.\<close>

definition refund_amount :: "approval_request \<Rightarrow> int option" where
  "refund_amount q =
     (let kvs = elems (aq_arguments q)
      in (case (map_of kvs ''amount'', map_of kvs ''order_id'') of
            (Some (JNum amount), Some (JStr order)) \<Rightarrow>
              (case parse_sized 64 amount of
                 None \<Rightarrow> None
               | Some n \<Rightarrow>
                   if aq_action q \<noteq> ''refunds.create'' \<or> n \<le> 0 \<or> n > 9007199254740991
                      \<or> length kvs \<noteq> 2 \<or> aq_resource q \<noteq> ''orders:'' @ order
                   then None else Some n)
          | _ \<Rightarrow> None))"

text \<open>Identity and role come from the session where there is one, and from the request otherwise.\<close>

definition sign_off :: "operator option \<Rightarrow> approval_request \<Rightarrow> api_error + approval_request \<times> (operator \<times> int) option" where
  "sign_off op q =
     (case op of
        None \<Rightarrow> Inr (q, None)
      | Some o' \<Rightarrow>
          if aq_approved_by q \<noteq> [] \<or> aq_role q \<noteq> []
          then Inl (bad ''approval identity and role come from the signed-in operator'')
          else (case refund_amount q of
              None \<Rightarrow> Inl (bad ''refund approval requires exact order_id and positive integer amount'')
            | Some n \<Rightarrow> Inr (q\<lparr>aq_approved_by := o_username o', aq_role := o_role o'\<rparr>, Some (o', n))))"

text \<open>The checks between \<open>active\<close> and the digest, in their order.\<close>

definition check_approval_request :: "envelope \<Rightarrow> gtime \<Rightarrow> approval_request \<Rightarrow> api_error + unit" where
  "check_approval_request e now q =
     (if \<not> after (aq_expires q) now \<or> after (aq_expires q) (expires_at e)
        then Inl (bad ''approval expiry must be future and within envelope expiry'')
      else if blank (aq_approved_by q) \<or> blank (aq_role q) \<or> aq_arguments q = None
        then Inl (bad ''approved_by, role, and exact arguments are required'')
      else if \<not> has (elems (allowed_actions e)) (aq_action q) \<or> has (elems (denied_actions e)) (aq_action q)
        then Inl (bad ''action not permitted by envelope'')
      else if (case cut (CHR '':'') (aq_resource q) of
          None \<Rightarrow> True
        | Some (category, i) \<Rightarrow> \<not> resource_allowed (elems (map_get (resources e) category)) i)
        then Inl (bad ''resource must be an allowed category:id'')
      else if \<not> (\<exists>a \<in> set (elems (approvals e)). required_role a = aq_role q)
        then Inl (bad ''role is not required by this envelope'')
      else Inr ())"

definition approval_exists :: "approval_request \<Rightarrow> string \<Rightarrow> db \<Rightarrow> bool" where
  "approval_exists q hash d \<longleftrightarrow>
     (\<exists>r \<in> set (t_approvals d). pr_envelope r = aq_envelope q \<and> pr_action r = aq_action q
        \<and> pr_resource r = aq_resource q \<and> pr_hash r = hash \<and> pr_role r = aq_role q)"

definition encode_approval_view :: "approval_view \<Rightarrow> json" where
  "encode_approval_view v =
     JObj ([(''id'', JStr (av_id v)), (''envelope_id'', JStr (av_envelope v)), (''action'', JStr (av_action v)),
            (''resource'', JStr (av_resource v)), (''arguments_hash'', JStr (av_hash v)),
            (''approved_by'', JStr (av_by v)), (''role'', JStr (av_role v)),
            (''expires_at'', JStr (rfc3339_nano (av_expires v))), (''status'', JStr ''APPROVED'')]
           @ (case av_operator v of
                None \<Rightarrow> []
              | Some (o', n) \<Rightarrow>
                  [(''operator_id'', JStr (o_id o')), (''operator_name'', JStr (o_display o')),
                   (''refund_amount'', JNum (show_int n))]))"

definition approval_of :: "draws \<Rightarrow> approval_request \<Rightarrow> string \<Rightarrow> (operator \<times> int) option \<Rightarrow> approval_row" where
  "approval_of w q hash who =
     \<lparr>pr_id = new_id ''approval_'' (d_approval w), pr_envelope = aq_envelope q, pr_action = aq_action q,
      pr_resource = aq_resource q, pr_hash = hash, pr_approver = aq_approved_by q, pr_role = aq_role q,
      pr_expires = micros (inst (aq_expires q)), pr_consumed = None, pr_created = d_txnow w,
      pr_operator = map_option (\<lambda>(o', n). o_id o') who, pr_amount = map_option snd who\<rparr>"

definition view_of :: "approval_request \<Rightarrow> approval_row \<Rightarrow> (operator \<times> int) option \<Rightarrow> approval_view" where
  "view_of q r who =
     \<lparr>av_id = pr_id r, av_envelope = pr_envelope r, av_action = pr_action r, av_resource = pr_resource r,
      av_hash = pr_hash r, av_by = pr_approver r, av_role = pr_role r, av_expires = aq_expires q,
      av_operator = who\<rparr>"

definition approve ::
  "'ctx server \<Rightarrow> draws \<Rightarrow> operator option \<Rightarrow> api_error + approval_request \<Rightarrow> db \<Rightarrow> outcome" where
  "approve s w op body d =
     (if op = None \<and> \<not> srv_demo s
        then Inl (denied ''an authenticated refund manager must approve this request'')
      else if (case op of None \<Rightarrow> False | Some o' \<Rightarrow> o_role o' \<noteq> refund_manager)
        then Inl (denied ''refund_manager role required'')
      else rbind body (\<lambda>q.
           rbind (sign_off op q) (\<lambda>(q, who).
           rbind (load d (aq_envelope q)) (\<lambda>v.
           rbind (active s (d_now w) d v) (\<lambda>_.
           rbind (check_approval_request (st_env v) (d_now w) q) (\<lambda>_.
             let hash = digest (srv_crypto s) (JObj (elems (aq_arguments q)));
                 r = approval_of w q hash who
             in if op \<noteq> None \<and> approval_exists q hash d
                then Inl (Api 409 ''this exact refund already has an approval; do not approve it twice'')
                else rbind (insert_approval r d) (\<lambda>d.
                     rbind (append_audit (srv_crypto s) (d_event w) (d_audit w) (st_run v) ''approval.created''
                         (encode_approval_view (view_of q r who)) d) (\<lambda>d.
                       Inr ((RApproval (view_of q r who), 201), d)))))))))"

section \<open>Deciding an action (action)\<close>

record action_request =
  ac_envelope :: string
  ac_agent :: string
  ac_tool :: string
  ac_resources :: "string slice gomap"
  ac_classes :: "string slice"
  ac_arguments :: "json gomap"

text \<open>The resources asked for, as \<open>category:id\<close>, sorted and without repetitions.\<close>

definition resource_names :: "string slice gomap \<Rightarrow> string list" where
  "resource_names m =
     dedupe (sort (concat (map (\<lambda>(category, ids). map (\<lambda>i. category @ CHR '':'' # i) (elems ids)) (elems m))))"

definition check_requested :: "envelope \<Rightarrow> string slice gomap \<Rightarrow> violation list" where
  "check_requested e m =
     concat (map (\<lambda>(category, ids).
         concat (map (\<lambda>i.
             if CHR '':'' \<in> set category \<or> \<not> resource_allowed (elems (map_get (resources e) category)) i
             then [Violation ''RESOURCE_DENIED'' ''resources'' ''resource is not permitted''] else [])
           (elems ids)))
       (elems m))"

text \<open>Everything \<open>action\<close> rejects before it looks at conditions and approvals.\<close>

definition check_action :: "'ctx server \<Rightarrow> gtime \<Rightarrow> db \<Rightarrow> stored \<Rightarrow> action_request \<Rightarrow> violation list" where
  "check_action s now d v q =
     (case active s now d v of
        Inl e \<Rightarrow> [Violation ''ENVELOPE_INACTIVE'' ''envelope_id'' (error_text e)] | Inr _ \<Rightarrow> [])
     @ (if ac_agent q \<noteq> agent (recipient (st_env v))
        then [Violation ''AGENT_MISMATCH'' ''agent_id'' ''agent is not envelope recipient''] else [])
     @ (if has (elems (denied_actions (st_env v))) (ac_tool q) \<or> \<not> has (elems (allowed_actions (st_env v))) (ac_tool q)
        then [Violation ''ACTION_DENIED'' ''tool'' ''action is not permitted''] else [])
     @ check_requested (st_env v) (ac_resources q)
     @ (if resource_names (ac_resources q) = []
        then [Violation ''RESOURCE_REQUIRED'' ''resources'' ''at least one concrete resource is required''] else [])
     @ concat (map (\<lambda>class. if \<not> has (elems (data_classes (st_env v))) class
           then [Violation ''DATA_DENIED'' ''data_classes'' ''data class is not permitted''] else [])
         (elems (ac_classes q)))"

text \<open>The same converted arguments under four names.\<close>

definition condition_input :: "celval \<Rightarrow> activation" where
  "condition_input args = [(''refund'', args), (''order'', args), (''customer'', args), (''request'', args)]"

text \<open>Conditions are evaluated with exactly the variables they were compiled with.\<close>

lemma condition_input_variables: "map fst (condition_input args) = condition_variables"
  by (simp add: condition_input_def condition_variables_def)

definition action_roles :: "activation server \<Rightarrow> envelope \<Rightarrow> celval \<Rightarrow> string list \<times> violation list" where
  "action_roles s e args =
     (case required_roles (srv_cel s) (elems (approvals e)) (condition_input args) of
        Inl _ \<Rightarrow> ([], [Violation ''CONDITION_ERROR'' ''approvals'' ''approval condition could not be evaluated''])
      | Inr roles \<Rightarrow> (roles, []))"

definition approval_matches :: "action_request \<Rightarrow> string \<Rightarrow> gtime \<Rightarrow> string \<Rightarrow> string \<Rightarrow> approval_row \<Rightarrow> bool" where
  "approval_matches q hash now role res r \<longleftrightarrow>
     pr_envelope r = ac_envelope q \<and> pr_action r = ac_tool q \<and> pr_resource r = res \<and> pr_hash r = hash
     \<and> pr_role r = role \<and> pr_expires r > micros (inst now) \<and> pr_consumed r = None"

text \<open>The oldest matching approval.\<close>

definition find_approval :: "db \<Rightarrow> action_request \<Rightarrow> string \<Rightarrow> gtime \<Rightarrow> string \<Rightarrow> string \<Rightarrow> string option" where
  "find_approval d q hash now role res =
     (case sort_key (\<lambda>r. (pr_created r, pr_id r)) (filter (approval_matches q hash now role res) (t_approvals d)) of
        [] \<Rightarrow> None | r # _ \<Rightarrow> Some (pr_id r))"

definition missing_approval :: "string \<Rightarrow> string \<Rightarrow> violation" where
  "missing_approval role res =
     Violation ''APPROVAL_REQUIRED'' ''approvals'' (''missing valid '' @ role @ '' approval for '' @ res)"

definition pairs :: "string list \<Rightarrow> string list \<Rightarrow> (string \<times> string) list" where
  "pairs roles rs = concat (map (\<lambda>role. map (Pair role) rs) roles)"

definition gather_step ::
  "(string \<Rightarrow> string \<Rightarrow> string option) \<Rightarrow> string \<times> string \<Rightarrow> string list \<times> violation list
    \<Rightarrow> string list \<times> violation list" where
  "gather_step look p acc =
     (case look (fst p) (snd p) of
        None \<Rightarrow> (fst acc, snd acc @ [missing_approval (fst p) (snd p)])
      | Some i \<Rightarrow> (fst acc @ [i], snd acc))"

definition gather_approvals ::
  "(string \<Rightarrow> string \<Rightarrow> string option) \<Rightarrow> string list \<Rightarrow> string list \<Rightarrow> string list \<times> violation list" where
  "gather_approvals look roles rs = fold (gather_step look) (pairs roles rs) ([], [])"

text \<open>The result and the approvals it uses up.\<close>

definition decide :: "activation server \<Rightarrow> gtime \<Rightarrow> db \<Rightarrow> stored \<Rightarrow> action_request \<Rightarrow> string \<Rightarrow> celval
    \<Rightarrow> result \<times> string list" where
  "decide s now d v q hash args =
     (let early = check_action s now d v q;
          (roles, cond) = action_roles s (st_env v) args;
          (ids, missing) = (if early @ cond = []
            then gather_approvals (find_approval d q hash now) roles (resource_names (ac_resources q))
            else ([], []));
          vs = early @ cond @ missing
      in (\<lparr>decision = (if vs = [] then ALLOW else DENY), violations = vs\<rparr>, if vs = [] then ids else []))"

definition json_names :: "string list \<Rightarrow> json" where
  "json_names vs = JArr (map JStr vs)"

definition action_payload :: "draws \<Rightarrow> action_request \<Rightarrow> string \<Rightarrow> string \<Rightarrow> result \<Rightarrow> string list \<Rightarrow> json" where
  "action_payload w q i hash res ids =
     JObj [(''trace_id'', JStr (fst (d_trace w))), (''span_id'', JStr (snd (d_trace w))),
           (''action_id'', JStr i), (''envelope_id'', JStr (ac_envelope q)), (''agent_id'', JStr (ac_agent q)),
           (''tool'', JStr (ac_tool q)), (''arguments_hash'', JStr hash),
           (''resources'', json_names (resource_names (ac_resources q))),
           (''data_classes'', json_strings (ac_classes q)), (''result'', encode_result res),
           (''consumed_approval_ids'', json_names ids)]"

definition action :: "activation server \<Rightarrow> draws \<Rightarrow> api_error + action_request \<Rightarrow> db \<Rightarrow> outcome" where
  "action s w body d =
     rbind body (\<lambda>q.
       if ac_envelope q = [] \<or> ac_agent q = [] \<or> ac_tool q = [] \<or> ac_arguments q = None
       then Inl (bad ''envelope_id, agent_id, tool, and arguments are required'')
       else rbind (load d (ac_envelope q)) (\<lambda>v.
         let kvs = elems (ac_arguments q); hash = digest (srv_crypto s) (JObj kvs)
         in rbind (wrap_error bad (cel_values (JObj kvs))) (\<lambda>args.
           let (res, ids) = decide s (d_now w) d v q hash args;
               i = new_id ''action_'' (d_action w);
               d = fold (consume_approval (micros (inst (d_now w)))) ids d
           in rbind (insert_action
                  \<lparr>ta_id = i, ta_run = st_run v, ta_envelope = ac_envelope q, ta_agent = ac_agent q,
                   ta_tool = ac_tool q, ta_hash = hash, ta_result = res, ta_created = d_txnow w\<rparr> d) (\<lambda>d.
              rbind (record_violations (st_run v) (ac_envelope q) res d) (\<lambda>d.
              rbind (append_audit (srv_crypto s) (d_event w) (d_audit w) (st_run v) ''action.evaluated''
                  (action_payload w q i hash res ids) d) (\<lambda>d.
                Inr ((RAction i res ids, if decision res = DENY then 403 else 200), d)))))))"

section \<open>What the checks mean\<close>

declare concat_eq_Nil_conv [simp del]

lemma has_iff [simp]: "has vs x \<longleftrightarrow> x \<in> set vs"
  by (induction vs) auto

lemma resource_allowed_iff:
  "resource_allowed scopes i \<longleftrightarrow> concrete_id i \<and> (\<exists>scope \<in> set scopes. scope_admits scope i)"
  by (simp add: resource_allowed_def scope_admits_def)

lemma dedupe_steps: "fold dedupe_step vs acc = [] \<longleftrightarrow> acc = [] \<and> vs = []"
  by (induction vs arbitrary: acc) (auto simp: dedupe_step_def)

lemma dedupe_Nil [simp]: "dedupe vs = [] \<longleftrightarrow> vs = []"
  by (simp add: dedupe_def dedupe_steps)

lemma set_dedupe_steps: "set (fold dedupe_step vs acc) = set acc \<union> set vs"
  by (induction vs arbitrary: acc) (auto simp: dedupe_step_def)

lemma set_dedupe [simp]: "set (dedupe vs) = set vs"
  by (simp add: dedupe_def set_dedupe_steps)

lemma dedupe_step_sorted:
  assumes "sorted (acc @ v # vs)" and "distinct acc"
  shows "sorted (dedupe_step v acc @ vs) \<and> distinct (dedupe_step v acc)"
proof (cases "acc = [] \<or> last acc \<noteq> v")
  case True
  have "v \<notin> set acc"
  proof
    assume v: "v \<in> set acc"
    then obtain bs where acc: "acc = bs @ [last acc]" by (metis append_butlast_last_id list.set_cases list.distinct(1))
    have "sorted acc" using assms(1) by (simp add: sorted_append)
    then have "v \<le> last acc" using v acc by (metis Un_iff empty_iff insert_iff list.set order_refl set_append sorted_append)
    moreover have "last acc \<le> v"
      using assms(1) v acc by (metis in_set_conv_decomp last_in_set list.set_intros(1) empty_iff list.set(1) sorted_append)
    ultimately show False using True v by auto
  qed
  with True assms show ?thesis by (simp add: dedupe_step_def)
qed (use assms in \<open>simp add: dedupe_step_def sorted_append\<close>)

lemma dedupe_distinct:
  assumes "sorted vs"
  shows "sorted (dedupe vs) \<and> distinct (dedupe vs)"
proof -
  have "sorted (acc @ vs) \<Longrightarrow> distinct acc \<Longrightarrow>
      sorted (fold dedupe_step vs acc) \<and> distinct (fold dedupe_step vs acc)" for acc
    by (induction vs arbitrary: acc) (simp_all add: dedupe_step_sorted)
  from this [of "[]"] assms show ?thesis by (simp add: dedupe_def)
qed

lemma resource_names_distinct: "distinct (resource_names m)"
  by (simp add: resource_names_def dedupe_distinct)

lemma resource_names_set:
  "set (resource_names m) = {category @ CHR '':'' # i | category ids i. (category, ids) \<in> set (elems m) \<and> i \<in> set (elems ids)}"
  by (force simp: resource_names_def)

text \<open>What a request asks for.\<close>

definition demands :: "action_request \<Rightarrow> demand set" where
  "demands q =
     {DoAction (ac_tool q)}
     \<union> {OnResource k i | k ids i. (k, ids) \<in> set (elems (ac_resources q)) \<and> i \<in> set (elems ids)}
     \<union> ReadData ` set (elems (ac_classes q))"

definition concrete_request :: "action_request \<Rightarrow> bool" where
  "concrete_request q \<longleftrightarrow>
     resource_names (ac_resources q) \<noteq> []
     \<and> (\<forall>(k, ids) \<in> set (elems (ac_resources q)). \<forall>i \<in> set (elems ids). CHR '':'' \<notin> set k \<and> concrete_id i)"

lemma ball_demands:
  "(\<forall>x \<in> demands q. P x) \<longleftrightarrow>
     P (DoAction (ac_tool q))
     \<and> (\<forall>(k, ids) \<in> set (elems (ac_resources q)). \<forall>i \<in> set (elems ids). P (OnResource k i))
     \<and> (\<forall>class \<in> set (elems (ac_classes q)). P (ReadData class))"
  by (auto simp: demands_def split_beta) fastforce

lemma check_requested_Nil:
  "check_requested e m = [] \<longleftrightarrow>
     (\<forall>(k, ids) \<in> set (elems m). \<forall>i \<in> set (elems ids).
        CHR '':'' \<notin> set k \<and> concrete_id i \<and> permits e (OnResource k i))"
  unfolding check_requested_def concat_map_eq_Nil
  by (simp add: concat_map_eq_Nil split_beta resource_allowed_iff conj_commute conj_left_commute)

lemma check_action_Nil:
  "check_action s now d v q = [] \<longleftrightarrow>
     active s now d v = Inr () \<and> ac_agent q = agent (recipient (st_env v)) \<and> concrete_request q
     \<and> (\<forall>x \<in> demands q. permits (st_env v) x)"
proof -
  note ball_demands [of q "permits (st_env v)"]
  moreover have "(case active s now d v of Inl e \<Rightarrow> [f e] | Inr _ \<Rightarrow> []) = [] \<longleftrightarrow> active s now d v = Inr ()"
    for f :: "api_error \<Rightarrow> violation" by (simp split: sum.split)
  ultimately show ?thesis
    unfolding check_action_def append_is_Nil_conv if_singleton_eq_Nil concat_map_eq_Nil check_requested_Nil
      concrete_request_def by auto
qed

section \<open>The approvals an action uses\<close>

lemma find_approval_Some:
  assumes "find_approval d q hash now role res = Some i"
  shows "\<exists>r \<in> set (t_approvals d). pr_id r = i \<and> approval_matches q hash now role res r"
proof -
  obtain r rs where
    "sort_key (\<lambda>r. (pr_created r, pr_id r)) (filter (approval_matches q hash now role res) (t_approvals d)) = r # rs"
    and i: "pr_id r = i"
    using assms by (auto simp: find_approval_def split: list.splits)
  then have "r \<in> set (filter (approval_matches q hash now role res) (t_approvals d))"
    by (metis list.set_intros(1) set_sort)
  with i show ?thesis by auto
qed

lemma find_approval_None:
  "find_approval d q hash now role res = None \<longleftrightarrow>
     (\<forall>r \<in> set (t_approvals d). \<not> approval_matches q hash now role res r)"
proof -
  have "find_approval d q hash now role res = None \<longleftrightarrow>
      sort_key (\<lambda>r. (pr_created r, pr_id r)) (filter (approval_matches q hash now role res) (t_approvals d)) = []"
    unfolding find_approval_def by (simp split: list.split)
  also have "\<dots> \<longleftrightarrow> filter (approval_matches q hash now role res) (t_approvals d) = []"
    by (metis set_empty set_sort)
  finally show ?thesis by (simp add: filter_empty_conv)
qed

lemma pairs_set: "set (pairs roles rs) = set roles \<times> set rs"
  by (auto simp: pairs_def)

lemma pairs_distinct: "distinct roles \<Longrightarrow> distinct rs \<Longrightarrow> distinct (pairs roles rs)"
  by (induction roles) (auto simp: pairs_def distinct_map inj_on_def)

lemma gather_fold:
  "fold (gather_step look) ps (ids, ms) =
     (ids @ concat (map (\<lambda>p. case look (fst p) (snd p) of None \<Rightarrow> [] | Some i \<Rightarrow> [i]) ps),
      ms @ concat (map (\<lambda>p. case look (fst p) (snd p) of None \<Rightarrow> [missing_approval (fst p) (snd p)] | Some i \<Rightarrow> []) ps))"
  by (induction ps arbitrary: ids ms) (auto simp: gather_step_def split: option.split)

lemma gather_complete:
  "snd (gather_approvals look roles rs) = [] \<longleftrightarrow> (\<forall>role \<in> set roles. \<forall>x \<in> set rs. look role x \<noteq> None)"
  unfolding gather_approvals_def gather_fold snd_conv append_Nil concat_map_eq_Nil pairs_set
  by (auto split: option.splits)

lemma gather_ids:
  assumes "snd (gather_approvals look roles rs) = []"
  shows "fst (gather_approvals look roles rs) = map (\<lambda>p. the (look (fst p) (snd p))) (pairs roles rs)"
proof -
  have "concat (map (\<lambda>p. case look (fst p) (snd p) of None \<Rightarrow> [] | Some i \<Rightarrow> [i]) ps)
      = map (\<lambda>p. the (look (fst p) (snd p))) ps"
    if "\<forall>p \<in> set ps. look (fst p) (snd p) \<noteq> None" for ps
    using that by (induction ps) auto
  moreover have "\<forall>p \<in> set (pairs roles rs). look (fst p) (snd p) \<noteq> None"
    using assms unfolding gather_complete pairs_set by auto
  ultimately show ?thesis
    unfolding gather_approvals_def gather_fold fst_conv append_Nil by simp
qed

section \<open>What a decision means\<close>

text \<open>\<open>approved d q hash now role x\<close>: an unused, unexpired approval of exactly this action is stored.\<close>

definition approved :: "db \<Rightarrow> action_request \<Rightarrow> string \<Rightarrow> gtime \<Rightarrow> string \<Rightarrow> string \<Rightarrow> bool" where
  "approved d q hash now role x \<longleftrightarrow> (\<exists>r \<in> set (t_approvals d). approval_matches q hash now role x r)"

definition roles_required :: "activation server \<Rightarrow> envelope \<Rightarrow> celval \<Rightarrow> string + string list" where
  "roles_required s e args = required_roles (srv_cel s) (elems (approvals e)) (condition_input args)"

lemma find_approval_approved: "find_approval d q hash now role x \<noteq> None \<longleftrightarrow> approved d q hash now role x"
  using find_approval_None [of d q hash now role x] by (auto simp: approved_def)

lemma gather_approved:
  "snd (gather_approvals (find_approval d q hash now) roles rs) = [] \<longleftrightarrow>
     (\<forall>role \<in> set roles. \<forall>x \<in> set rs. approved d q hash now role x)"
  by (simp only: gather_complete find_approval_approved)

lemma action_roles_ok: "action_roles s e args = (roles, []) \<longleftrightarrow> roles_required s e args = Inr roles"
  by (auto simp: action_roles_def roles_required_def split: sum.split)

lemma decide_ALLOW:
  "decision (fst (decide s now d v q hash args)) = ALLOW \<longleftrightarrow>
     check_action s now d v q = []
     \<and> (\<exists>roles. roles_required s (st_env v) args = Inr roles
          \<and> (\<forall>role \<in> set roles. \<forall>x \<in> set (resource_names (ac_resources q)). approved d q hash now role x))"
proof (cases "action_roles s (st_env v) args")
  case (Pair roles cond)
  have r: "roles_required s (st_env v) args = Inr rs \<longleftrightarrow> cond = [] \<and> rs = roles" for rs
    using action_roles_ok [of s "st_env v" args rs] Pair by auto
  show ?thesis
    using gather_approved [of d q hash now roles "resource_names (ac_resources q)"]
    by (auto simp: decide_def Let_def Pair r split_beta)
qed

lemma decide_decision: "decision (fst (decide s now d v q hash args)) \<in> {ALLOW, DENY}"
  by (simp add: decide_def Let_def split_beta)

lemma decide_DENY_keeps:
  "decision (fst (decide s now d v q hash args)) \<noteq> ALLOW \<Longrightarrow> snd (decide s now d v q hash args) = []"
  by (auto simp: decide_def Let_def split_beta)

text \<open>The approvals of an allowed action: one for every role and resource.\<close>

lemma decide_ids:
  assumes "decision (fst (decide s now d v q hash args)) = ALLOW"
    and "roles_required s (st_env v) args = Inr roles"
  shows "snd (decide s now d v q hash args)
    = map (\<lambda>(role, x). the (find_approval d q hash now role x)) (pairs roles (resource_names (ac_resources q)))"
proof -
  have r: "action_roles s (st_env v) args = (roles, [])" using assms(2) by (simp add: action_roles_ok)
  let ?g = "gather_approvals (find_approval d q hash now) roles (resource_names (ac_resources q))"
  have c: "check_action s now d v q = []" and m: "snd ?g = []"
    using assms r decide_ALLOW [of s now d v q hash args]
    by (auto simp: gather_approved)
  show ?thesis
    using gather_ids [OF m] by (simp add: decide_def Let_def r c m split_beta)
qed

lemma find_approval_row:
  "approved d q hash now role x \<Longrightarrow>
     \<exists>r \<in> set (t_approvals d). pr_id r = the (find_approval d q hash now role x) \<and> approval_matches q hash now role x r"
  using find_approval_approved [of d q hash now role x] find_approval_Some [of d q hash now role x] by auto

lemma decide_ids_rows:
  assumes "decision (fst (decide s now d v q hash args)) = ALLOW"
    and "i \<in> set (snd (decide s now d v q hash args))"
  shows "\<exists>r \<in> set (t_approvals d). pr_id r = i \<and> pr_consumed r = None \<and> pr_envelope r = ac_envelope q
    \<and> pr_action r = ac_tool q \<and> pr_hash r = hash \<and> pr_expires r > micros (inst now)"
proof -
  obtain roles where r: "roles_required s (st_env v) args = Inr roles"
    and ok: "\<forall>role \<in> set roles. \<forall>x \<in> set (resource_names (ac_resources q)). approved d q hash now role x"
    using assms(1) by (auto simp: decide_ALLOW)
  obtain role x where "role \<in> set roles" "x \<in> set (resource_names (ac_resources q))"
    and i: "i = the (find_approval d q hash now role x)"
    using assms(2) unfolding decide_ids [OF assms(1) r] by (auto simp: pairs_set)
  with ok find_approval_row [of d q hash now role x] show ?thesis
    by (auto simp: approval_matches_def)
qed

lemma decide_ids_distinct:
  assumes "distinct (map pr_id (t_approvals d))"
  shows "distinct (snd (decide s now d v q hash args))"
proof (cases "decision (fst (decide s now d v q hash args)) = ALLOW")
  case True
  then obtain roles where r: "roles_required s (st_env v) args = Inr roles"
    and ok: "\<forall>role \<in> set roles. \<forall>x \<in> set (resource_names (ac_resources q)). approved d q hash now role x"
    by (auto simp: decide_ALLOW)
  let ?ps = "pairs roles (resource_names (ac_resources q))"
  have "distinct roles"
    using r required_roles_sorted_distinct unfolding roles_required_def by metis
  then have "distinct ?ps" by (simp add: pairs_distinct resource_names_distinct)
  moreover have "inj_on (\<lambda>(role, x). the (find_approval d q hash now role x)) (set ?ps)"
  proof (rule inj_onI, clarsimp simp: pairs_set)
    fix a x b y
    assume ax: "a \<in> set roles" "x \<in> set (resource_names (ac_resources q))"
      and by': "b \<in> set roles" "y \<in> set (resource_names (ac_resources q))"
      and eq: "the (find_approval d q hash now a x) = the (find_approval d q hash now b y)"
    obtain r where r: "r \<in> set (t_approvals d)" "pr_id r = the (find_approval d q hash now a x)"
      "pr_role r = a" "pr_resource r = x"
      using find_approval_row ok ax by (force simp: approval_matches_def)
    obtain r' where r': "r' \<in> set (t_approvals d)" "pr_id r' = the (find_approval d q hash now b y)"
      "pr_role r' = b" "pr_resource r' = y"
      using find_approval_row ok by' by (force simp: approval_matches_def)
    have "r = r'" using assms r(1,2) r'(1,2) eq by (auto simp: distinct_map inj_on_def)
    with r r' show "a = b \<and> x = y" by simp
  qed
  ultimately show ?thesis unfolding decide_ids [OF True r] by (simp add: distinct_map)
qed (simp add: decide_DENY_keeps)

section \<open>What the handlers do to the database\<close>

abbreviation arguments_hash :: "'ctx server \<Rightarrow> json gomap \<Rightarrow> string" where
  "arguments_hash s arguments \<equiv> digest (srv_crypto s) (JObj (elems arguments))"

lemma action_Inr:
  assumes "action s w (Inr q) d = Inr ((resp, status), d')"
  obtains v args res ids where "load d (ac_envelope q) = Inr v"
    and "cel_values (JObj (elems (ac_arguments q))) = Inr args"
    and "decide s (d_now w) d v q (arguments_hash s (ac_arguments q)) args = (res, ids)"
    and "resp = RAction (new_id ''action_'' (d_action w)) res ids"
    and "status = (if decision res = DENY then 403 else 200)"
    and "t_runs d' = t_runs d" "t_envelopes d' = t_envelopes d" "has_run d (st_run v)"
    and "t_approvals d' = map (\<lambda>r. if pr_id r \<in> set ids then r\<lparr>pr_consumed := Some (micros (inst (d_now w)))\<rparr> else r)
           (t_approvals d)"
    and "t_audit d' = t_audit d @ [audit_event (srv_crypto s) (d_event w) (d_audit w) (st_run v) ''action.evaluated''
           (action_payload w q (new_id ''action_'' (d_action w)) (arguments_hash s (ac_arguments q)) res ids) d]"
proof -
  have complete: "\<not> (ac_envelope q = [] \<or> ac_agent q = [] \<or> ac_tool q = [] \<or> ac_arguments q = None)"
    using assms by (auto simp: action_def split: if_splits)
  from assms obtain v args res ids d1 d2 where 1: "load d (ac_envelope q) = Inr v"
    "cel_values (JObj (elems (ac_arguments q))) = Inr args"
    "decide s (d_now w) d v q (arguments_hash s (ac_arguments q)) args = (res, ids)"
    "resp = RAction (new_id ''action_'' (d_action w)) res ids"
    "status = (if decision res = DENY then 403 else 200)"
    and 2: "insert_action
                  \<lparr>ta_id = new_id ''action_'' (d_action w), ta_run = st_run v, ta_envelope = ac_envelope q,
                   ta_agent = ac_agent q, ta_tool = ac_tool q, ta_hash = arguments_hash s (ac_arguments q),
                   ta_result = res, ta_created = d_txnow w\<rparr>
             (fold (consume_approval (micros (inst (d_now w)))) ids d) = Inr d1"
    and 3: "record_violations (st_run v) (ac_envelope q) res d1 = Inr d2"
    and 4: "append_audit (srv_crypto s) (d_event w) (d_audit w) (st_run v) ''action.evaluated''
           (action_payload w q (new_id ''action_'' (d_action w)) (arguments_hash s (ac_arguments q)) res ids) d2 = Inr d'"
    unfolding action_def rbind_Inr if_not_P [OF complete] Let_def case_prod_unfold
    by (clarsimp simp: result_simps simp del: cel_values.simps) (metis prod.collapse)
  show thesis
    by (rule that [OF 1])
      (use insert_action_Inr [OF 2] record_violations_Inr [OF 3] append_audit_Inr [OF 4] in
        \<open>auto simp: consumed_rows audit_event_def last_hash_def events_of_def has_run_def\<close>)
qed

lemma approve_Inr:
  assumes "approve s w op (Inr q0) d = Inr ((resp, status), d')"
  obtains q who v where "sign_off op q0 = Inr (q, who)" and "load d (aq_envelope q) = Inr v"
    and "active s (d_now w) d v = Inr ()" and "check_approval_request (st_env v) (d_now w) q = Inr ()"
    and "op = None \<longrightarrow> srv_demo s" and "\<forall>o'. op = Some o' \<longrightarrow> o_role o' = refund_manager"
    and "op \<noteq> None \<longrightarrow> \<not> approval_exists q (arguments_hash s (aq_arguments q)) d"
    and "resp = RApproval (view_of q (approval_of w q (arguments_hash s (aq_arguments q)) who) who)"
    and "status = 201"
    and "t_runs d' = t_runs d" "t_envelopes d' = t_envelopes d" "has_run d (st_run v)"
    and "t_approvals d' = t_approvals d @ [approval_of w q (arguments_hash s (aq_arguments q)) who]"
    and "pr_id (approval_of w q (arguments_hash s (aq_arguments q)) who) \<notin> pr_id ` set (t_approvals d)"
    and "t_audit d' = t_audit d @ [audit_event (srv_crypto s) (d_event w) (d_audit w) (st_run v) ''approval.created''
           (encode_approval_view (view_of q (approval_of w q (arguments_hash s (aq_arguments q)) who) who)) d]"
proof -
  from assms obtain q who v d1 where 1: "sign_off op q0 = Inr (q, who)" "load d (aq_envelope q) = Inr v"
    "active s (d_now w) d v = Inr ()" "check_approval_request (st_env v) (d_now w) q = Inr ()"
    "op = None \<longrightarrow> srv_demo s" "\<forall>o'. op = Some o' \<longrightarrow> o_role o' = refund_manager"
    "op \<noteq> None \<longrightarrow> \<not> approval_exists q (arguments_hash s (aq_arguments q)) d"
    "resp = RApproval (view_of q (approval_of w q (arguments_hash s (aq_arguments q)) who) who)" "status = 201"
    and 2: "insert_approval (approval_of w q (arguments_hash s (aq_arguments q)) who) d = Inr d1"
    and 3: "append_audit (srv_crypto s) (d_event w) (d_audit w) (st_run v) ''approval.created''
         (encode_approval_view (view_of q (approval_of w q (arguments_hash s (aq_arguments q)) who) who)) d1 = Inr d'"
    by (auto simp: approve_def result_simps Let_def split: if_splits prod.splits option.splits)
  show thesis
    by (rule that [OF 1])
      (use insert_approval_Inr [OF 2] append_audit_Inr [OF 3] in
        \<open>auto simp: audit_event_def last_hash_def events_of_def has_run_def\<close>)
qed

section \<open>When the handlers succeed\<close>

lemma action_ok:
  assumes "\<not> (ac_envelope q = [] \<or> ac_agent q = [] \<or> ac_tool q = [] \<or> ac_arguments q = None)"
    and "load d (ac_envelope q) = Inr v" and "cel_values (JObj (elems (ac_arguments q))) = Inr args"
    and "decide s (d_now w) d v q (arguments_hash s (ac_arguments q)) args = (res, ids)"
    and "insert_action
          \<lparr>ta_id = new_id ''action_'' (d_action w), ta_run = st_run v, ta_envelope = ac_envelope q,
           ta_agent = ac_agent q, ta_tool = ac_tool q, ta_hash = arguments_hash s (ac_arguments q),
           ta_result = res, ta_created = d_txnow w\<rparr>
         (fold (consume_approval (micros (inst (d_now w)))) ids d) = Inr d1"
    and "record_violations (st_run v) (ac_envelope q) res d1 = Inr d2"
    and "append_audit (srv_crypto s) (d_event w) (d_audit w) (st_run v) ''action.evaluated''
          (action_payload w q (new_id ''action_'' (d_action w)) (arguments_hash s (ac_arguments q)) res ids) d2 = Inr d3"
  shows "action s w (Inr q) d
    = Inr ((RAction (new_id ''action_'' (d_action w)) res ids, if decision res = DENY then 403 else 200), d3)"
  unfolding action_def rbind_Inr if_not_P [OF assms(1)] assms(2) Let_def assms(3)
  by (simp add: assms(4-) wrap_error_def)

lemma approve_ok:
  assumes "op = None \<longrightarrow> srv_demo s" and "\<forall>o'. op = Some o' \<longrightarrow> o_role o' = refund_manager"
    and "sign_off op q0 = Inr (q, who)" and "load d (aq_envelope q) = Inr v"
    and "active s (d_now w) d v = Inr ()" and "check_approval_request (st_env v) (d_now w) q = Inr ()"
    and "op \<noteq> None \<longrightarrow> \<not> approval_exists q (arguments_hash s (aq_arguments q)) d"
    and "r = approval_of w q (arguments_hash s (aq_arguments q)) who" and "insert_approval r d = Inr d1"
    and "append_audit (srv_crypto s) (d_event w) (d_audit w) (st_run v) ''approval.created''
         (encode_approval_view (view_of q r who)) d1 = Inr d2"
  shows "approve s w op (Inr q0) d = Inr ((RApproval (view_of q r who), 201), d2)"
  using assms by (auto simp: approve_def Let_def split: option.split)

end
