(* ===== verification/Ledger.thy ===== *)
theory Ledger
  imports Actions
begin

text \<open>
  The ledger: runs, envelopes, approvals and audit events.  \<open>ledger_step\<close> is its abstract state
  machine, with one rule per way a request changes it; every handler that succeeds is such a step
  (\<open>create_step\<close>, \<open>handoff_step\<close>, \<open>revoke_step\<close>, \<open>approve_step\<close>, \<open>action_step\<close>).  Invariants are
  proved once, by rule induction on the machine.
\<close>

section \<open>Audit events\<close>

lemma audit_event_fields [simp]:
  "au_run (audit_event c r n run kind payload d) = run"
  "au_type (audit_event c r n run kind payload d) = kind"
  "au_payload (audit_event c r n run kind payload d) = payload"
  "au_previous (audit_event c r n run kind payload d) = last_hash run d"
  by (simp_all add: audit_event_def Let_def)

lemma audit_event_intact: "event_intact c (last_hash run d) (audit_event c r n run kind payload d)"
  by (simp add: event_intact_def audit_event_def Let_def row_header_def utc_def)

fun linked_events :: "crypto \<Rightarrow> string \<Rightarrow> audit_row list \<Rightarrow> bool" where
  "linked_events c previous [] = True"
| "linked_events c previous (e # es) \<longleftrightarrow> event_intact c previous e \<and> linked_events c (au_hash e) es"

definition head_hash :: "string \<Rightarrow> audit_row list \<Rightarrow> string" where
  "head_hash start es = (case rev es of [] \<Rightarrow> start | e # _ \<Rightarrow> au_hash e)"

lemma head_hash_simps [simp]:
  "head_hash start [] = start" "head_hash start (es @ [e]) = au_hash e"
  "head_hash start (e # es) = head_hash (au_hash e) es"
  by (simp_all add: head_hash_def split: list.split)

lemma last_hash_head: "last_hash run d = head_hash [] (events_of run d)"
  by (simp add: last_hash_def head_hash_def)

lemma linked_append [simp]:
  "linked_events c p (es @ fs) \<longleftrightarrow> linked_events c p es \<and> linked_events c (head_hash p es) fs"
  by (induction es arbitrary: p) auto

definition event_pairs :: "audit_row \<Rightarrow> (string \<times> string) list" where
  "event_pairs e =
     (case event_snapshot (au_type e) (au_payload e) of
        None \<Rightarrow> [] | Some v \<Rightarrow> [(field_text v ''id'', field_text v ''signature'')])"

definition row_pair :: "env_row \<Rightarrow> string \<times> string" where
  "row_pair r = (er_id r, case er_doc r of None \<Rightarrow> [] | Some v \<Rightarrow> signature v)"

lemma encode_envelope_fields:
  "json_field (encode_envelope v) ''id'' = Some (JStr (env_id v))"
  "signature v \<noteq> [] \<Longrightarrow> json_field (encode_envelope v) ''signature'' = Some (JStr (signature v))"
  by (simp_all add: encode_envelope_def omit_empty_def)

lemma encode_envelope_text:
  "field_text (encode_envelope v) ''id'' = env_id v"
  "signature v \<noteq> [] \<Longrightarrow> field_text (encode_envelope v) ''signature'' = signature v"
  by (simp_all add: field_text_def encode_envelope_fields)

lemma encode_envelope_object [simp]: "as_object (encode_envelope v) = Some (encode_envelope v)"
  by (simp add: encode_envelope_def)

lemma created_snapshot: "event_snapshot ''envelope.created'' (encode_envelope v) = Some (encode_envelope v)"
  by (simp add: event_snapshot_def)

lemma handoff_snapshot:
  "event_snapshot ''handoff.evaluated'' (handoff_payload hid i v kept res)
     = (if kept then Some (encode_envelope v) else None)"
  by (simp add: event_snapshot_def handoff_payload_def)

lemma other_snapshots [simp]:
  "event_snapshot ''envelope.revoked'' payload = None"
  "event_snapshot ''approval.created'' payload = None"
  "event_snapshot ''action.evaluated'' payload = None"
  by (simp_all add: event_snapshot_def)

section \<open>The abstract machine\<close>

definition server_ok :: "'ctx server \<Rightarrow> bool" where
  "server_ok s \<longleftrightarrow> key_pair (srv_crypto s) (srv_key s) (srv_pub s)"

text \<open>An envelope this server has issued.\<close>

definition issued :: "'ctx server \<Rightarrow> envelope \<Rightarrow> bool" where
  "issued s v \<longleftrightarrow> verify (srv_crypto s) v (srv_pub s) = Inr () \<and> signature v \<noteq> [] \<and> env_id v \<noteq> []"

definition same_ledger :: "db \<Rightarrow> db \<Rightarrow> bool" where
  "same_ledger d d' \<longleftrightarrow>
     t_runs d' = t_runs d \<and> t_envelopes d' = t_envelopes d \<and> t_approvals d' = t_approvals d
     \<and> t_audit d' = t_audit d"

inductive ledger_step :: "'ctx server \<Rightarrow> db \<Rightarrow> db \<Rightarrow> bool" for s d d' where
  quiet: "same_ledger d d' \<Longrightarrow> ledger_step s d d'"
| opened:
    "\<lbrakk>issued s v; root_ok v; \<not> has_run d run; \<not> has_envelope d (env_id v);
      t_runs d' = t_runs d @ [(run, t)]; t_envelopes d' = t_envelopes d @ [row_of run v t];
      t_approvals d' = t_approvals d;
      t_audit d' = t_audit d @ [audit_event (srv_crypto s) r n run ''envelope.created'' (encode_envelope v) d]\<rbrakk>
     \<Longrightarrow> ledger_step s d d'"
| delegated:
    "\<lbrakk>load d i = Inr p; active s now d p = Inr (); allows (srv_cel s) now (st_env p) v; issued s v;
      \<not> has_envelope d (env_id v); t_runs d' = t_runs d;
      t_envelopes d' = t_envelopes d @ [row_of (st_run p) v t]; t_approvals d' = t_approvals d;
      t_audit d' = t_audit d @ [audit_event (srv_crypto s) r n (st_run p) ''handoff.evaluated''
        (handoff_payload hid i v True res) d]\<rbrakk>
     \<Longrightarrow> ledger_step s d d'"
| noted:
    "\<lbrakk>event_snapshot kind payload = None; t_runs d' = t_runs d; t_envelopes d' = t_envelopes d;
      t_approvals d' = t_approvals d;
      t_audit d' = t_audit d @ [audit_event (srv_crypto s) r n run kind payload d]\<rbrakk>
     \<Longrightarrow> ledger_step s d d'"
| revoked:
    "\<lbrakk>load d i = Inr v; st_revoked v = None; event_snapshot kind payload = None; t_runs d' = t_runs d;
      t_envelopes d' = map (\<lambda>r. if er_id r = i then r\<lparr>er_revoked := Some t\<rparr> else r) (t_envelopes d);
      t_approvals d' = t_approvals d;
      t_audit d' = t_audit d @ [audit_event (srv_crypto s) r n (st_run v) kind payload d]\<rbrakk>
     \<Longrightarrow> ledger_step s d d'"
| approval_added:
    "\<lbrakk>load d i = Inr v; active s now d v = Inr (); pr_envelope a = i; pr_consumed a = None;
      pr_id a \<notin> pr_id ` set (t_approvals d); event_snapshot kind payload = None;
      t_runs d' = t_runs d; t_envelopes d' = t_envelopes d; t_approvals d' = t_approvals d @ [a];
      t_audit d' = t_audit d @ [audit_event (srv_crypto s) r n run kind payload d]\<rbrakk>
     \<Longrightarrow> ledger_step s d d'"
| acted:
    "\<lbrakk>\<forall>i \<in> set ids. \<exists>a \<in> set (t_approvals d). pr_id a = i \<and> pr_consumed a = None;
      event_snapshot kind payload = None; t_runs d' = t_runs d; t_envelopes d' = t_envelopes d;
      t_approvals d' = map (\<lambda>a. if pr_id a \<in> set ids then a\<lparr>pr_consumed := Some t\<rparr> else a) (t_approvals d);
      t_audit d' = t_audit d @ [audit_event (srv_crypto s) r n run kind payload d]\<rbrakk>
     \<Longrightarrow> ledger_step s d d'"

section \<open>The handlers are steps\<close>

lemma signed_issued:
  assumes "server_ok s" and "sign (srv_crypto s) e (srv_key s) = Inr sig" and "env_id e \<noteq> []"
  shows "issued s (e\<lparr>signature := sig\<rparr>)"
  using verify_signed [of "srv_crypto s" "srv_key s" "srv_pub s" e sig] assms
  by (simp add: issued_def server_ok_def)

lemma fill_ids: "env_id (fill_root rand v) \<noteq> []" "env_id (fill_child rand i v) \<noteq> []"
  by (simp_all add: fill_root_def fill_child_def new_env_id_def)

lemma allows_parent: "allows c now p v \<Longrightarrow> parent_envelope v = env_id p"
  by (simp add: allows_iff lineage_ok_def)

lemma create_step:
  assumes "server_ok s" and "create s w (Inr q) d = Inr (y, d')"
  shows "ledger_step s d d'"
proof -
  obtain resp status where "create s w (Inr q) d = Inr ((resp, status), d')"
    using assms(2) by (cases y) simp
  then show ?thesis
  proof (cases rule: create_Inr)
    case rejected
    then show ?thesis by (intro quiet) (simp add: same_ledger_def)
  next
    case (created v sig)
    then show ?thesis
      using signed_issued [OF assms(1) created(2) fill_ids(1)] by (intro opened [of s v]) simp_all
  qed
qed

lemma handoff_step:
  assumes "server_ok s" and "evaluate_handoff s w i proposed persist d = Inr (y, d')"
  shows "ledger_step s d d'"
proof -
  obtain resp status where "evaluate_handoff s w i proposed persist d = Inr ((resp, status), d')"
    using assms(2) by (cases y) simp
  then show ?thesis
  proof (cases rule: evaluate_handoff_Inr)
    case (1 parent child kept res)
    show ?thesis
    proof (cases kept)
      case True
      then obtain sig where sig: "sign (srv_crypto s) (fill_child (d_env w) i proposed) (srv_key s) = Inr sig"
        "child = (fill_child (d_env w) i proposed)\<lparr>signature := sig\<rparr>"
        using 1(4) by auto
      have "allows (srv_cel s) (d_now w) (st_env parent) (fill_child (d_env w) i proposed)
          \<and> active s (d_now w) d parent = Inr ()"
        using 1(2,3) True judge_handoff_ALLOW by blast
      then have "allows (srv_cel s) (d_now w) (st_env parent) child" "active s (d_now w) d parent = Inr ()"
        unfolding sig by (simp_all add: allows_iff policy_ok_def lineage_ok_def authority_narrows_def approvals_inherited_def)
      then show ?thesis
        using 1 True signed_issued [OF assms(1) sig(1) fill_ids(2)] sig(2)
        by (intro delegated [of d i parent s "d_now w" child]) simp_all
    next
      case False
      with 1 show ?thesis
        by (intro noted [of "''handoff.evaluated''" "handoff_payload (new_id ''handoff_'' (d_handoff w)) i child False res"])
          (simp_all add: handoff_snapshot)
    qed
  qed
qed

lemma revoke_step:
  assumes "revoke s w i d = Inr (y, d')"
  shows "ledger_step s d d'"
proof -
  obtain resp status where "revoke s w i d = Inr ((resp, status), d')"
    using assms by (cases y) simp
  then show ?thesis
  proof (cases rule: revoke_Inr)
    case (again v)
    then show ?thesis by (intro quiet) (simp add: same_ledger_def)
  next
    case (revoked v)
    then show ?thesis by (intro ledger_step.revoked [where i = i and v = v and t = "d_txnow w" and kind = "''envelope.revoked''"]) simp_all
  qed
qed

lemma sign_off_fields:
  "sign_off op q0 = Inr (q, who) \<Longrightarrow> aq_envelope q = aq_envelope q0 \<and> aq_action q = aq_action q0
     \<and> aq_resource q = aq_resource q0 \<and> aq_arguments q = aq_arguments q0 \<and> aq_expires q = aq_expires q0"
  by (auto simp: sign_off_def split: option.splits if_splits)

lemma approve_step:
  assumes "approve s w op (Inr q) d = Inr (y, d')"
  shows "ledger_step s d d'"
proof -
  obtain resp status where "approve s w op (Inr q) d = Inr ((resp, status), d')"
    using assms by (cases y) simp
  then show ?thesis
  proof (cases rule: approve_Inr)
    case (1 q' who v)
    then show ?thesis
      by (intro approval_added [of d "aq_envelope q'" v s "d_now w"
            "approval_of w q' (arguments_hash s (aq_arguments q')) who"]) (simp_all add: approval_of_def)
  qed
qed

lemma action_step:
  assumes "action s w (Inr q) d = Inr (y, d')"
  shows "ledger_step s d d'"
proof -
  obtain resp status where "action s w (Inr q) d = Inr ((resp, status), d')"
    using assms by (cases y) simp
  then show ?thesis
  proof (cases rule: action_Inr)
    case (1 v args res ids)
    have "\<exists>a \<in> set (t_approvals d). pr_id a = i \<and> pr_consumed a = None" if "i \<in> set ids" for i
      using decide_ids_rows [of s "d_now w" d v q "arguments_hash s (ac_arguments q)" args i]
        decide_DENY_keeps [of s "d_now w" d v q "arguments_hash s (ac_arguments q)" args] 1(3) that
      by (cases "decision res = ALLOW") auto
    then show ?thesis using 1 by (intro acted [where ids = ids and t = "micros (inst (d_now w))"]) simp_all
  qed
qed

section \<open>Interfaces of the machine\<close>

text \<open>A system with an invariant, and a system whose states only grow.\<close>

locale invariant_system =
  fixes init :: 's and step :: "'s \<Rightarrow> 's \<Rightarrow> bool" and inv :: "'s \<Rightarrow> bool"
  assumes inv_init: "inv init" and inv_step: "inv x \<Longrightarrow> step x y \<Longrightarrow> inv y"
begin

lemma inv_steps: "step\<^sup>*\<^sup>* x y \<Longrightarrow> inv x \<Longrightarrow> inv y"
  by (induction rule: rtranclp_induct) (auto intro: inv_step)

lemma reachable_inv: "step\<^sup>*\<^sup>* init y \<Longrightarrow> inv y"
  using inv_steps inv_init by blast

end

locale growing_system =
  fixes step :: "'s \<Rightarrow> 's \<Rightarrow> bool" and grows :: "'s \<Rightarrow> 's \<Rightarrow> bool"
  assumes grows_refl: "grows x x" and grows_trans: "grows x y \<Longrightarrow> grows y z \<Longrightarrow> grows x z"
    and step_grows: "step x y \<Longrightarrow> grows x y"
begin

lemma steps_grow:
  assumes "step\<^sup>*\<^sup>* x y"
  shows "grows x y"
  using assms by (induction) (auto intro: grows_refl grows_trans step_grows)

end

section \<open>The ledger invariant\<close>

text \<open>
  Every stored envelope was issued by this server, is stored under its id with its parent reference,
  and has its parent in the same run; every run's events form a hash chain whose snapshots are
  exactly the run's envelopes, in the order they were stored.
\<close>

definition row_ok :: "'ctx server \<Rightarrow> env_row list \<Rightarrow> env_row \<Rightarrow> bool" where
  "row_ok s rows r \<longleftrightarrow>
     (case er_doc r of
        None \<Rightarrow> False
      | Some v \<Rightarrow>
          env_id v = er_id r \<and> issued s v
          \<and> er_parent r = (if parent_envelope v \<noteq> [] then Some (parent_envelope v) else None)
          \<and> (if parent_envelope v = [] then root_ok v
             else \<exists>p \<in> set rows. er_id p = parent_envelope v \<and> er_run p = er_run r))"

definition run_pairs :: "string \<Rightarrow> db \<Rightarrow> (string \<times> string) list" where
  "run_pairs run d = concat (map event_pairs (events_of run d))"

definition row_pairs :: "string \<Rightarrow> db \<Rightarrow> (string \<times> string) list" where
  "row_pairs run d = map row_pair (filter (\<lambda>r. er_run r = run) (t_envelopes d))"

definition ledger_ok :: "'ctx server \<Rightarrow> db \<Rightarrow> bool" where
  "ledger_ok s d \<longleftrightarrow>
     distinct (map er_id (t_envelopes d)) \<and> distinct (map pr_id (t_approvals d))
     \<and> (\<forall>r \<in> set (t_envelopes d). row_ok s (t_envelopes d) r)
     \<and> (\<forall>run. linked_events (srv_crypto s) [] (events_of run d))
     \<and> (\<forall>run. run_pairs run d = row_pairs run d)
     \<and> (\<forall>run. has_run d run \<longrightarrow> events_of run d \<noteq> [])"

lemma events_of_append:
  "t_audit d' = t_audit d @ [e] \<Longrightarrow> events_of run d' = events_of run d @ (if au_run e = run then [e] else [])"
  by (simp add: events_of_def)

lemma linked_after_append:
  assumes "t_audit d' = t_audit d @ [audit_event c r n run kind payload d]"
    and "linked_events c [] (events_of x d)"
  shows "linked_events c [] (events_of x d')"
  using assms audit_event_intact [of c run d r n kind payload]
  by (cases "run = x") (auto simp: events_of_append last_hash_head)

lemma pairs_after_append:
  assumes "t_audit d' = t_audit d @ [audit_event c r n run kind payload d]"
  shows "run_pairs x d' = run_pairs x d @ (if x = run then
     (case event_snapshot kind payload of None \<Rightarrow> []
      | Some v \<Rightarrow> [(field_text v ''id'', field_text v ''signature'')]) else [])"
  using events_of_append [OF assms, of x] by (simp add: run_pairs_def event_pairs_def)

lemma events_nonempty_after_append:
  assumes "t_audit d' = t_audit d @ [e]" and "events_of x d \<noteq> [] \<or> x = au_run e"
  shows "events_of x d' \<noteq> []"
  using assms by (auto simp: events_of_append)

lemma row_ok_append: "row_ok s rows r \<Longrightarrow> row_ok s (rows @ xs) r"
  by (auto simp: row_ok_def split: option.splits if_splits)

lemma row_ok_revoked:
  assumes "row_ok s rows r" and "\<And>x. er_id (f x) = er_id x \<and> er_run (f x) = er_run x"
    and "er_doc (f r) = er_doc r \<and> er_parent (f r) = er_parent r"
  shows "row_ok s (map f rows) (f r)"
proof -
  have "(\<exists>p \<in> set rows. er_id p = i \<and> er_run p = er_run r) \<Longrightarrow>
      (\<exists>p \<in> set (map f rows). er_id p = i \<and> er_run p = er_run (f r))" for i
    using assms(2) by (metis (no_types, lifting) image_eqI list.set_map)
  with assms show ?thesis by (auto simp: row_ok_def split: option.splits if_splits)
qed

lemma row_of_fields [simp]:
  "er_id (row_of run v t) = env_id v" "er_run (row_of run v t) = run" "er_doc (row_of run v t) = Some v"
  by (simp_all add: row_of_def)

lemma issued_pair: "issued s v \<Longrightarrow> row_pair (row_of run v t) = (env_id v, signature v)"
  by (simp add: row_pair_def)

lemma issued_snapshot:
  "issued s v \<Longrightarrow> field_text (encode_envelope v) ''id'' = env_id v
     \<and> field_text (encode_envelope v) ''signature'' = signature v"
  by (simp add: issued_def encode_envelope_text)

lemma ledger_ok_empty: "ledger_ok s empty_db"
  by (simp add: ledger_ok_def empty_db_def run_pairs_def row_pairs_def events_of_def has_run_def)

lemma ledger_ok_append:
  assumes ok: "ledger_ok s d" and iss: "issued s v" and fresh: "\<not> has_envelope d (env_id v)"
    and rows: "t_envelopes d' = t_envelopes d @ [row_of run v t]"
    and row: "row_ok s (t_envelopes d') (row_of run v t)"
    and runs: "\<forall>x. has_run d' x \<longrightarrow> has_run d x \<or> x = run"
    and approvals: "t_approvals d' = t_approvals d"
    and audit: "t_audit d' = t_audit d @ [audit_event (srv_crypto s) r n run kind payload d]"
    and snap: "event_snapshot kind payload = Some (encode_envelope v)"
  shows "ledger_ok s d'"
  unfolding ledger_ok_def
proof (intro conjI allI ballI impI)
  show "distinct (map er_id (t_envelopes d'))"
    using ok fresh rows by (simp add: ledger_ok_def has_envelope_def)
  show "distinct (map pr_id (t_approvals d'))" using ok approvals by (simp add: ledger_ok_def)
next
  fix x assume "x \<in> set (t_envelopes d')"
  with ok row rows row_ok_append [of s "t_envelopes d" x "[row_of run v t]"] show "row_ok s (t_envelopes d') x"
    by (auto simp: ledger_ok_def)
next
  fix x
  show "linked_events (srv_crypto s) [] (events_of x d')"
    using linked_after_append [OF audit] ok by (simp add: ledger_ok_def)
  show "run_pairs x d' = row_pairs x d'"
    using pairs_after_append [OF audit, of x] ok rows snap issued_snapshot [OF iss] issued_pair [OF iss]
    by (simp add: ledger_ok_def row_pairs_def)
  assume "has_run d' x"
  with runs ok show "events_of x d' \<noteq> []"
    by (intro events_nonempty_after_append [OF audit]) (auto simp: ledger_ok_def)
qed

lemma ledger_ok_note:
  assumes ok: "ledger_ok s d"
    and runs: "t_runs d' = t_runs d"
    and rows: "t_envelopes d' = map f (t_envelopes d)"
    and f: "\<And>x. er_id (f x) = er_id x \<and> er_run (f x) = er_run x \<and> er_doc (f x) = er_doc x \<and> er_parent (f x) = er_parent x"
    and approvals: "distinct (map pr_id (t_approvals d'))"
    and audit: "t_audit d' = t_audit d @ [audit_event (srv_crypto s) r n run kind payload d]"
    and snap: "event_snapshot kind payload = None"
  shows "ledger_ok s d'"
  unfolding ledger_ok_def
proof (intro conjI allI ballI impI)
  show "distinct (map er_id (t_envelopes d'))"
    using ok f rows by (simp add: ledger_ok_def comp_def)
  show "distinct (map pr_id (t_approvals d'))" by (rule approvals)
next
  fix x assume "x \<in> set (t_envelopes d')"
  then obtain y where "y \<in> set (t_envelopes d)" "x = f y" using rows by auto
  with ok f row_ok_revoked [of s "t_envelopes d" y f] rows show "row_ok s (t_envelopes d') x"
    by (simp add: ledger_ok_def)
next
  fix x
  show "linked_events (srv_crypto s) [] (events_of x d')"
    using linked_after_append [OF audit] ok by (simp add: ledger_ok_def)
  have "row_pair (f y) = row_pair y" for y using f by (simp add: row_pair_def)
  then have "row_pairs x d' = row_pairs x d"
    using f rows by (simp add: row_pairs_def filter_map comp_def)
  then show "run_pairs x d' = row_pairs x d'"
    using pairs_after_append [OF audit, of x] ok snap by (simp add: ledger_ok_def)
  assume "has_run d' x"
  with runs ok show "events_of x d' \<noteq> []"
    by (intro events_nonempty_after_append [OF audit]) (auto simp: ledger_ok_def has_run_def)
qed

lemma loaded_row:
  assumes "ledger_ok s d" and "load d i = Inr p"
  shows "\<exists>r \<in> set (t_envelopes d). er_id r = i \<and> er_run r = st_run p \<and> er_doc r = Some (st_env p)
    \<and> issued s (st_env p) \<and> env_id (st_env p) = i \<and> i \<noteq> []"
proof -
  obtain r where r: "find_envelope d i = Some r" "er_doc r = Some (st_env p)" "env_id (st_env p) = i" "st_run p = er_run r"
    using assms(2) by (auto simp: load_Inr)
  note in_r = find_envelope_in [OF r(1)]
  then have "row_ok s (t_envelopes d) r" using assms(1) by (simp add: ledger_ok_def)
  with r in_r show ?thesis by (intro bexI [of _ r]) (auto simp: row_ok_def issued_def)
qed

lemma ledger_ok_step:
  assumes "ledger_ok s d" and "ledger_step s d d'"
  shows "ledger_ok s d'"
  using assms(2)
proof cases
  case quiet
  with assms(1) show ?thesis
    by (simp add: same_ledger_def ledger_ok_def run_pairs_def row_pairs_def events_of_def has_run_def)
next
  case (opened v run t r n)
  have "row_ok s (t_envelopes d') (row_of run v t)"
    using opened(1,2) by (auto simp: row_ok_def root_ok_def row_of_def)
  with opened show ?thesis
    by (intro ledger_ok_append [OF assms(1) opened(1,4,6) _ _ opened(7,8)]) (auto simp: has_run_def created_snapshot)
next
  case (delegated i p now v t r n hid res)
  have i: "parent_envelope v = i" "i \<noteq> []"
    using allows_parent [OF delegated(3)] load_id [OF delegated(1)] loaded_row [OF assms(1) delegated(1)] by auto
  have "row_ok s (t_envelopes d') (row_of (st_run p) v t)"
    using delegated(4,7) i loaded_row [OF assms(1) delegated(1)] by (auto simp: row_ok_def row_of_def)
  with delegated show ?thesis
    by (intro ledger_ok_append [OF assms(1) delegated(4,5,7) _ _ delegated(8,9)]) (auto simp: has_run_def handoff_snapshot)
next
  case (noted kind payload r n run)
  then show ?thesis
    using assms(1) by (intro ledger_ok_note [OF assms(1) noted(2), of id]) (auto simp: ledger_ok_def)
next
  case (revoked i v kind payload t r n)
  then show ?thesis
    using assms(1)
    by (intro ledger_ok_note [OF assms(1) revoked(4,5) _ _ revoked(7,3)]) (auto simp: ledger_ok_def)
next
  case (approval_added i v now a kind payload r n run)
  then show ?thesis
    using assms(1) by (intro ledger_ok_note [OF assms(1) approval_added(7), of id]) (auto simp: ledger_ok_def)
next
  case (acted ids kind payload t r n run)
  have "map pr_id (t_approvals d') = map pr_id (t_approvals d)" using acted(5) by simp
  then have "distinct (map pr_id (t_approvals d'))"
    using assms(1) by (simp only: ledger_ok_def)
  then show ?thesis
    by (intro ledger_ok_note [OF assms(1) acted(3), of id, OF _ _ _ acted(6,2)]) (simp_all add: acted(4))
qed

interpretation sound_ledger: invariant_system empty_db "ledger_step s" "ledger_ok s" for s
  by unfold_locales (rule ledger_ok_empty ledger_ok_step; assumption)+

lemma ledger_ok_bounded: "ledger_ok s d \<Longrightarrow> bounded_roots d"
  by (fastforce simp: ledger_ok_def bounded_roots_def row_ok_def root_ok_def split: if_splits)

end
