(* ===== verification/History.thy ===== *)
theory History
  imports Ledger
begin

text \<open>
  What no step of the ledger undoes: envelopes keep their content, run and parent, a revocation and
  the use of an approval are final, and the audit log only grows.  \<open>extends\<close> is that order on
  databases; the interface \<open>growing_system\<close> carries it along histories.
\<close>

section \<open>The order\<close>

definition keeps_envelope :: "env_row \<Rightarrow> env_row \<Rightarrow> bool" where
  "keeps_envelope r r' \<longleftrightarrow>
     er_id r' = er_id r \<and> er_run r' = er_run r \<and> er_parent r' = er_parent r \<and> er_doc r' = er_doc r
     \<and> (er_revoked r \<noteq> None \<longrightarrow> er_revoked r' = er_revoked r)"

definition keeps_approval :: "approval_row \<Rightarrow> approval_row \<Rightarrow> bool" where
  "keeps_approval a a' \<longleftrightarrow>
     a' = a\<lparr>pr_consumed := pr_consumed a'\<rparr> \<and> (pr_consumed a \<noteq> None \<longrightarrow> pr_consumed a' \<noteq> None)"

definition find_approval_id :: "db \<Rightarrow> string \<Rightarrow> approval_row option" where
  "find_approval_id d i = find (\<lambda>a. pr_id a = i) (t_approvals d)"

definition extends :: "db \<Rightarrow> db \<Rightarrow> bool" where
  "extends d d' \<longleftrightarrow>
     (\<forall>i r. find_envelope d i = Some r \<longrightarrow> (\<exists>r'. find_envelope d' i = Some r' \<and> keeps_envelope r r'))
     \<and> (\<forall>i a. find_approval_id d i = Some a \<longrightarrow> (\<exists>a'. find_approval_id d' i = Some a' \<and> keeps_approval a a'))
     \<and> prefix (t_audit d) (t_audit d') \<and> set (t_runs d) \<subseteq> set (t_runs d')"

lemma keeps_refl [simp]: "keeps_envelope r r" "keeps_approval a a"
  by (simp_all add: keeps_envelope_def keeps_approval_def)

lemma keeps_envelope_trans: "keeps_envelope a b \<Longrightarrow> keeps_envelope b c \<Longrightarrow> keeps_envelope a c"
  by (auto simp: keeps_envelope_def)

lemma keeps_approval_trans: "keeps_approval a b \<Longrightarrow> keeps_approval b c \<Longrightarrow> keeps_approval a c"
  unfolding keeps_approval_def by (metis approval_row.select_convs(9) approval_row.surjective approval_row.update_convs(9))

lemma extends_refl: "extends d d"
  by (auto simp: extends_def)

lemma extends_trans: "extends a b \<Longrightarrow> extends b c \<Longrightarrow> extends a c"
  unfolding extends_def by (meson keeps_approval_trans keeps_envelope_trans order_trans prefix_order.order_trans)

section \<open>Every step extends\<close>

lemma find_append_kept: "find P xs = Some x \<Longrightarrow> find P (xs @ ys) = Some x"
  by (induction xs) auto

lemma find_map_id:
  "(\<And>x. k (f x) = k x) \<Longrightarrow> find (\<lambda>x. k x = i) (map f xs) = map_option f (find (\<lambda>x. k x = i) xs)"
  by (induction xs) auto

lemma find_envelope_append:
  "find_envelope d i = Some r \<Longrightarrow> t_envelopes d' = t_envelopes d @ xs \<Longrightarrow> find_envelope d' i = Some r"
  by (simp add: find_envelope_def find_append_kept)

lemma extendsI:
  assumes "t_envelopes d' = t_envelopes d @ xs" and "t_approvals d' = map g (t_approvals d) @ ys"
    and "\<And>a. a \<in> set (t_approvals d) \<Longrightarrow> pr_id (g a) = pr_id a \<and> keeps_approval a (g a)"
    and "t_audit d' = t_audit d @ zs" and "t_runs d' = t_runs d @ us"
  shows "extends d d'"
proof -
  have "find (\<lambda>a. pr_id a = i) (map g as) = map_option g (find (\<lambda>a. pr_id a = i) as)"
    if "set as \<subseteq> set (t_approvals d)" for as i
    using that assms(3) by (induction as) auto
  then have "find_approval_id d' i = Some (g a) \<and> keeps_approval a (g a)" if "find_approval_id d i = Some a" for i a
    using that assms(2) assms(3) [of a] find_append_kept [of "\<lambda>a. pr_id a = i" "map g (t_approvals d)" "g a" ys]
    unfolding find_approval_id_def by (auto simp: find_Some_iff)
  then show ?thesis
    using assms(1,4,5) unfolding extends_def by (fastforce dest: find_envelope_append)
qed

lemma keeps_consumed: "pr_consumed a = None \<or> t \<noteq> None \<Longrightarrow> keeps_approval a (a\<lparr>pr_consumed := t\<rparr>)"
  by (auto simp: keeps_approval_def)

lemma step_extends:
  assumes "ledger_step s d d'"
  shows "extends d d'"
  using assms
proof cases
  case quiet
  then show ?thesis by (intro extendsI [of _ _ "[]" id "[]"]) (auto simp: same_ledger_def)
next
  case (revoked i v kind payload t r n)
  have "find_envelope d' j = map_option (\<lambda>r. if er_id r = i then r\<lparr>er_revoked := Some t\<rparr> else r) (find_envelope d j)" for j
    using revoked(5) by (simp add: find_envelope_def find_map_id)
  moreover have "er_revoked x = None" if "find_envelope d i = Some x" for x
    using revoked(1,2) that by (auto simp: load_Inr)
  moreover have "er_id x = j" if "find_envelope d j = Some x" for x j using find_envelope_in [OF that] by simp
  ultimately show ?thesis
    using revoked(4,6,7) unfolding extends_def find_approval_id_def by (auto simp: keeps_envelope_def)
next
  case (acted ids kind payload t r n run)
  then show ?thesis
    by (intro extendsI [of _ _ "[]" "\<lambda>a. if pr_id a \<in> set ids then a\<lparr>pr_consumed := Some t\<rparr> else a" "[]"])
      (auto simp: keeps_consumed)
qed (rule extendsI [where g = id]; simp)+

interpretation ledger_history: growing_system "ledger_step s" extends for s
  by unfold_locales (rule extends_refl, erule (1) extends_trans, erule step_extends)

section \<open>Approvals are used once\<close>

lemma approval_by_id:
  assumes "distinct (map pr_id (t_approvals d))" and "a \<in> set (t_approvals d)"
  shows "find_approval_id d (pr_id a) = Some a"
proof -
  have "find (\<lambda>x. pr_id x = pr_id a) as = Some a" if "distinct (map pr_id as)" "a \<in> set as" for as
    using that by (induction as) (auto simp: rev_image_eqI)
  then show ?thesis using assms by (simp add: find_approval_id_def)
qed

lemma consumed_stays:
  assumes "extends d d'" and "find_approval_id d i = Some a" and "pr_consumed a \<noteq> None"
    and "distinct (map pr_id (t_approvals d'))" and "a' \<in> set (t_approvals d')" and "pr_id a' = i"
  shows "pr_consumed a' \<noteq> None"
  using assms approval_by_id [OF assms(4,5)] unfolding extends_def keeps_approval_def by fastforce

lemma action_consumes:
  assumes "action s w (Inr q) d = Inr ((RAction i res ids, status), d')"
    and "distinct (map pr_id (t_approvals d))" and "x \<in> set ids"
  shows "\<exists>a. find_approval_id d x = Some a \<and> pr_consumed a = None \<and> pr_envelope a = ac_envelope q \<and> pr_action a = ac_tool q"
    and "\<exists>a. find_approval_id d' x = Some a \<and> pr_consumed a \<noteq> None"
proof -
  from assms(1) obtain a where a: "a \<in> set (t_approvals d)" "pr_id a = x" "pr_consumed a = None"
      "pr_envelope a = ac_envelope q" "pr_action a = ac_tool q"
    and d': "t_approvals d' = map (\<lambda>r. if pr_id r \<in> set ids then r\<lparr>pr_consumed := Some (micros (inst (d_now w)))\<rparr> else r) (t_approvals d)"
  proof (cases rule: action_Inr)
    case (1 v args res' ids')
    then have "x \<in> set (snd (decide s (d_now w) d v q (arguments_hash s (ac_arguments q)) args))"
      using assms(3) by simp
    moreover from this have "decision (fst (decide s (d_now w) d v q (arguments_hash s (ac_arguments q)) args)) = ALLOW"
      using decide_DENY_keeps by fastforce
    ultimately show thesis using decide_ids_rows 1(4,9) that by fastforce
  qed
  from approval_by_id [OF assms(2) a(1)] a show "\<exists>a. find_approval_id d x = Some a \<and> pr_consumed a = None
      \<and> pr_envelope a = ac_envelope q \<and> pr_action a = ac_tool q" by auto
  have "find_approval_id d' x = map_option (\<lambda>r. if pr_id r \<in> set ids then r\<lparr>pr_consumed := Some (micros (inst (d_now w)))\<rparr> else r)
      (find_approval_id d x)"
    unfolding find_approval_id_def d' by (rule find_map_id) simp
  with approval_by_id [OF assms(2) a(1)] a(2) assms(3) show "\<exists>a. find_approval_id d' x = Some a \<and> pr_consumed a \<noteq> None"
    by simp
qed

section \<open>Revocation is final\<close>

lemma ancestry_deterministic: "ancestry d v vs \<Longrightarrow> ancestry d v ws \<Longrightarrow> vs = ws"
proof (induction arbitrary: ws rule: ancestry.induct)
  case (root v)
  then show ?case by (simp add: ancestry_root)
next
  case (up v p u us)
  obtain zs where "ancestry d u zs" "ws = v # zs"
    using up.prems ancestry_up [OF up.hyps(1,2), of ws] by blast
  with up.IH show ?case by simp
qed

lemma revoked_inactive:
  assumes "ancestry d v vs" and "u \<in> set vs" and "st_revoked u \<noteq> None"
  shows "active s now d v \<noteq> Inr ()"
proof
  assume "active s now d v = Inr ()"
  then obtain ws where "sound_chain s now d v ws" using active_sound_chain by blast
  moreover from this have "ws = vs" using assms(1) ancestry_deterministic by (auto simp: sound_chain_def)
  ultimately show False using assms(2,3) by (auto simp: sound_chain_def in_force_def)
qed

lemma revoke_marks:
  assumes "revoke s w i d = Inr (y, d')"
  shows "\<exists>v. load d' i = Inr v \<and> st_revoked v \<noteq> None"
proof -
  obtain resp status where "revoke s w i d = Inr ((resp, status), d')" using assms by (cases y) simp
  then show ?thesis
  proof (cases rule: revoke_Inr)
    case (again v)
    then show ?thesis by auto
  next
    case (revoked v)
    have "find_envelope d' i = map_option (\<lambda>r. if er_id r = i then r\<lparr>er_revoked := Some (d_txnow w)\<rparr> else r) (find_envelope d i)"
      unfolding find_envelope_def revoked(8) by (rule find_map_id) simp
    moreover obtain r where "find_envelope d i = Some r" "er_doc r = Some (st_env v)" "env_id (st_env v) = i"
      using revoked(1) by (auto simp: load_Inr)
    ultimately show ?thesis using find_envelope_in [of d i r] by (simp add: load_def)
  qed
qed

lemma revoked_stays:
  assumes "extends d d'" and "load d i = Inr v" and "st_revoked v \<noteq> None"
  shows "\<exists>v'. load d' i = Inr v' \<and> st_revoked v' \<noteq> None"
proof -
  obtain r where r: "find_envelope d i = Some r" "er_doc r = Some (st_env v)" "env_id (st_env v) = i" "er_revoked r \<noteq> None"
    using assms(2,3) by (auto simp: load_Inr)
  then obtain r' where "find_envelope d' i = Some r'" "keeps_envelope r r'"
    using assms(1) unfolding extends_def by blast
  with r show ?thesis by (auto simp: load_def keeps_envelope_def)
qed

text \<open>An envelope with a revoked ancestor (or revoked itself) is inactive in every later state.\<close>

lemma revoked_forever:
  assumes "extends d d'" and "load d i = Inr v" and "st_revoked v \<noteq> None"
    and "load d' j = Inr u" and "ancestry d' u us" and "i \<in> stored_id ` set us"
  shows "active s now d' u \<noteq> Inr ()"
proof -
  obtain x where x: "x \<in> set us" "stored_id x = i" using assms(6) by auto
  obtain v' where v': "load d' i = Inr v'" "st_revoked v' \<noteq> None" using revoked_stays [OF assms(1-3)] by auto
  have "load d' (stored_id u) = Inr u" using assms(4) load_id [OF assms(4)] by (simp add: stored_id_def)
  then have "load d' i = Inr x" using ancestry_loaded [OF assms(5) _ x(1)] x(2) by simp
  with v' have "st_revoked x \<noteq> None" by simp
  with assms(5) x(1) show ?thesis by (rule revoked_inactive)
qed

end
