(* ===== verification/Sample_Server.thy ===== *)
theory Sample_Server
  imports Server Samples
begin

text \<open>
  A configured server and the draws of one request, for the witnesses: the stand-in cryptography of
  \<open>Samples\<close> and any interpreter of conditions.
\<close>

definition server_with :: "'ctx cel \<Rightarrow> 'ctx server" where
  "server_with c =
     \<lparr>srv_crypto = sample_crypto, srv_cel = c, srv_key = sample_key, srv_pub = sample_pub,
      srv_token_hash = sha256 sample_crypto ''service'', srv_demo = False, srv_lower = (\<lambda>r. r),
      srv_db_lower = (\<lambda>r. r)\<rparr>"

text \<open>The \<open>n\<close>-th request: its clock, and random bytes that differ from those of other requests.\<close>

definition draws_at :: "int \<Rightarrow> char \<Rightarrow> draws" where
  "draws_at n c =
     \<lparr>d_now = utc (inst sample_now + n * 1000), d_audit = inst sample_now + n * 1000,
      d_txnow = inst sample_now + n * 1000, d_env = [c, CHR ''e''], d_run = [c, CHR ''r''],
      d_handoff = [c, CHR ''h''], d_event = [c, CHR ''v''], d_action = [c, CHR ''a''],
      d_approval = [c, CHR ''p''], d_operator = [c, CHR ''o''], d_session = replicate 32 c,
      d_salt = replicate 16 c, d_trace = (''trace'', ''span'')\<rparr>"

lemma server_with_simps [simp]:
  "srv_crypto (server_with c) = sample_crypto" "srv_cel (server_with c) = c"
  "srv_key (server_with c) = sample_key" "srv_pub (server_with c) = sample_pub"
  by (simp_all add: server_with_def)

end
