(* ===== verification/Operators.thy ===== *)
theory Operators
  imports Sample_Server
begin

text \<open>
  Operators (\<open>internal/server/operators.go\<close>): provisioning people who may approve refunds, their
  passwords, the durable login limits, sessions, and the routes a session opens.  Argon2id is part
  of the \<open>crypto\<close> record; the tables are those of the schema.
\<close>

section \<open>Patterns\<close>

definition is_lower :: "char \<Rightarrow> bool" where
  "is_lower c \<longleftrightarrow> 97 \<le> byte c \<and> byte c \<le> 122"

definition is_upper :: "char \<Rightarrow> bool" where
  "is_upper c \<longleftrightarrow> 65 \<le> byte c \<and> byte c \<le> 90"

definition username_ok :: "string \<Rightarrow> bool" where
  "username_ok s \<longleftrightarrow>
     (case s of
        [] \<Rightarrow> False
      | c # cs \<Rightarrow> (is_lower c \<or> is_digit c) \<and> 2 \<le> length cs \<and> length cs \<le> 63
          \<and> (\<forall>x \<in> set cs. is_lower x \<or> is_digit x \<or> x \<in> set ''._-''))"

definition session_token_ok :: "string \<Rightarrow> bool" where
  "session_token_ok s \<longleftrightarrow>
     prefix ''op_'' s \<and> length s = 46
     \<and> (\<forall>x \<in> set (drop 3 s). is_lower x \<or> is_upper x \<or> is_digit x \<or> x \<in> set ''_-'')"

section \<open>Passwords\<close>

definition password_hash :: "crypto \<Rightarrow> string \<Rightarrow> string \<Rightarrow> string + string" where
  "password_hash c salt password =
     (if length password < 16 \<or> length password > 256 then Inl (''password must be 16'' @ [CHR 0xE2, CHR 0x80, CHR 0x93] @ ''256 bytes'')
      else Inr (''argon2id-v1:'' @ b64_raw salt @ '':'' @ b64_raw (argon2id c password salt)))"

definition decode_hash :: "string \<Rightarrow> (string \<times> string) option" where
  "decode_hash encoded =
     (case split_on (CHR '':'') encoded of
        [kind, s, k] \<Rightarrow>
          if kind = ''argon2id-v1'' then
            (case (b64_raw_decode s, b64_raw_decode k) of
               (Some salt, Some key) \<Rightarrow> if length salt = 16 \<and> length key = 32 then Some (salt, key) else None
             | _ \<Rightarrow> None)
          else None
      | _ \<Rightarrow> None)"

text \<open>An unusable record is still compared, with zero salt and key, and fails.\<close>

definition password_valid :: "crypto \<Rightarrow> string \<Rightarrow> string \<Rightarrow> bool" where
  "password_valid c password encoded =
     (case decode_hash encoded of
        Some (salt, key) \<Rightarrow> argon2id c password salt = key
      | None \<Rightarrow> argon2id c password (replicate 16 (CHR 0x00)) = replicate 32 (CHR 0x00) \<and> False)"

section \<open>Provisioning\<close>

definition insert_operator :: "operator_row \<Rightarrow> db \<Rightarrow> api_error + db" where
  "insert_operator r d =
     (if op_id r \<in> op_id ` set (t_operators d) \<or> op_username r \<in> op_username ` set (t_operators d)
      then Inl UniqueViolation
      else if op_role r \<notin> {''viewer'', ''refund_manager''} then Inl (Internal ''violates check constraint'')
      else Inr (d\<lparr>t_operators := t_operators d @ [r]\<rparr>))"

definition find_operator :: "db \<Rightarrow> string \<Rightarrow> operator_row option" where
  "find_operator d name = find (\<lambda>r. op_username r = name) (t_operators d)"

definition provision_operator ::
  "crypto \<Rightarrow> draws \<Rightarrow> string \<Rightarrow> string \<Rightarrow> string \<Rightarrow> string \<Rightarrow> bool \<Rightarrow> db \<Rightarrow> api_error + unit \<times> db" where
  "provision_operator c w username name role password if_absent d =
     (if \<not> username_ok username \<or> blank name \<or> length name > 100 \<or> (role \<noteq> ''viewer'' \<and> role \<noteq> ''refund_manager'')
      then Inl (Internal ''valid username, display name, and viewer/refund_manager role required'')
      else rbind (wrap_error Internal (password_hash c (d_salt w) password)) (\<lambda>hash.
        if if_absent \<and> find_operator d username \<noteq> None then Inr ((), d)
        else rbind (insert_operator
               \<lparr>op_id = new_id ''operator_'' (d_operator w), op_username = username, op_display = name,
                op_role = role, op_password = hash, op_disabled = False\<rparr> d) (\<lambda>d. Inr ((), d))))"

definition update_operator :: "string \<Rightarrow> (operator_row \<Rightarrow> operator_row) \<Rightarrow> db \<Rightarrow> db" where
  "update_operator i f d = d\<lparr>t_operators := map (\<lambda>r. if op_id r = i then f r else r) (t_operators d)\<rparr>"

definition drop_sessions :: "(session_row \<Rightarrow> bool) \<Rightarrow> db \<Rightarrow> db" where
  "drop_sessions P d = d\<lparr>t_sessions := filter (\<lambda>r. \<not> P r) (t_sessions d)\<rparr>"

definition change_operator ::
  "crypto \<Rightarrow> draws \<Rightarrow> string \<Rightarrow> string \<Rightarrow> bool \<Rightarrow> db \<Rightarrow> api_error + unit \<times> db" where
  "change_operator c w username password disable d =
     rbind (if disable then Inr [] else wrap_error Internal (password_hash c (d_salt w) password)) (\<lambda>hash.
       case find_operator d username of
         None \<Rightarrow> Inl NoRows
       | Some r \<Rightarrow>
           Inr ((), drop_sessions (\<lambda>x. se_operator x = op_id r)
             (update_operator (op_id r)
               (\<lambda>x. if disable then x\<lparr>op_disabled := True\<rparr> else x\<lparr>op_password := hash\<rparr>) d)))"

section \<open>Sessions\<close>

definition token_digest :: "crypto \<Rightarrow> string \<Rightarrow> string" where
  "token_digest c token = digest_text c token"

definition bearer :: "string \<Rightarrow> string" where
  "bearer header = trim_prefix header ''Bearer ''"

definition operator_of :: "operator_row \<Rightarrow> operator" where
  "operator_of r = \<lparr>o_id = op_id r, o_username = op_username r, o_display = op_display r, o_role = op_role r\<rparr>"

definition unauthorized :: api_error where
  "unauthorized = Api 401 ''unauthorized''"

text \<open>The join of a live session with an enabled operator.\<close>

definition session_operators :: "int \<Rightarrow> string \<Rightarrow> db \<Rightarrow> operator_row list" where
  "session_operators now hash d =
     concat (map (\<lambda>x. filter (\<lambda>r. op_id r = se_operator x \<and> \<not> op_disabled r) (t_operators d))
       (filter (\<lambda>x. se_token x = hash \<and> se_expires x > now) (t_sessions d)))"

definition authenticate_operator :: "crypto \<Rightarrow> draws \<Rightarrow> string \<Rightarrow> db \<Rightarrow> api_error + operator" where
  "authenticate_operator c w header d =
     (if \<not> session_token_ok (bearer header) then Inl unauthorized
      else (case session_operators (d_txnow w) (token_digest c (bearer header)) d of
          [] \<Rightarrow> Inl unauthorized
        | r # _ \<Rightarrow> Inr (operator_of r)))"

definition operator_route :: "string \<Rightarrow> string \<Rightarrow> bool" where
  "operator_route meth p =
     (if meth = ''GET'' then p = ''/v1/operators/me'' \<or> p = ''/v1/dashboard/overview'' \<or> prefix ''/v1/runs/'' p
      else meth = ''POST''
        \<and> (p = ''/v1/operators/logout'' \<or> p = ''/v1/approvals'' \<or> prefix ''/v1/audit/'' p))"

section \<open>Logging in\<close>

definition minute :: int where "minute = 60000000000"
definition hour :: int where "hour = 3600000000000"

text \<open>The upsert of one bucket and the attempts it returns.\<close>

definition bump_limit :: "int \<Rightarrow> string \<Rightarrow> db \<Rightarrow> api_error + int \<times> db" where
  "bump_limit now bucket d =
     (case find (\<lambda>r. li_bucket r = bucket) (t_limits d) of
        None \<Rightarrow> Inr (1, d\<lparr>t_limits := t_limits d @ [\<lparr>li_bucket = bucket, li_attempts = 1, li_reset = now + minute\<rparr>]\<rparr>)
      | Some r \<Rightarrow>
          let n = (if li_reset r \<le> now then 1 else li_attempts r + 1);
              reset = (if li_reset r \<le> now then now + minute else li_reset r)
          in if n > 2147483647 then Inl (Internal ''integer out of range'')
             else Inr (n, d\<lparr>t_limits := map (\<lambda>x. if li_bucket x = bucket
               then x\<lparr>li_attempts := n, li_reset := reset\<rparr> else x) (t_limits d)\<rparr>))"

definition global_bucket :: string where "global_bucket = ''global''"
definition user_bucket :: "string \<Rightarrow> string" where "user_bucket name = ''user:'' @ name"

definition bucket_limit :: "string \<Rightarrow> int" where
  "bucket_limit bucket = (if bucket = global_bucket then 60 else 10)"

text \<open>The loop over the buckets: whether every count is within its limit.\<close>

fun check_limits :: "int \<Rightarrow> string list \<Rightarrow> db \<Rightarrow> api_error + bool \<times> db" where
  "check_limits now [] d = Inr (True, d)"
| "check_limits now (bucket # bs) d =
     rbind (bump_limit now bucket d) (\<lambda>(n, d).
       if n > bucket_limit bucket then Inr (False, d) else check_limits now bs d)"

definition insert_session :: "session_row \<Rightarrow> db \<Rightarrow> api_error + db" where
  "insert_session r d =
     (if se_token r \<in> se_token ` set (t_sessions d) then Inl UniqueViolation
      else if se_operator r \<notin> op_id ` set (t_operators d) then Inl ForeignKey
      else Inr (d\<lparr>t_sessions := t_sessions d @ [r]\<rparr>))"

record login_request =
  lr_username :: string
  lr_password :: string

definition login_name :: "'ctx server \<Rightarrow> string \<Rightarrow> string" where
  "login_name s name = to_lower (srv_lower s) (trim_space name)"

definition wrong_login :: response where
  "wrong_login = RError ''Invalid username or password''"

definition too_many :: response where
  "too_many = RError ''Too many attempts. Please wait a minute.''"

definition open_session :: "'ctx server \<Rightarrow> draws \<Rightarrow> operator_row \<Rightarrow> db \<Rightarrow> outcome" where
  "open_session s w r d =
     (let token = ''op_'' @ b64_url (d_session w); expires = inst (d_now w) + 8 * hour
      in rbind (insert_session
             \<lparr>se_token = token_digest (srv_crypto s) token, se_operator = op_id r, se_expires = micros expires\<rparr>
             (drop_sessions (\<lambda>x. se_expires x \<le> d_txnow w) d)) (\<lambda>d.
           Inr ((RLogin token (operator_of r) expires, 200), d)))"

definition login :: "'ctx server \<Rightarrow> draws \<Rightarrow> api_error + login_request \<Rightarrow> db \<Rightarrow> outcome" where
  "login s w body d =
     rbind body (\<lambda>q.
       let name = login_name s (lr_username q)
       in if length name > 64 \<or> length (lr_password q) > 256 then Inr ((wrong_login, 401), d)
          else rbind (check_limits (d_txnow w) [global_bucket, user_bucket name] d) (\<lambda>(ok, d).
            if \<not> ok then Inr ((too_many, 429), d)
            else let d = d\<lparr>t_limits := filter (\<lambda>x. \<not> li_reset x < d_txnow w - hour) (t_limits d)\<rparr>;
                     found = find_operator d name;
                     valid = password_valid (srv_crypto s) (lr_password q)
                       (case found of None \<Rightarrow> [] | Some r \<Rightarrow> op_password r)
                 in (case found of
                       None \<Rightarrow> Inr ((wrong_login, 401), d)
                     | Some r \<Rightarrow>
                         if \<not> valid \<or> op_disabled r then Inr ((wrong_login, 401), d)
                         else open_session s w r d)))"

definition session_required :: api_error where
  "session_required = denied ''operator session required''"

definition me :: "operator option \<Rightarrow> db \<Rightarrow> outcome" where
  "me op d = (case op of None \<Rightarrow> Inl session_required | Some o' \<Rightarrow> Inr ((ROperator o', 200), d))"

definition logout :: "'ctx server \<Rightarrow> operator option \<Rightarrow> string \<Rightarrow> db \<Rightarrow> outcome" where
  "logout s op header d =
     (if op = None then Inl session_required
      else Inr ((RStatus ''signed_out'', 200),
        drop_sessions (\<lambda>x. se_token x = token_digest (srv_crypto s) (bearer header)) d))"

section \<open>Passwords: lemmas\<close>

lemma split_on_append:
  "c \<notin> set a \<Longrightarrow> split_on c (a @ c # r) = a # split_on c r"
  by (induction a) (auto simp: Let_def split: list.split)

lemma split_on_plain: "c \<notin> set a \<Longrightarrow> split_on c a = [a]"
  by (induction a) auto

lemma b64_raw_colon: "CHR '':'' \<notin> set (b64_raw s)"
proof -
  have "b64_value (CHR '':'') = None" by (simp add: b64_value_def byte_def)
  then have "CHR '':'' \<notin> b64_alphabet"
    by (auto simp: b64_alphabet_def dest: arg_cong [where f = b64_value])
  then show ?thesis using b64_raw_chars [of s] by blast
qed

lemma decode_hash_of:
  assumes "length salt = 16" and "length key = 32"
  shows "decode_hash (''argon2id-v1:'' @ b64_raw salt @ '':'' @ b64_raw key) = Some (salt, key)"
proof -
  have "split_on (CHR '':'') (''argon2id-v1'' @ CHR '':'' # b64_raw salt @ CHR '':'' # b64_raw key)
      = [''argon2id-v1'', b64_raw salt, b64_raw key]"
    by (subst split_on_append) (simp_all add: split_on_append split_on_plain b64_raw_colon)
  then show ?thesis using assms by (simp add: decode_hash_def b64_raw_decode_raw)
qed

lemma password_valid_hash:
  assumes "password_hash c salt p = Inr h" and "length salt = 16" and "length (argon2id c p salt) = 32"
  shows "password_valid c p' h \<longleftrightarrow> argon2id c p' salt = argon2id c p salt"
  using assms decode_hash_of [OF assms(2,3)]
  by (simp add: password_hash_def password_valid_def split: if_splits)

section \<open>Login limits: lemmas\<close>

text \<open>The attempts already counted in the bucket's current window.\<close>

definition attempts :: "int \<Rightarrow> string \<Rightarrow> db \<Rightarrow> int" where
  "attempts now bucket d =
     (case find (\<lambda>r. li_bucket r = bucket) (t_limits d) of
        None \<Rightarrow> 0 | Some r \<Rightarrow> if li_reset r \<le> now then 0 else li_attempts r)"

lemma find_map_keep:
  "(\<And>x. P (f x) = P x) \<Longrightarrow> find P (map f xs) = map_option f (find P xs)"
  by (induction xs) auto

lemma find_append_fresh: "find P (xs @ [y]) = (case find P xs of Some x \<Rightarrow> Some x | None \<Rightarrow> if P y then Some y else None)"
  by (induction xs) auto

lemma bump_limit_attempts:
  assumes "bump_limit now bucket d = Inr (n, d')"
  shows "n = attempts now bucket d + 1" and "attempts now bucket d' = n"
    and "b \<noteq> bucket \<Longrightarrow> attempts now b d' = attempts now b d"
proof -
  let ?find = "find (\<lambda>r. li_bucket r = bucket) (t_limits d)"
  show "n = attempts now bucket d + 1"
    using assms by (auto simp: bump_limit_def attempts_def Let_def split: option.splits if_splits)
  show "attempts now bucket d' = n"
    using assms by (auto simp: bump_limit_def attempts_def Let_def minute_def find_map_keep find_append_fresh
        split: option.splits if_splits dest: find_Some_iff [THEN iffD1])
  assume "b \<noteq> bucket"
  then have "find (\<lambda>r. li_bucket r = b) (map (\<lambda>x. if li_bucket x = bucket then f x else x) xs)
      = find (\<lambda>r. li_bucket r = b) xs" if "\<And>x. li_bucket (f x) = li_bucket x" for f :: "limit_row \<Rightarrow> limit_row" and xs
    using that by (induction xs) auto
  then show "attempts now b d' = attempts now b d"
    using assms \<open>b \<noteq> bucket\<close>
    by (auto simp: bump_limit_def attempts_def Let_def find_append_fresh split: option.splits if_splits)
qed

lemma bump_limit_other_tables:
  assumes "bump_limit now bucket d = Inr (n, d')"
  shows "d' = d\<lparr>t_limits := t_limits d'\<rparr>"
  using assms by (auto simp: bump_limit_def Let_def split: option.splits if_splits)

lemma buckets_differ [simp]: "user_bucket name \<noteq> global_bucket" "global_bucket \<noteq> user_bucket name"
  by (simp_all add: user_bucket_def global_bucket_def)

lemma check_limits_Inr:
  assumes "check_limits now [global_bucket, user_bucket name] d = Inr (ok, d')"
  shows "(ok \<longleftrightarrow> attempts now global_bucket d < 60 \<and> attempts now (user_bucket name) d < 10)
    \<and> (ok \<longrightarrow> attempts now (user_bucket name) d' = attempts now (user_bucket name) d + 1
        \<and> attempts now global_bucket d' = attempts now global_bucket d + 1)
    \<and> d' = d\<lparr>t_limits := t_limits d'\<rparr>"
proof -
  obtain n d1 where b: "bump_limit now global_bucket d = Inr (n, d1)"
    using assms by (auto simp: result_simps)
  note g = bump_limit_attempts [OF b] and t = bump_limit_other_tables [OF b]
  show ?thesis
  proof (cases "n > 60")
    case True
    with assms b have "ok = False" "d' = d1" by (simp_all add: bucket_limit_def)
    with True g(1) t show ?thesis by simp
  next
    case False
    with assms b obtain m where c: "bump_limit now (user_bucket name) d1 = Inr (m, d')"
      and ok: "ok \<longleftrightarrow> m \<le> 10"
      by (auto simp: bucket_limit_def result_simps split: if_splits)
    note h = bump_limit_attempts [OF c] and u = bump_limit_other_tables [OF c]
    have "m = attempts now (user_bucket name) d + 1" using h(1) g(3) [of "user_bucket name"] by simp
    moreover have "attempts now global_bucket d' = attempts now global_bucket d + 1"
      using h(3) [of global_bucket] g(1,2) by simp
    moreover have "d' = d\<lparr>t_limits := t_limits d'\<rparr>" by (subst u, subst t) simp
    ultimately show ?thesis using ok h(2) False g(1) by auto
  qed
qed

section \<open>Logging in: lemmas\<close>

lemma login_Inr:
  assumes "login s w (Inr q) d = Inr ((resp, status), d')"
  obtains (oversize) "resp = wrong_login" "status = 401" "d' = d"
      "length (login_name s (lr_username q)) > 64 \<or> length (lr_password q) > 256"
  | (limited) "resp = too_many" "status = 429" "d' = d\<lparr>t_limits := t_limits d'\<rparr>"
      "attempts (d_txnow w) global_bucket d \<ge> 60
        \<or> attempts (d_txnow w) (user_bucket (login_name s (lr_username q))) d \<ge> 10"
  | (wrong) d1 where "resp = wrong_login" "status = 401" "d' = d\<lparr>t_limits := t_limits d'\<rparr>"
      "check_limits (d_txnow w) [global_bucket, user_bucket (login_name s (lr_username q))] d = Inr (True, d1)"
      "t_limits d' = filter (\<lambda>x. \<not> li_reset x < d_txnow w - hour) (t_limits d1)"
  | (opened) d1 r where "find_operator d (login_name s (lr_username q)) = Some r"
      "password_valid (srv_crypto s) (lr_password q) (op_password r)" "\<not> op_disabled r"
      "check_limits (d_txnow w) [global_bucket, user_bucket (login_name s (lr_username q))] d = Inr (True, d1)"
      "open_session s w r (d\<lparr>t_limits := filter (\<lambda>x. \<not> li_reset x < d_txnow w - hour) (t_limits d1)\<rparr>)
         = Inr ((resp, status), d')"
proof (cases "length (login_name s (lr_username q)) > 64 \<or> length (lr_password q) > 256")
  case True
  with assms show thesis by (intro oversize) (auto simp: login_def Let_def)
next
  case False
  let ?name = "login_name s (lr_username q)"
  from assms False obtain ok d1 where
    c: "check_limits (d_txnow w) [global_bucket, user_bucket ?name] d = Inr (ok, d1)"
    by (auto simp: login_def Let_def rbind_eq_Inr simp del: check_limits.simps)
  note lim = check_limits_Inr [OF c]
  define d2 where "d2 = d\<lparr>t_limits := filter (\<lambda>x. \<not> li_reset x < d_txnow w - hour) (t_limits d1)\<rparr>"
  have d2: "d1\<lparr>t_limits := filter (\<lambda>x. \<not> li_reset x < d_txnow w - hour) (t_limits d1)\<rparr> = d2"
  proof -
    obtain x where "d1 = d\<lparr>t_limits := x\<rparr>" using lim by blast
    then show ?thesis by (simp add: d2_def)
  qed
  have f: "find_operator d2 ?name = find_operator d ?name" by (simp add: d2_def find_operator_def)
  show thesis
  proof (cases ok)
    case False
    with assms c \<open>\<not> (length ?name > 64 \<or> length (lr_password q) > 256)\<close> lim show thesis
      by (intro limited) (auto simp: login_def Let_def simp del: check_limits.simps)
  next
    case True
    note step = assms [unfolded login_def Let_def rbind_Inr if_not_P [OF False] c prod.case
        simp_thms if_False d2 f]
    show thesis
    proof (cases "find_operator d ?name")
      case None
      with step True have "resp = wrong_login" "status = 401" "d' = d2" by simp_all
      then show thesis using c \<open>ok\<close> by (intro wrong [of d1]) (simp_all add: d2_def)
    next
      case (Some r)
      show thesis
      proof (cases "\<not> password_valid (srv_crypto s) (lr_password q) (op_password r) \<or> op_disabled r")
        case bad: True
        with step \<open>ok\<close> Some have "resp = wrong_login" "status = 401" "d' = d2" by simp_all
        then show thesis using c \<open>ok\<close> by (intro wrong [of d1]) (simp_all add: d2_def)
      next
        case good: False
        with step \<open>ok\<close> Some have "open_session s w r d2 = Inr ((resp, status), d')" by simp
        then show thesis using c \<open>ok\<close> Some good by (intro opened [of r d1]) (simp_all add: d2_def)
      qed
    qed
  qed
qed

lemma open_session_Inr:
  assumes "open_session s w r d = Inr ((resp, status), d')"
  shows "resp = RLogin (''op_'' @ b64_url (d_session w)) (operator_of r) (inst (d_now w) + 8 * hour)"
    and "status = 200"
    and "t_sessions d' = filter (\<lambda>x. \<not> se_expires x \<le> d_txnow w) (t_sessions d)
      @ [\<lparr>se_token = token_digest (srv_crypto s) (''op_'' @ b64_url (d_session w)), se_operator = op_id r,
         se_expires = micros (inst (d_now w) + 8 * hour)\<rparr>]"
    and "token_digest (srv_crypto s) (''op_'' @ b64_url (d_session w))
      \<notin> se_token ` set (filter (\<lambda>x. \<not> se_expires x \<le> d_txnow w) (t_sessions d))"
    and "d' = d\<lparr>t_sessions := t_sessions d'\<rparr>"
  using assms by (auto simp: open_session_def Let_def result_simps insert_session_def drop_sessions_def split: if_splits)

definition same_tables :: "db \<Rightarrow> db \<Rightarrow> bool" where
  "same_tables d d' \<longleftrightarrow> d' = d\<lparr>t_limits := t_limits d', t_sessions := t_sessions d'\<rparr>"

lemma login_same_tables:
  assumes "login s w (Inr q) d = Inr ((resp, status), d')"
  shows "same_tables d d'"
  using assms
proof (cases rule: login_Inr)
  case limited
  then obtain x where "d' = d\<lparr>t_limits := x\<rparr>" by blast
  then show ?thesis by (simp add: same_tables_def)
next
  case wrong
  then obtain x where "d' = d\<lparr>t_limits := x\<rparr>" by blast
  then show ?thesis by (simp add: same_tables_def)
next
  case (opened d1 r)
  from open_session_Inr(5) [OF opened(5)] obtain x y where "d' = d\<lparr>t_limits := x, t_sessions := y\<rparr>" by simp
  then show ?thesis by (simp add: same_tables_def)
qed (simp add: same_tables_def)




section \<open>Properties\<close>

text \<open>
  A password record made by \<open>passwordHash\<close> accepts a password exactly when Argon2id gives the
  same key for it under the recorded salt; in particular the password it was made from.
\<close>

theorem password_record:
  assumes "password_hash c salt p = Inr h" and "length salt = 16" and "length (argon2id c p salt) = 32"
  shows "password_valid c p h \<and> (password_valid c p' h \<longleftrightarrow> argon2id c p' salt = argon2id c p salt)"
  using password_valid_hash [OF assms] by blast

theorem password_record_witness:
  "\<exists>h. password_hash sample_crypto (replicate 16 (CHR ''s'')) ''correct horse battery'' = Inr h
     \<and> password_valid sample_crypto ''correct horse battery'' h
     \<and> \<not> password_valid sample_crypto ''another long password'' h"
proof -
  obtain h where h: "password_hash sample_crypto (replicate 16 (CHR ''s'')) ''correct horse battery'' = Inr h"
    by (simp add: password_hash_def)
  have "length (argon2id sample_crypto ''correct horse battery'' (replicate 16 (CHR ''s''))) = 32"
    "argon2id sample_crypto ''another long password'' (replicate 16 (CHR ''s''))
      \<noteq> argon2id sample_crypto ''correct horse battery'' (replicate 16 (CHR ''s''))"
    by (simp_all add: sample_crypto_def)
  with password_record [OF h] h show ?thesis by auto
qed
















end
