(* ===== verification/Dashboard.thy ===== *)
theory Dashboard
  imports Server
begin

text \<open>
  The read-only views for operators: the run overview (\<open>internal/server/dashboard.go\<close>) and the
  approvals of a run (\<open>internal/server/approval_history.go\<close>), as the queries they send.
\<close>

section \<open>Approvals of a run\<close>

definition approval_name :: "db \<Rightarrow> approval_row \<Rightarrow> string" where
  "approval_name d a =
     (case pr_operator a of
        None \<Rightarrow> pr_approver a
      | Some i \<Rightarrow> (case find (\<lambda>r. op_id r = i) (t_operators d) of None \<Rightarrow> pr_approver a | Some r \<Rightarrow> op_display r))"

definition approval_in_run :: "db \<Rightarrow> string \<Rightarrow> approval_row \<Rightarrow> bool" where
  "approval_in_run d run a \<longleftrightarrow> (\<exists>e \<in> set (t_envelopes d). er_id e = pr_envelope a \<and> er_run e = run)"

definition list_approvals :: "string \<Rightarrow> db \<Rightarrow> outcome" where
  "list_approvals run d =
     (if \<not> has_run d run then Inl NoRows
      else Inr ((RApprovals (map (\<lambda>a. (a, approval_name d a))
        (take 100 (sort_key (\<lambda>a. (- pr_created a, pr_id a)) (filter (approval_in_run d run) (t_approvals d))))), 200), d))"

section \<open>Overview\<close>

record overview_query =
  oq_page :: string
  oq_search :: string
  oq_filter :: string

definition page_number :: "string \<Rightarrow> int option" where
  "page_number s =
     (if s = [] then Some 1
      else (case parse_sized 64 s of
          None \<Rightarrow> None
        | Some n \<Rightarrow> if n < 1 \<or> n > 100000 then None else Some n))"

definition is_denied :: "result \<Rightarrow> bool" where
  "is_denied r \<longleftrightarrow> decision r = DENY"

definition blocked_handoffs :: "db \<Rightarrow> string \<Rightarrow> handoff_row list" where
  "blocked_handoffs d run = filter (\<lambda>h. ho_run h = run \<and> is_denied (ho_result h)) (t_handoffs d)"

definition blocked_actions :: "db \<Rightarrow> string \<Rightarrow> action_row list" where
  "blocked_actions d run = filter (\<lambda>a. ta_run a = run \<and> is_denied (ta_result a)) (t_actions d)"

definition doc_field :: "(envelope \<Rightarrow> string) \<Rightarrow> env_row \<Rightarrow> string" where
  "doc_field f e = (case er_doc e of None \<Rightarrow> [] | Some v \<Rightarrow> f v)"

text \<open>Runs with their root envelope.\<close>

definition rooted_runs :: "db \<Rightarrow> ((string \<times> int) \<times> env_row) list" where
  "rooted_runs d =
     concat (map (\<lambda>r. map (Pair r) (filter (\<lambda>e. er_run e = fst r \<and> er_parent e = None) (t_envelopes d))) (t_runs d))"

definition run_selected :: "'ctx server \<Rightarrow> db \<Rightarrow> string \<Rightarrow> string \<Rightarrow> (string \<times> int) \<times> env_row \<Rightarrow> bool" where
  "run_selected s d search filt p \<longleftrightarrow>
     (sublist (srv_db_lower s search) (srv_db_lower s (fst (fst p)))
       \<or> sublist (srv_db_lower s search) (srv_db_lower s (doc_field purpose (snd p))))
     \<and> (filt = [] \<or> blocked_handoffs d (fst (fst p)) \<noteq> [] \<or> blocked_actions d (fst (fst p)) \<noteq> [])"

definition summary_of :: "db \<Rightarrow> (string \<times> int) \<times> env_row \<Rightarrow> summary" where
  "summary_of d p =
     (case p of ((run, created), e) \<Rightarrow>
       \<lparr>su_id = run, su_created = created, su_purpose = doc_field purpose e,
        su_agent = doc_field (agent \<circ> recipient) e, su_version = doc_field policy_version e,
        su_envelopes = length (filter (\<lambda>x. er_run x = run) (t_envelopes d)),
        su_handoffs = length (filter (\<lambda>h. ho_run h = run) (t_handoffs d)),
        su_blocked = length (blocked_handoffs d run) + length (blocked_actions d run)\<rparr>)"

definition stats_of :: "db \<Rightarrow> overview_stats" where
  "stats_of d =
     \<lparr>ov_runs = length (t_runs d), ov_handoffs = length (t_handoffs d),
      ov_blocked_handoffs = length (filter (\<lambda>h. is_denied (ho_result h)) (t_handoffs d)),
      ov_blocked_actions = length (filter (\<lambda>a. is_denied (ta_result a)) (t_actions d)),
      ov_versions = length (remdups (map (doc_field policy_version) (t_envelopes d)))\<rparr>"

text \<open>\<open>ORDER BY created_at DESC, id DESC LIMIT 20 OFFSET (page-1)*20\<close>.\<close>

definition page_of :: "int \<Rightarrow> ((string \<times> int) \<times> env_row) list \<Rightarrow> ((string \<times> int) \<times> env_row) list" where
  "page_of page rows = take 20 (drop (nat ((page - 1) * 20)) (rev (sort_key (\<lambda>p. (snd (fst p), fst (fst p))) rows)))"

definition overview :: "'ctx server \<Rightarrow> overview_query \<Rightarrow> db \<Rightarrow> outcome" where
  "overview s q d =
     (case page_number (oq_page q) of
        None \<Rightarrow> Inl (bad ''page must be between 1 and 100000'')
      | Some page \<Rightarrow>
          let search = trim_space (oq_search q)
          in if length search > 100 then Inl (bad ''search must be at most 100 bytes'')
             else if oq_filter q \<noteq> [] \<and> oq_filter q \<noteq> ''blocked'' then Inl (bad ''filter must be blocked or empty'')
             else let rows = filter (run_selected s d search (oq_filter q)) (rooted_runs d)
                  in Inr ((ROverview (stats_of d) (map (summary_of d) (page_of page rows)) (length rows) page, 200), d))"

section \<open>Lemmas\<close>

text \<open>The pages are disjoint pieces of one sorted list of the selected runs: together they give all of it.\<close>

lemma concat_chunks:
  "length xs \<le> 20 * n \<Longrightarrow> concat (map (\<lambda>i. take 20 (drop (20 * i) xs)) [0..<n]) = xs"
proof (induction n arbitrary: xs)
  case (Suc n)
  have u: "[0..<Suc n] = 0 # map Suc [0..<n]" by (simp add: upt_conv_Cons map_Suc_upt del: upt_Suc)
  have s: "(\<lambda>i. take 20 (drop (20 * i) xs)) \<circ> Suc = (\<lambda>i. take 20 (drop (20 * i) (drop 20 xs)))"
    by (simp add: fun_eq_iff add.commute)
  have "concat (map (\<lambda>i. take 20 (drop (20 * i) (drop 20 xs))) [0..<n]) = drop 20 xs"
    using Suc.prems by (intro Suc.IH) simp
  then show ?case unfolding u list.map concat.simps map_map s by simp
qed simp

section \<open>Properties\<close>

text \<open>
  The pages of the overview lose and repeat no run: pages 1 to n of a result of at most 20 n runs
  hold together exactly the selected runs.
\<close>

theorem pages_cover:
  assumes "length rows \<le> 20 * n"
  shows "mset (concat (map (\<lambda>i. page_of (int i + 1) rows) [0..<n])) = mset rows"
proof -
  let ?ys = "rev (sort_key (\<lambda>p. (snd (fst p), fst (fst p))) rows)"
  have "map (\<lambda>i. page_of (int i + 1) rows) [0..<n] = map (\<lambda>i. take 20 (drop (20 * i) ?ys)) [0..<n]"
    by (simp add: page_of_def nat_mult_distrib mult.commute)
  with concat_chunks [of ?ys n] assms
  have "concat (map (\<lambda>i. page_of (int i + 1) rows) [0..<n]) = ?ys" by (simp only: length_rev length_sort)
  then show ?thesis by simp
qed

text \<open>One page for two runs.\<close>

definition sample_rows :: "((string \<times> int) \<times> env_row) list" where
  "sample_rows =
     (let e = \<lparr>er_id = ''env_1'', er_run = ''run_1'', er_parent = None, er_doc = None, er_revoked = None, er_created = 1\<rparr>
      in [((''run_1'', 1), e), ((''run_2'', 2), e\<lparr>er_id := ''env_2'', er_run := ''run_2''\<rparr>)])"

theorem pages_cover_witness: "mset (page_of 1 sample_rows) = mset sample_rows"
  using pages_cover [of sample_rows 1] by (simp add: sample_rows_def Let_def)

end
