(* ===== verification/Api.thy ===== *)
theory Api
  imports History Operators Dashboard
begin

text \<open>
  The HTTP API (\<open>internal/server/server.go\<close>): the routes, the authentication of every call, the
  transaction around a handler and the mapping of errors to statuses; and the histories of the whole
  service (\<open>api_step\<close>): API calls, provisioning and start-up.
\<close>

section \<open>Requests and routes\<close>

text \<open>
  A request that the router has matched: the route, its path values and its decoded body (or the
  error \<open>decode\<close> found).
\<close>

datatype request =
    PostEnvelopes "api_error + create_request"
  | GetEnvelope string
  | PostDelegate string "api_error + envelope"
  | PostRevoke string
  | PostHandoff "api_error + handoff_request"
  | PostAction "api_error + action_request"
  | PostApprovals "api_error + approval_request"
  | GetChain string
  | GetViolations string
  | PostDiff "api_error + diff_request"
  | PostVerify string
  | PostLogin "api_error + login_request"
  | GetMe
  | PostLogout
  | GetApprovals string
  | GetOverview overview_query

fun method_of :: "request \<Rightarrow> string" where
  "method_of (GetEnvelope i) = ''GET''"
| "method_of (GetChain run) = ''GET''"
| "method_of (GetViolations run) = ''GET''"
| "method_of GetMe = ''GET''"
| "method_of (GetApprovals run) = ''GET''"
| "method_of (GetOverview q) = ''GET''"
| "method_of _ = ''POST''"

fun path_of :: "request \<Rightarrow> string" where
  "path_of (PostEnvelopes b) = ''/v1/envelopes''"
| "path_of (GetEnvelope i) = ''/v1/envelopes/'' @ i"
| "path_of (PostDelegate i b) = ''/v1/envelopes/'' @ i @ ''/delegate''"
| "path_of (PostRevoke i) = ''/v1/envelopes/'' @ i @ ''/revoke''"
| "path_of (PostHandoff b) = ''/v1/evaluate/handoff''"
| "path_of (PostAction b) = ''/v1/evaluate/action''"
| "path_of (PostApprovals b) = ''/v1/approvals''"
| "path_of (GetChain run) = ''/v1/runs/'' @ run @ ''/chain''"
| "path_of (GetViolations run) = ''/v1/runs/'' @ run @ ''/violations''"
| "path_of (PostDiff b) = ''/v1/policies/diff''"
| "path_of (PostVerify run) = ''/v1/audit/'' @ run @ ''/verify''"
| "path_of (PostLogin b) = ''/v1/operators/login''"
| "path_of GetMe = ''/v1/operators/me''"
| "path_of PostLogout = ''/v1/operators/logout''"
| "path_of (GetApprovals run) = ''/v1/runs/'' @ run @ ''/approvals''"
| "path_of (GetOverview q) = ''/v1/dashboard/overview''"

fun is_public :: "request \<Rightarrow> bool" where
  "is_public (PostLogin b) = True"
| "is_public _ = False"

fun dispatch :: "activation server \<Rightarrow> draws \<Rightarrow> operator option \<Rightarrow> string \<Rightarrow> request \<Rightarrow> db \<Rightarrow> outcome" where
  "dispatch s w op h (PostEnvelopes b) d = create s w b d"
| "dispatch s w op h (GetEnvelope i) d = get i d"
| "dispatch s w op h (PostDelegate i b) d = delegate s w i b d"
| "dispatch s w op h (PostRevoke i) d = revoke s w i d"
| "dispatch s w op h (PostHandoff b) d = handoff s w b d"
| "dispatch s w op h (PostAction b) d = action s w b d"
| "dispatch s w op h (PostApprovals b) d = approve s w op b d"
| "dispatch s w op h (GetChain run) d = chain run d"
| "dispatch s w op h (GetViolations run) d = run_violations run d"
| "dispatch s w op h (PostDiff b) d = diff_policies s w b d"
| "dispatch s w op h (PostVerify run) d = verify_run s run d"
| "dispatch s w op h (PostLogin b) d = login s w b d"
| "dispatch s w op h GetMe d = me op d"
| "dispatch s w op h PostLogout d = logout s op h d"
| "dispatch s w op h (GetApprovals run) d = list_approvals run d"
| "dispatch s w op h (GetOverview q) d = overview s q d"

section \<open>Authentication and transactions (wrapEndpoint)\<close>

definition has_bearer :: "string \<Rightarrow> bool" where
  "has_bearer h \<longleftrightarrow> prefix ''Bearer '' h"

definition is_service :: "'ctx server \<Rightarrow> string \<Rightarrow> bool" where
  "is_service s h \<longleftrightarrow> has_bearer h \<and> sha256 (srv_crypto s) (bearer h) = srv_token_hash s"

text \<open>What runs inside the transaction.\<close>

definition endpoint :: "activation server \<Rightarrow> draws \<Rightarrow> string \<Rightarrow> request \<Rightarrow> db \<Rightarrow> outcome" where
  "endpoint s w h r d =
     (if \<not> is_public r \<and> \<not> is_service s h then
        rbind (authenticate_operator (srv_crypto s) w h d) (\<lambda>op.
          if \<not> operator_route (method_of r) (path_of r)
          then Inl (denied ''operator cannot perform service operations'')
          else dispatch s w (Some op) h r d)
      else dispatch s w None h r d)"

fun error_reply :: "api_error \<Rightarrow> response \<times> nat" where
  "error_reply (Api status message) = (RError message, status)"
| "error_reply NoRows = (RError ''not found'', 404)"
| "error_reply UniqueViolation = (RError ''record already exists'', 409)"
| "error_reply ForeignKey = (RError ''internal server error'', 500)"
| "error_reply (Internal message) = (RError ''internal server error'', 500)"

definition api ::
  "activation server \<Rightarrow> draws \<Rightarrow> faults \<Rightarrow> string \<Rightarrow> request \<Rightarrow> db \<Rightarrow> (response \<times> nat) \<times> db" where
  "api s w f h r d =
     (if \<not> is_public r \<and> \<not> has_bearer h then ((RError ''unauthorized'', 401), d)
      else (case transaction f (endpoint s w h r) d of
          (Inl e, d') \<Rightarrow> (error_reply e, d')
        | (Inr y, d') \<Rightarrow> (y, d')))"

text \<open>The outcome label of the metrics and the span.\<close>

fun outcome_label :: "request \<Rightarrow> response \<times> nat \<Rightarrow> bool \<Rightarrow> string" where
  "outcome_label r (resp, status) failed =
     (if status \<ge> 500 then ''error''
      else if failed then ''rejected''
      else (case r of
          PostAction b \<Rightarrow>
            (case resp of
               RAction i res ids \<Rightarrow>
                 if decision res = ALLOW then ''allow'' else if decision res = DENY then ''deny'' else ''error''
             | _ \<Rightarrow> ''error'')
        | _ \<Rightarrow> if status \<ge> 400 then ''rejected'' else ''ok''))"

section \<open>Start-up (New)\<close>

definition signing_key :: string where "signing_key = ''signing_key''"

definition pin_key :: "'ctx server \<Rightarrow> db \<Rightarrow> api_error + unit \<times> db" where
  "pin_key s d =
     (let value = hex_encode (srv_pub s);
          d' = (if map_of (t_metadata d) signing_key = None
                then d\<lparr>t_metadata := t_metadata d @ [(signing_key, value)]\<rparr> else d)
      in (case map_of (t_metadata d') signing_key of
            None \<Rightarrow> Inl NoRows
          | Some saved \<Rightarrow>
              if saved \<noteq> value
              then Inl (Internal ''signing key does not match database; key rotation requires explicit migration'')
              else Inr ((), d')))"

text \<open>\<open>New\<close>: the checks on the key and the token, then the pinned key. \<open>derive\<close> is \<open>ed25519.NewKeyFromSeed\<close>.\<close>

definition new_server :: "(string \<Rightarrow> string) \<Rightarrow> 'ctx server \<Rightarrow> string \<Rightarrow> faults \<Rightarrow> db \<Rightarrow> (api_error + unit) \<times> db" where
  "new_server derive s token f d =
     (if length (srv_key s) \<noteq> 64 then (Inl (Internal ''invalid server signing key''), d)
      else if srv_key s \<noteq> derive (take 32 (srv_key s)) then (Inl (Internal ''inconsistent server private key''), d)
      else if length token < 32 then (Inl (Internal ''server token must be at least 32 bytes''), d)
      else transaction f (pin_key s) d)"

section \<open>Histories\<close>

inductive api_step :: "activation server \<Rightarrow> db \<Rightarrow> db \<Rightarrow> bool" for s d d' where
  call: "api s w f h r d = (y, d') \<Longrightarrow> api_step s d d'"
| pinned: "transaction f (pin_key s) d = (y, d') \<Longrightarrow> api_step s d d'"
| provisioned:
    "transaction f (provision_operator (srv_crypto s) w name display role password if_absent) d = (y, d')
     \<Longrightarrow> api_step s d d'"
| changed:
    "transaction f (change_operator (srv_crypto s) w name password disable) d = (y, d') \<Longrightarrow> api_step s d d'"

definition reachable :: "activation server \<Rightarrow> db \<Rightarrow> bool" where
  "reachable s d \<longleftrightarrow> (api_step s)\<^sup>*\<^sup>* empty_db d"

section \<open>Lemmas\<close>

lemma transaction_cases:
  assumes "transaction f fn d = (y, d')"
  obtains (kept) "d' = d" | (committed) x where "y = Inr x" "fn d = Inr (x, d')"
  using assms by (auto simp: transaction_def split: option.splits sum.splits prod.splits)

lemma api_cases:
  assumes "api s w f h r d = ((resp, status), d')"
  obtains (refused) "d' = d" "\<exists>e. resp = RError e"
  | (answered) "endpoint s w h r d = Inr ((resp, status), d')"
proof (cases "\<not> is_public r \<and> \<not> has_bearer h")
  case True
  with assms show thesis by (intro refused) (auto simp: api_def)
next
  case False
  obtain y d1 where t: "transaction f (endpoint s w h r) d = (y, d1)" by (cases "transaction f (endpoint s w h r) d")
  have err: "\<exists>m. fst (error_reply e) = RError m" for e by (cases e) auto
  show thesis
  proof (cases y)
    case (Inl e)
    with assms False t have "(resp, status) = error_reply e" "d' = d1" by (auto simp: api_def)
    moreover from t Inl have "d1 = d" by (cases rule: transaction_cases) auto
    ultimately show thesis using err [of e] by (intro refused) (metis fst_conv)+
  next
    case (Inr x)
    with assms False t have x: "x = (resp, status)" "d' = d1" by (auto simp: api_def)
    from t Inr have "endpoint s w h r d = Inr (x, d1)"
      by (auto simp: transaction_def split: option.splits sum.splits prod.splits)
    with x show thesis by (intro answered) simp
  qed
qed

lemma same_ledger_refl [simp]: "same_ledger d d"
  by (simp add: same_ledger_def)

lemma read_only:
  "get i d = Inr (y, d') \<Longrightarrow> d' = d"
  "chain run d = Inr (y, d') \<Longrightarrow> d' = d"
  "run_violations run d = Inr (y, d') \<Longrightarrow> d' = d"
  "diff_policies s w b d = Inr (y, d') \<Longrightarrow> d' = d"
  "verify_run s run d = Inr (y, d') \<Longrightarrow> d' = d"
  "me op d = Inr (y, d') \<Longrightarrow> d' = d"
  "list_approvals run d = Inr (y, d') \<Longrightarrow> d' = d"
  "overview s q d = Inr (y, d') \<Longrightarrow> d' = d"
  by (auto simp: get_def chain_def run_violations_def diff_policies_def verify_run_def me_def list_approvals_def
      overview_def Let_def result_simps split: option.splits if_splits)

lemma login_ledger: "login s w b d = Inr (y, d') \<Longrightarrow> same_ledger d d'"
proof -
  assume l: "login s w b d = Inr (y, d')"
  then obtain q where "b = Inr q" by (auto simp: login_def result_simps)
  moreover obtain resp status where "y = (resp, status)" by (cases y)
  ultimately have "same_tables d d'" using l login_same_tables by blast
  then obtain x z where "d' = d\<lparr>t_limits := x, t_sessions := z\<rparr>" unfolding same_tables_def by blast
  then show ?thesis by (simp add: same_ledger_def)
qed

lemma logout_ledger: "logout s op h d = Inr (y, d') \<Longrightarrow> same_ledger d d'"
  by (auto simp: logout_def same_ledger_def drop_sessions_def split: if_splits)

lemma dispatch_ledger_step:
  assumes "server_ok s" and "dispatch s w op h r d = Inr (y, d')"
  shows "ledger_step s d d'"
proof (cases r)
  case (PostEnvelopes b)
  with assms(2) obtain q where "b = Inr q" by (auto simp: create_def result_simps)
  with PostEnvelopes assms show ?thesis by (auto intro: create_step)
next
  case (PostDelegate i b)
  with assms show ?thesis by (auto simp: delegate_def result_simps intro: handoff_step)
next
  case (PostRevoke i)
  with assms show ?thesis by (auto intro: revoke_step)
next
  case (PostHandoff b)
  with assms show ?thesis by (auto simp: handoff_def result_simps intro: handoff_step)
next
  case (PostAction b)
  with assms(2) obtain q where "b = Inr q" by (auto simp: action_def result_simps)
  with PostAction assms show ?thesis by (auto intro: action_step)
next
  case (PostApprovals b)
  with assms(2) obtain q where "b = Inr q" by (auto simp: approve_def result_simps split: if_splits)
  with PostApprovals assms show ?thesis by (auto intro: approve_step)
qed (use assms(2) in \<open>auto intro!: quiet dest: read_only login_ledger logout_ledger\<close>)

lemma endpoint_dispatch:
  assumes "endpoint s w h r d = Inr (y, d')"
  obtains (service) "is_public r \<or> is_service s h" "dispatch s w None h r d = Inr (y, d')"
  | (operator) op where "\<not> is_public r" "\<not> is_service s h" "authenticate_operator (srv_crypto s) w h d = Inr op"
      "operator_route (method_of r) (path_of r)" "dispatch s w (Some op) h r d = Inr (y, d')"
  using assms by (auto simp: endpoint_def result_simps split: if_splits)

lemma pin_key_ledger: "pin_key s d = Inr (y, d') \<Longrightarrow> same_ledger d d'"
  by (auto simp: pin_key_def Let_def same_ledger_def split: option.splits if_splits)

lemma provision_ledger: "provision_operator c w name display role password if_absent d = Inr (y, d') \<Longrightarrow> same_ledger d d'"
  by (auto simp: provision_operator_def insert_operator_def result_simps same_ledger_def split: if_splits)

lemma change_ledger: "change_operator c w name password disable d = Inr (y, d') \<Longrightarrow> same_ledger d d'"
  by (auto simp: change_operator_def update_operator_def drop_sessions_def result_simps same_ledger_def
      split: if_splits option.splits)

lemma api_step_ledger:
  assumes "server_ok s" and "api_step s d d'"
  shows "ledger_step s d d'"
  using assms(2)
proof cases
  case (call w f h r y)
  obtain resp status where "api s w f h r d = ((resp, status), d')" using call by (cases y) auto
  then show ?thesis
  proof (cases rule: api_cases)
    case refused
    then show ?thesis by (intro quiet) simp
  next
    case answered
    then show ?thesis
      by (cases rule: endpoint_dispatch) (auto intro: dispatch_ledger_step [OF assms(1)])
  qed
next
  case (pinned f y)
  then show ?thesis by (cases rule: transaction_cases) (auto intro!: quiet dest: pin_key_ledger)
next
  case (provisioned f w name display role password if_absent y)
  then show ?thesis by (cases rule: transaction_cases) (auto intro!: quiet dest: provision_ledger)
next
  case (changed f w name password disable y)
  then show ?thesis by (cases rule: transaction_cases) (auto intro!: quiet dest: change_ledger)
qed

lemma api_steps_ledger:
  "server_ok s \<Longrightarrow> (api_step s)\<^sup>*\<^sup>* d d' \<Longrightarrow> (ledger_step s)\<^sup>*\<^sup>* d d'"
  using api_step_ledger by (metis mono_rtranclp)

lemma reachable_ledger_ok: "server_ok s \<Longrightarrow> reachable s d \<Longrightarrow> ledger_ok s d"
  unfolding reachable_def using api_steps_ledger sound_ledger.reachable_inv by blast

lemma api_steps_extend: "server_ok s \<Longrightarrow> (api_step s)\<^sup>*\<^sup>* d d' \<Longrightarrow> extends d d'"
  using api_steps_ledger ledger_history.steps_grow by blast

lemma reachable_steps: "reachable s d \<Longrightarrow> (api_step s)\<^sup>*\<^sup>* d d' \<Longrightarrow> reachable s d'"
  unfolding reachable_def by (rule rtranclp_trans)

end
