(* ===== verification/Progress.thy ===== *)
theory Progress
  imports Api
begin

text \<open>
  What a request is answered with: an action against a stored envelope is always decided and recorded
  (ALLOW or DENY) once its identifiers are fresh, so a denial never leaves the caller without a verdict
  or the log without an entry.
\<close>

section \<open>Rows refer to runs that exist\<close>

definition runs_exist :: "db \<Rightarrow> bool" where
  "runs_exist d \<longleftrightarrow> (\<forall>r \<in> set (t_envelopes d). has_run d (er_run r))"

lemma loaded_has_run:
  assumes "runs_exist d" and "load d i = Inr v"
  shows "has_run d (st_run v)"
proof -
  obtain r where "find_envelope d i = Some r" "st_run v = er_run r" using assms(2) by (auto simp: load_Inr)
  then show ?thesis using assms(1) find_envelope_in [of d i r] by (auto simp: runs_exist_def)
qed

lemma runs_exist_step:
  assumes "runs_exist d" and "ledger_step s d d'"
  shows "runs_exist d'"
  using assms(2)
proof cases
  case (delegated i p now v t r n hid res)
  then show ?thesis using assms(1) loaded_has_run [OF assms(1), of i p] by (simp add: runs_exist_def has_run_def)
qed (use assms(1) in \<open>auto simp: runs_exist_def same_ledger_def has_run_def\<close>)

interpretation runs: invariant_system empty_db "ledger_step s" runs_exist for s
  by unfold_locales (simp add: runs_exist_def empty_db_def, erule (1) runs_exist_step)

lemma reachable_runs_exist: "server_ok s \<Longrightarrow> reachable s d \<Longrightarrow> runs_exist d"
  unfolding reachable_def using api_steps_ledger runs.reachable_inv by blast

section \<open>Inserts that succeed\<close>

lemma record_violations_ok:
  assumes "has_run d run" and "has_envelope d i"
  shows "\<exists>vs. record_violations run i res d = Inr (d\<lparr>t_violations := t_violations d @ vs\<rparr>)"
proof -
  have "\<exists>vs. fold_result (\<lambda>v. insert_violation \<lparr>vr_run = run, vr_envelope = i, vr_violation = v\<rparr>) xs d
      = Inr (d\<lparr>t_violations := t_violations d @ vs\<rparr>)" if "has_run d run" "has_envelope d i" for xs d
    using that
  proof (induction xs arbitrary: d)
    case Nil
    show ?case by (rule exI [of _ "[]"]) simp
  next
    case (Cons x xs)
    let ?r = "\<lparr>vr_run = run, vr_envelope = i, vr_violation = x\<rparr>"
    have "insert_violation ?r d = Inr (d\<lparr>t_violations := t_violations d @ [?r]\<rparr>)"
      using Cons.prems by (simp add: insert_violation_def)
    moreover obtain vs where "fold_result (\<lambda>v. insert_violation \<lparr>vr_run = run, vr_envelope = i, vr_violation = v\<rparr>) xs
        (d\<lparr>t_violations := t_violations d @ [?r]\<rparr>) = Inr (d\<lparr>t_violations := t_violations d @ [?r] @ vs\<rparr>)"
      using Cons.IH [of "d\<lparr>t_violations := t_violations d @ [?r]\<rparr>"] Cons.prems
      by (auto simp: has_run_def has_envelope_def)
    ultimately show ?case by (intro exI [of _ "[?r] @ vs"]) simp
  qed
  with assms show ?thesis by (simp add: record_violations_def)
qed

lemma append_audit_ok:
  assumes "new_id ''evt_'' rand \<notin> au_id ` set (t_audit d)" and "has_run d run"
  shows "\<exists>d'. append_audit c rand now run kind payload d = Inr d'"
  using assms by (auto simp: append_audit_def insert_audit_def audit_event_def Let_def)

text \<open>A complete request whose arguments convert, against a stored envelope, is decided and recorded.\<close>

lemma action_answers:
  assumes "\<not> (ac_envelope q = [] \<or> ac_agent q = [] \<or> ac_tool q = [] \<or> ac_arguments q = None)"
    and "load d (ac_envelope q) = Inr v" and "has_run d (st_run v)"
    and "cel_values (JObj (elems (ac_arguments q))) = Inr args"
    and "new_id ''action_'' (d_action w) \<notin> ta_id ` set (t_actions d)"
    and "new_id ''evt_'' (d_event w) \<notin> au_id ` set (t_audit d)"
    and "decide s (d_now w) d v q (arguments_hash s (ac_arguments q)) args = (res, ids)"
  shows "\<exists>d'. action s w (Inr q) d
    = Inr ((RAction (new_id ''action_'' (d_action w)) res ids, if decision res = DENY then 403 else 200), d')"
proof -
  obtain r where "find_envelope d (ac_envelope q) = Some r" using assms(2) by (auto simp: load_Inr)
  then have e: "has_envelope d (ac_envelope q)"
    using find_envelope_in [of d "ac_envelope q" r] by (force simp: has_envelope_def)
  let ?row = "\<lparr>ta_id = new_id ''action_'' (d_action w), ta_run = st_run v, ta_envelope = ac_envelope q,
           ta_agent = ac_agent q, ta_tool = ac_tool q, ta_hash = arguments_hash s (ac_arguments q),
           ta_result = res, ta_created = d_txnow w\<rparr>"
  let ?d0 = "fold (consume_approval (micros (inst (d_now w)))) ids d"
  have t: "t_actions (fold (consume_approval t) ids d) = t_actions d" for t
    by (induction ids arbitrary: d) (simp_all add: consume_approval_def)
  have "decision res \<in> {ALLOW, DENY}"
    using decide_decision [of s "d_now w" d v q "arguments_hash s (ac_arguments q)" args] assms(7) by simp
  then have i: "insert_action ?row ?d0 = Inr (?d0\<lparr>t_actions := t_actions d @ [?row]\<rparr>)"
    using assms(3,5) e by (simp add: insert_action_def t has_run_def has_envelope_def)
  let ?d1 = "?d0\<lparr>t_actions := t_actions d @ [?row]\<rparr>"
  obtain vs where v: "record_violations (st_run v) (ac_envelope q) res ?d1 = Inr (?d1\<lparr>t_violations := t_violations ?d1 @ vs\<rparr>)"
    using record_violations_ok [of ?d1 "st_run v" "ac_envelope q" res] assms(3) e
    by (auto simp: has_run_def has_envelope_def)
  let ?d2 = "?d1\<lparr>t_violations := t_violations ?d1 @ vs\<rparr>"
  have "new_id ''evt_'' (d_event w) \<notin> au_id ` set (t_audit ?d2)" "has_run ?d2 (st_run v)"
    using assms(3,6) by (simp_all add: has_run_def)
  from append_audit_ok [OF this] obtain d' where
    "append_audit (srv_crypto s) (d_event w) (d_audit w) (st_run v) ''action.evaluated''
       (action_payload w q (new_id ''action_'' (d_action w)) (arguments_hash s (ac_arguments q)) res ids) ?d2 = Inr d'"
    by blast
  from action_ok [OF assms(1,2,4,7) i v this] show ?thesis by blast
qed

end
