(* ===== verification/Integrity.thy ===== *)
theory Integrity
  imports Ledger Json_Inject
begin

text \<open>
  What audit verification shows (\<open>verifyAudit\<close> in \<open>internal/server/audit.go\<close>).  On a sound ledger it
  reports VALID.  Conversely two logs that verify and have the same head hash record the same events,
  as long as SHA-256 does not collide on the texts of the logs; \<open>hash_chain\<close> is the interface of that
  argument.
\<close>

section \<open>A sound ledger verifies\<close>

lemma map_of_put [simp]: "map_of (put k v m) = (map_of m)(k \<mapsto> v)"
proof -
  have "map_of (filter (\<lambda>p. fst p \<noteq> k) m) x = (if x = k then None else map_of m x)" for x
    by (induction m) auto
  then show ?thesis by (auto simp: put_def fun_eq_iff)
qed

lemma put_keys: "set (put k v m) \<subseteq> insert (k, v) (set m)"
  by (auto simp: put_def)

lemma put_distinct: "distinct (map fst m) \<Longrightarrow> distinct (map fst (put k v m))"
  by (induction m) (auto simp: put_def)

fun put_all :: "('k \<times> 'v) list \<Rightarrow> ('k \<times> 'v) list \<Rightarrow> ('k \<times> 'v) list" where
  "put_all [] m = m"
| "put_all (p # ps) m = put_all ps (put (fst p) (snd p) m)"

lemma put_all_map_of: "map_of (put_all ps m) = map_of m ++ map_of (rev ps)"
  by (induction ps arbitrary: m) (auto simp: map_add_def fun_eq_iff split: option.splits)

lemma put_all_distinct: "distinct (map fst m) \<Longrightarrow> distinct (map fst (put_all ps m))"
  by (induction ps arbitrary: m) (auto simp: put_distinct)

lemma put_all_pairs:
  assumes "distinct (map fst ps)"
  shows "set (put_all ps []) = set ps" and "map_of (put_all ps []) = map_of ps"
proof -
  have m: "map_of (rev ps) = map_of ps"
    using assms by (intro map_of_mset_cong [symmetric]) simp_all
  then show "map_of (put_all ps []) = map_of ps" by (simp add: put_all_map_of)
  moreover have "distinct (map fst (put_all ps []))" by (simp add: put_all_distinct)
  ultimately show "set (put_all ps []) = set ps" using assms by (metis map_of_inject_set)
qed

text \<open>The verifier's state after a chain of intact events with proper snapshots.\<close>

lemma verify_events_intact:
  assumes "linked_events c (vs_previous st) es" and "\<forall>p \<in> set (concat (map event_pairs es)). fst p \<noteq> [] \<and> snd p \<noteq> []"
  shows "vs_failures (fold (verify_event c) es st) = vs_failures st
    \<and> vs_previous (fold (verify_event c) es st) = head_hash (vs_previous st) es
    \<and> vs_count (fold (verify_event c) es st) = vs_count st + length es
    \<and> vs_snapshots (fold (verify_event c) es st) = put_all (concat (map event_pairs es)) (vs_snapshots st)"
  using assms
proof (induction es arbitrary: st)
  case (Cons e es)
  have "vs_failures (verify_event c e st) = vs_failures st"
    "vs_previous (verify_event c e st) = au_hash e" "vs_count (verify_event c e st) = Suc (vs_count st)"
    "vs_snapshots (verify_event c e st) = put_all (event_pairs e) (vs_snapshots st)"
    using Cons.prems by (auto simp: verify_event_def Let_def event_pairs_def split: option.splits)
  moreover have "put_all (xs @ ys) m = put_all ys (put_all xs m)" for xs ys and m :: "(string \<times> string) list"
    by (induction xs arbitrary: m) auto
  ultimately show ?case using Cons by simp
qed simp

lemma run_rows_set: "set (run_rows run d) = {r \<in> set (t_envelopes d). er_run r = run}"
  by (auto simp: run_rows_def)

definition doc_pair :: "env_row \<Rightarrow> string \<times> envelope" where
  "doc_pair r = (er_id r, the (er_doc r))"

lemma read_envelopes:
  "\<forall>r \<in> set rs. er_doc r \<noteq> None \<Longrightarrow> fold_result read_envelope rs m = Inr (put_all (map doc_pair rs) m)"
  by (induction rs arbitrary: m) (auto simp: read_envelope_def doc_pair_def)

lemma verify_sound_ledger:
  assumes ok: "ledger_ok s d" and run: "has_run d run"
  shows "\<exists>rep. verify_audit (srv_crypto s) (srv_pub s) run d = Inr rep \<and> rp_status rep = ''VALID''
    \<and> rp_failures rep = [] \<and> rp_events rep = length (events_of run d) \<and> rp_head rep = last_hash run d"
proof -
  let ?rs = "run_rows run d" and ?pairs = "run_pairs run d"
  let ?envs = "put_all (map doc_pair ?rs) []"
  have rows: "row_ok s (t_envelopes d) r" if "r \<in> set ?rs" for r
    using that ok by (simp add: run_rows_set ledger_ok_def)
  have dist: "distinct (map er_id ?rs)"
    using ok unfolding run_rows_def ledger_ok_def by (simp add: distinct_map inj_on_def)
  have pairs: "?pairs = map row_pair (filter (\<lambda>r. er_run r = run) (t_envelopes d))"
    using ok by (simp add: ledger_ok_def row_pairs_def)
  have pair_dist: "distinct (map fst ?pairs)"
    using ok unfolding pairs ledger_ok_def by (simp add: row_pair_def comp_def distinct_map inj_on_def)
  have pair_set: "set ?pairs = row_pair ` set ?rs" by (simp add: pairs run_rows_set)
  have doc: "\<exists>v. er_doc r = Some v \<and> env_id v = er_id r \<and> issued s v" if "r \<in> set ?rs" for r
    using rows [OF that] by (auto simp: row_ok_def split: option.splits)
  have proper: "\<forall>p \<in> set ?pairs. fst p \<noteq> [] \<and> snd p \<noteq> []"
    unfolding pair_set using doc by (fastforce simp: row_pair_def issued_def)
  define st where "st = verify_events (srv_crypto s) (events_of run d)"
  have st: "vs_failures st = []" "vs_previous st = last_hash run d" "vs_count st = length (events_of run d)"
    "vs_snapshots st = put_all ?pairs []"
    using verify_events_intact [of "srv_crypto s" "\<lparr>vs_failures = [], vs_previous = [], vs_count = 0, vs_snapshots = []\<rparr>"
        "events_of run d"] ok proper
    by (auto simp: st_def verify_events_def ledger_ok_def run_pairs_def last_hash_head)
  have count: "vs_count st \<noteq> 0" using ok run by (simp add: st(3) ledger_ok_def)
  have envs: "fold_result read_envelope ?rs [] = Inr ?envs"
    using doc by (intro read_envelopes) auto
  have env_set: "set ?envs = doc_pair ` set ?rs" and env_map: "map_of ?envs = map_of (map doc_pair ?rs)"
    using put_all_pairs [of "map doc_pair ?rs"] dist by (simp_all add: doc_pair_def comp_def)
  have env_of: "map_of ?envs (er_id r) = er_doc r" if "r \<in> set ?rs" for r
  proof -
    have "(er_id r, the (er_doc r)) \<in> set (map doc_pair ?rs)" using that by (auto simp: doc_pair_def)
    moreover have "distinct (map fst (map doc_pair ?rs))" using dist by (simp add: doc_pair_def comp_def)
    ultimately have "map_of (map doc_pair ?rs) (er_id r) = Some (the (er_doc r))" by (rule map_of_is_SomeI [rotated])
    with doc [OF that] env_map show ?thesis by auto
  qed
  have snap_set: "set (vs_snapshots st) = set ?pairs" and snap_map: "map_of (vs_snapshots st) = map_of ?pairs"
    unfolding st(4) by (rule put_all_pairs [OF pair_dist])+
  have snaps_ok: "check_snapshot ?envs p = []" if "p \<in> set (vs_snapshots st)" for p
    using that env_of doc unfolding snap_set pair_set by (fastforce simp: check_snapshot_def row_pair_def)
  have parent: "parent_text ?rs (er_id r) = (case er_parent r of None \<Rightarrow> [] | Some p \<Rightarrow> p)" if "r \<in> set ?rs" for r
  proof -
    have "find (\<lambda>x. er_id x = er_id r) xs = Some r" if "distinct (map er_id xs)" "r \<in> set xs" for xs
      using that by (induction xs) (auto simp: rev_image_eqI)
    then show ?thesis using dist that by (simp add: parent_text_def)
  qed
  have envs_ok: "check_envelope (srv_crypto s) (srv_pub s) (vs_snapshots st) ?envs ?rs p = []"
    if "p \<in> set ?envs" for p
  proof -
    obtain r where r: "r \<in> set ?rs" "p = doc_pair r" using \<open>p \<in> set ?envs\<close> unfolding env_set by blast
    obtain v where v: "er_doc r = Some v" "env_id v = er_id r" "issued s v"
      "er_parent r = (if parent_envelope v \<noteq> [] then Some (parent_envelope v) else None)"
      using rows [OF r(1)] by (auto simp: row_ok_def split: option.splits)
    have "row_pair r \<in> set ?pairs" using r(1) pair_set by simp
    then have "map_of (vs_snapshots st) (er_id r) = Some (signature v)"
      unfolding snap_map using v(1) pair_dist by (intro map_of_is_SomeI) (simp_all add: row_pair_def)
    moreover have "parent_text ?rs (er_id r) = parent_envelope v"
      using parent [OF r(1)] v(4) by (simp split: if_splits)
    moreover have "map_of ?envs (parent_envelope v) \<noteq> None" if parented: "parent_envelope v \<noteq> []"
    proof -
      obtain x where "x \<in> set ?rs" "er_id x = parent_envelope v"
        using rows [OF r(1)] v(1) parented r(1) by (auto simp: row_ok_def run_rows_set)
      then show ?thesis using env_of doc by force
    qed
    ultimately show ?thesis using v r(2) by (auto simp: check_envelope_def doc_pair_def issued_def)
  qed
  have "sort (vs_failures st @ (if vs_count st = 0 then [''missing audit events''] else [])
      @ concat (map (check_snapshot ?envs) (vs_snapshots st))
      @ concat (map (check_envelope (srv_crypto s) (srv_pub s) (vs_snapshots st) ?envs ?rs) ?envs)) = []"
    using st(1) count snaps_ok envs_ok by simp
  then show ?thesis
    using run st count by (simp add: verify_audit_def Let_def envs flip: st_def)
qed

section \<open>Hash chains\<close>

text \<open>
  Events whose hash binds their content and the hash before them, and is never the start value: the
  last hash of a chain determines the contents of the whole chain.
\<close>

locale hash_chain =
  fixes previous hash :: "'e \<Rightarrow> 'h" and content :: "'e \<Rightarrow> 'c" and proper :: "'e \<Rightarrow> bool" and start :: 'h
  assumes hash_binds: "proper a \<Longrightarrow> proper b \<Longrightarrow> hash a = hash b \<Longrightarrow> content a = content b \<and> previous a = previous b"
    and hash_not_start: "proper a \<Longrightarrow> hash a \<noteq> start"
begin

fun chained :: "'h \<Rightarrow> 'e list \<Rightarrow> bool" where
  "chained h [] = True"
| "chained h (e # es) \<longleftrightarrow> previous e = h \<and> chained (hash e) es"

definition last_of :: "'h \<Rightarrow> 'e list \<Rightarrow> 'h" where
  "last_of h es = (if es = [] then h else hash (last es))"

lemma chained_append: "chained h (es @ [e]) \<longleftrightarrow> chained h es \<and> previous e = last_of h es"
  by (induction es arbitrary: h) (auto simp: last_of_def)

lemma same_head:
  assumes "chained start es" "chained start fs" and "\<forall>e \<in> set es. proper e" "\<forall>e \<in> set fs. proper e"
    and "last_of start es = last_of start fs"
  shows "map content es = map content fs"
  using assms
proof (induction es arbitrary: fs rule: rev_induct)
  case Nil
  show ?case
  proof (cases fs rule: rev_cases)
    case (snoc gs f)
    with Nil.prems have "hash f \<noteq> start" by (intro hash_not_start) simp
    with Nil.prems snoc show ?thesis by (simp add: last_of_def)
  qed simp
next
  case (snoc e es)
  from snoc.prems(5) have "fs \<noteq> []"
    using snoc.prems(3) hash_not_start by (auto simp: last_of_def)
  then obtain gs f where fs: "fs = gs @ [f]" by (meson rev_exhaust)
  have "content e = content f" "previous e = previous f"
    using snoc.prems hash_binds [of e f] by (simp_all add: fs last_of_def)
  moreover have "map content es = map content gs"
    using snoc.prems calculation(2) by (intro snoc.IH) (auto simp: fs chained_append)
  ultimately show ?case by (simp add: fs)
qed

end

section \<open>The audit log is a hash chain\<close>

text \<open>
  \<open>sorted_json\<close> is a decoded payload as it is hashed.  What an event says: everything it stores but
  its own hashes; its time as it is printed.
\<close>

definition event_content :: "audit_row \<Rightarrow> string \<times> string \<times> string \<times> json \<times> string" where
  "event_content e = (au_id e, au_run e, au_type e, sort_keys (au_payload e), rfc3339_nano (utc (au_time e)))"

definition header_text :: "audit_row \<Rightarrow> string" where
  "header_text e = print_json (encode_header (row_header e))"

definition payload_text :: "audit_row \<Rightarrow> string" where
  "payload_text e = marshal_any (au_payload e)"

text \<open>Texts that a JSON decoder can give.\<close>

definition event_ok :: "audit_row \<Rightarrow> bool" where
  "event_ok e \<longleftrightarrow>
     valid_utf8 (au_id e) \<and> valid_utf8 (au_run e) \<and> valid_utf8 (au_type e) \<and> valid_utf8 (au_payload_hash e)
     \<and> valid_utf8 (au_previous e) \<and> valid_utf8 (rfc3339_nano (utc (au_time e))) \<and> json_ok (sort_keys (au_payload e))"

text \<open>SHA-256 gives a nonempty digest and does not collide on the texts in \<open>T\<close>.\<close>

definition collision_free :: "crypto \<Rightarrow> string set \<Rightarrow> bool" where
  "collision_free c T \<longleftrightarrow> inj_on (sha256 c) T \<and> (\<forall>m. sha256 c m \<noteq> [])"

definition proper_event :: "crypto \<Rightarrow> string set \<Rightarrow> audit_row \<Rightarrow> bool" where
  "proper_event c T e \<longleftrightarrow>
     collision_free c T \<and> header_text e \<in> T \<and> payload_text e \<in> T \<and> event_ok e
     \<and> event_intact c (au_previous e) e"

lemma digest_text_inject:
  "collision_free c T \<Longrightarrow> s \<in> T \<Longrightarrow> t \<in> T \<Longrightarrow> digest_text c s = digest_text c t \<Longrightarrow> s = t"
  by (auto simp: digest_text_def hex_encode_inject collision_free_def inj_on_def)

lemma digest_text_nonempty: "collision_free c T \<Longrightarrow> digest_text c s \<noteq> []"
  by (simp add: digest_text_def collision_free_def)

lemma print_json_eq: "json_ok v \<Longrightarrow> json_ok w \<Longrightarrow> print_json v = print_json w \<Longrightarrow> v = w"
  using print_json_inject [of v "[]" w "[]"] by simp

lemma header_inject:
  assumes "header_text a = header_text b" and "event_ok a" "event_ok b"
  shows "au_id a = au_id b \<and> au_run a = au_run b \<and> au_type a = au_type b \<and> au_payload_hash a = au_payload_hash b
    \<and> au_previous a = au_previous b \<and> rfc3339_nano (utc (au_time a)) = rfc3339_nano (utc (au_time b))"
proof -
  have u: "valid_utf8 ''id''" "valid_utf8 ''run_id''" "valid_utf8 ''event_type''" "valid_utf8 ''payload_hash''"
    "valid_utf8 ''previous_event_hash''" "valid_utf8 ''timestamp''"
    by code_simp+
  have ok: "json_ok (encode_header (row_header e))" if "event_ok e" for e
    using that u unfolding encode_header_def row_header_def event_ok_def
    by (simp only: json_ok.simps audit_header.simps list.set ball_simps prod.case)
  have "encode_header (row_header a) = encode_header (row_header b)"
    using assms by (intro print_json_eq ok) (simp_all only: header_text_def)
  then show ?thesis
    unfolding encode_header_def row_header_def audit_header.simps json.inject list.inject prod.inject by blast
qed

lemma event_intact_iff:
  "event_intact c p e \<longleftrightarrow>
     au_previous e = p \<and> digest_text c (header_text e) = au_hash e
     \<and> digest_text c (payload_text e) = au_payload_hash e"
  unfolding event_intact_def header_hash_def header_text_def digest_def payload_text_def
  by (simp only: de_Morgan_disj not_not)

lemma proper_event_hashes:
  assumes "proper_event c T e"
  shows "digest_text c (header_text e) = au_hash e" and "digest_text c (payload_text e) = au_payload_hash e"
  using assms by (simp_all only: proper_event_def event_intact_iff)

lemma proper_event_inject:
  assumes "proper_event c T a" and "proper_event c T b" and "digest_text c s = digest_text c t"
    and "s \<in> {header_text a, payload_text a}" and "t \<in> {header_text b, payload_text b}"
  shows "s = t"
proof (rule digest_text_inject [of c T])
  show "collision_free c T" "s \<in> T" "t \<in> T"
    using assms(1,2,4,5) unfolding proper_event_def insert_iff empty_iff by blast+
qed (rule assms(3))

lemma proper_event_binds:
  assumes a: "proper_event c T a" and b: "proper_event c T b" and eq: "au_hash a = au_hash b"
  shows "event_content a = event_content b \<and> au_previous a = au_previous b"
proof -
  have ok: "event_ok a" "event_ok b" using a b by (simp_all add: proper_event_def)
  have "header_text a = header_text b"
    by (rule proper_event_inject [OF a b]) (simp_all add: proper_event_hashes [OF a] proper_event_hashes [OF b] eq)
  note h = header_inject [OF this ok]
  have "payload_text a = payload_text b"
    by (rule proper_event_inject [OF a b]) (simp_all add: proper_event_hashes [OF a] proper_event_hashes [OF b] h)
  then have "print_json (sort_keys (au_payload a)) = print_json (sort_keys (au_payload b))"
    by (simp only: payload_text_def marshal_any_def)
  then have "sort_keys (au_payload a) = sort_keys (au_payload b)"
    using ok by (intro print_json_eq) (simp_all only: event_ok_def)
  with h show ?thesis by (simp only: event_content_def)
qed

interpretation audit_log: hash_chain au_previous au_hash event_content "proper_event c T" "[]" for c T
proof
  show "proper_event c T a \<Longrightarrow> proper_event c T b \<Longrightarrow> au_hash a = au_hash b \<Longrightarrow>
      event_content a = event_content b \<and> au_previous a = au_previous b" for a b
    by (rule proper_event_binds)
  show "proper_event c T a \<Longrightarrow> au_hash a \<noteq> []" for a
    using digest_text_nonempty [of c T "header_text a"] proper_event_hashes(1) [of c T a]
    by (auto simp: proper_event_def)
qed

end
