(* ===== verification/Scenario.thy ===== *)
theory Scenario
  imports Progress Integrity Sample_Server
begin

text \<open>
  A history of the service, for the witnesses: a run with the two envelopes of \<open>examples/\<close> (the
  child may also create refunds), an approval, an action that uses it, a second action, and the
  revocation of the root.  The server accepts demonstration approvals.
\<close>

section \<open>Conditions on the arguments of an action\<close>

definition amount_of :: "activation \<Rightarrow> int option" where
  "amount_of ctx =
     (case map_of ctx ''refund'' of
        Some (VMap kvs) \<Rightarrow> (case map_of kvs ''amount'' of Some (VInt n) \<Rightarrow> Some n | _ \<Rightarrow> None)
      | _ \<Rightarrow> None)"

definition action_cel :: "activation cel" where
  "action_cel =
     \<lparr>cel_compile = cel_compile sample_cel, cel_unparse = cel_unparse sample_cel,
      cel_program = cel_program sample_cel, cel_eval = (\<lambda>a ctx. cel_eval sample_cel a (amount_of ctx))\<rparr>"

lemma action_cel_eval [simp]:
  "cel_eval action_cel a ctx = cel_eval sample_cel a (amount_of ctx)"
  "cel_unparse action_cel = cel_unparse sample_cel"
  "holds action_cel a ctx = holds sample_cel a (amount_of ctx)"
  by (simp_all add: action_cel_def holds_def)

lemma action_laws: "cel_laws action_cel (\<lambda>f ctx. sample_num f (amount_of ctx))"
  unfolding cel_laws_def
proof (intro conjI allI impI)
  fix a b :: ast and s
  assume "cel_unparse action_cel a = Some s" "cel_unparse action_cel b = Some s"
  then have "cel_eval sample_cel a = cel_eval sample_cel b"
    using sample_laws unfolding cel_laws_def action_cel_eval by blast
  then show "cel_eval action_cel a = cel_eval action_cel b" by (simp add: fun_eq_iff)
next
  fix a :: ast and ctx
  assume "cel_unparse action_cel a = Some ''true''"
  then show "cel_eval action_cel a ctx = Inr (CelBool True)"
    using sample_laws unfolding cel_laws_def action_cel_eval by blast
next
  fix a :: ast and ctx
  assume "cel_unparse action_cel a = Some ''false''"
  then show "cel_eval action_cel a ctx = Inr (CelBool False)"
    using sample_laws unfolding cel_laws_def action_cel_eval by blast
next
  fix a :: ast and f op n ctx
  assume "threshold (ast_expr a) = Some (f, op, n)" "op \<in> {op_gt, op_ge, op_lt, op_le}" "\<bar>n\<bar> \<le> 2 ^ 53"
  then show "holds action_cel a ctx = (\<exists>x. sample_num f (amount_of ctx) = Some x \<and> compares op x n)"
    using sample_laws unfolding cel_laws_def action_cel_eval by blast
qed

lemma compile_action_cel [simp]: "compile action_cel = compile sample_cel"
  by (simp add: compile_def action_cel_def fun_eq_iff)

section \<open>The envelopes\<close>

definition sample_sig :: string where
  "sample_sig = b64_encode ''sig''"

definition signed_by :: "envelope \<Rightarrow> envelope" where
  "signed_by e = e\<lparr>signature := sample_sig\<rparr>"

definition root_env :: envelope where
  "root_env = signed_by sample_parent"

definition child_policy :: envelope where
  "child_policy = sample_child\<lparr>allowed_actions := Some [''orders.read'', ''refunds.create'']\<rparr>"

definition child_env :: envelope where
  "child_env = signed_by child_policy"

lemma sample_signs: "sign sample_crypto e sample_key = Inr (sample_sig)"
  by (simp add: sign_def sample_crypto_def sample_key_def sample_sig_def)

lemma signed_verifies: "verify sample_crypto (signed_by e) sample_pub = Inr ()"
  unfolding signed_by_def using verify_signed [OF sample_key_pair sample_signs] by blast

lemma policy_ok_signed [simp]: "policy_ok c (signed_by e) now = policy_ok c e now"
  by (simp add: policy_ok_def signed_by_def)

lemma policy_ok_later: "policy_ok c v now \<Longrightarrow> after (expires_at v) now' \<Longrightarrow> policy_ok c v now'"
  by (simp add: policy_ok_def)

lemma allows_later:
  "allows c now p v \<Longrightarrow> after (expires_at p) now' \<Longrightarrow> after (expires_at v) now' \<Longrightarrow> allows c now' p v"
  using policy_ok_later unfolding allows_iff by blast

lemma allows_signed: "allows c now p v \<Longrightarrow> allows c now (signed_by p) (signed_by v)"
  "allows c now p v \<Longrightarrow> allows c now (signed_by p) v"
  by (simp_all add: allows_iff signed_by_def policy_ok_def lineage_ok_def authority_narrows_def approvals_inherited_def)

lemma child_allowed: "allows action_cel sample_now sample_parent child_policy"
  unfolding allows_def by code_simp

definition in_time :: "gtime \<Rightarrow> bool" where
  "in_time t \<longleftrightarrow> inst t < 65000000000000000000"

lemma expires_in_time:
  "in_time t \<Longrightarrow> after (expires_at sample_parent) t" "in_time t \<Longrightarrow> after (expires_at child_policy) t"
  "in_time t \<Longrightarrow> after (expires_at root_env) t" "in_time t \<Longrightarrow> after (expires_at child_env) t"
  by (simp_all add: in_time_def after_def sample_parent_def child_policy_def sample_child_def utc_def
      root_env_def child_env_def signed_by_def)

lemma scene_policies:
  assumes "in_time t"
  shows "policy_ok action_cel sample_parent t" "policy_ok action_cel root_env t" "policy_ok action_cel child_env t"
    "allows action_cel t sample_parent child_policy" "allows action_cel t root_env child_policy"
    "allows action_cel t root_env child_env"
  using child_allowed allows_later [OF child_allowed expires_in_time(1,2) [OF assms]]
    allows_signed [of action_cel t sample_parent child_policy]
    policy_ok_later [of action_cel _ sample_now t] expires_in_time [OF assms]
  by (auto simp: allows_iff root_env_def child_env_def)

lemma env_ids [simp]:
  "env_id root_env = ''env_parent''" "env_id child_env = ''env_child''" "env_id child_policy = ''env_child''"
  "parent_envelope root_env = []" "parent_envelope child_env = ''env_parent''"
  "parent_envelope child_policy = ''env_parent''" "current_depth (env_delegation root_env) = 0"
  by (simp_all add: root_env_def child_env_def child_policy_def signed_by_def sample_parent_def sample_child_def)

section \<open>Active envelopes\<close>

definition demo_server :: "activation server" where
  "demo_server = (server_with action_cel)\<lparr>srv_demo := True\<rparr>"

lemma demo_simps [simp]:
  "srv_crypto demo_server = sample_crypto" "srv_cel demo_server = action_cel" "srv_key demo_server = sample_key"
  "srv_pub demo_server = sample_pub" "srv_demo demo_server = True"
  by (simp_all add: demo_server_def)

lemma demo_ok: "server_ok demo_server"
  by (simp add: server_ok_def sample_key_pair)

definition run_1 :: string where "run_1 = ''run_1''"

definition root_stored :: stored where
  "root_stored = \<lparr>st_env = root_env, st_run = run_1, st_revoked = None, st_parent = None\<rparr>"

definition child_stored :: stored where
  "child_stored = \<lparr>st_env = child_env, st_run = run_1, st_revoked = None, st_parent = Some ''env_parent''\<rparr>"

lemma root_in_force: "in_time t \<Longrightarrow> in_force demo_server t run_1 root_stored"
  using scene_policies(2) by (simp add: in_force_def root_stored_def signed_verifies root_env_def)
    (simp add: sample_parent_def signed_by_def)

lemma child_in_force: "in_time t \<Longrightarrow> in_force demo_server t run_1 child_stored"
  using scene_policies(3) signed_verifies [of child_policy]
  by (simp add: in_force_def child_stored_def flip: child_env_def)

lemma root_active:
  assumes "in_time t"
  shows "active demo_server t d root_stored = Inr ()"
  unfolding active_def active_loop_iff
  using assms root_in_force [OF assms]
  by (intro exI [of _ "[root_stored]"]) (auto simp: root_stored_def intro: ancestry.root)

lemma child_ancestry:
  "load d ''env_parent'' = Inr u \<Longrightarrow> st_parent u = None \<Longrightarrow> ancestry d child_stored [child_stored, u]"
  by (rule ancestry.up [of _ "''env_parent''"]) (auto simp: child_stored_def intro: ancestry.root)

lemma child_chain:
  assumes "in_time t" and "load d ''env_parent'' = Inr root_stored"
  shows "sound_chain demo_server t d child_stored [child_stored, root_stored]"
proof -
  have "ancestry d child_stored [child_stored, root_stored]"
    by (rule child_ancestry [OF assms(2)]) (simp add: root_stored_def)
  moreover have "delegates demo_server t child_stored root_stored"
    using scene_policies(6) [OF assms(1)] by (simp add: delegates_def child_stored_def root_stored_def)
  moreover have "st_run child_stored = run_1" by (simp add: child_stored_def)
  ultimately show ?thesis
    using root_in_force [OF assms(1)] child_in_force [OF assms(1)] by (simp add: sound_chain_def)
qed

lemma child_active:
  assumes "in_time t" and "load d ''env_parent'' = Inr root_stored"
  shows "active demo_server t d child_stored = Inr ()"
proof -
  have "stored_id child_stored = ''env_child''" "stored_id root_stored = ''env_parent''"
    by (simp_all add: stored_id_def child_stored_def root_stored_def)
  then show ?thesis
    using child_chain [OF assms] unfolding active_def active_loop_iff sound_chain_def
    by (intro exI [of _ "[child_stored, root_stored]"]) simp
qed

section \<open>The history\<close>

abbreviation draw1 :: draws where "draw1 \<equiv> draws_at 1 (CHR ''1'')"
abbreviation draw2 :: draws where "draw2 \<equiv> draws_at 2 (CHR ''2'')"
abbreviation draw3 :: draws where "draw3 \<equiv> draws_at 3 (CHR ''3'')"
abbreviation draw4 :: draws where "draw4 \<equiv> draws_at 4 (CHR ''4'')"
abbreviation draw5 :: draws where "draw5 \<equiv> draws_at 5 (CHR ''5'')"
abbreviation draw6 :: draws where "draw6 \<equiv> draws_at 6 (CHR ''6'')"
abbreviation draw7 :: draws where "draw7 \<equiv> draws_at 7 (CHR ''7'')"

lemma draws_in_time [simp]: "n < 1000 \<Longrightarrow> in_time (d_now (draws_at n c))"
  by (simp add: draws_at_def in_time_def sample_now_def utc_def)

lemma draws_ids [simp]:
  "d_event (draws_at n c) = [c, CHR ''v'']" "d_handoff (draws_at n c) = [c, CHR ''h'']"
  "d_action (draws_at n c) = [c, CHR ''a'']" "d_approval (draws_at n c) = [c, CHR ''p'']"
  by (simp_all add: draws_at_def)

lemma audit_event_id [simp]: "au_id (audit_event c r n run kind payload d) = new_id ''evt_'' r"
  by (simp add: audit_event_def Let_def)

definition root_request :: create_request where
  "root_request = \<lparr>cr_run = run_1, cr_envelope = sample_parent\<rparr>"

definition event_1 :: audit_row where
  "event_1 = audit_event sample_crypto (d_event draw1) (d_audit draw1) run_1 ''envelope.created''
     (encode_envelope root_env) empty_db"

lemma event_fields_1: "au_id event_1 = new_id ''evt_'' ''1v''" "au_run event_1 = run_1"
  by (simp_all add: event_1_def)

definition db_root :: db where
  "db_root = (insert_party (recipient root_env) (insert_party (issuer root_env) empty_db))
     \<lparr>t_runs := [(run_1, d_txnow draw1)], t_envelopes := [row_of run_1 root_env (d_txnow draw1)],
      t_audit := [event_1]\<rparr>"

lemma sample_parent_facts:
  "env_id sample_parent = ''env_parent''" "env_version sample_parent = ''1''" "parent_envelope sample_parent = []"
  "current_depth (env_delegation sample_parent) = 0" "max_depth (env_delegation sample_parent) = 2"
  "elems (resources sample_parent) = [(''orders'', Some [''*'']), (''customers'', Some [''cus_8291''])]"
  by (simp_all add: sample_parent_def)

lemma fill_root_sample: "fill_root r sample_parent = sample_parent"
  by (simp add: fill_root_def sample_parent_def)

lemma root_of_sample: "sample_parent\<lparr>signature := sample_sig\<rparr> = root_env"
  by (simp only: root_env_def signed_by_def)

lemma in_tables [simp]:
  "t_envelopes empty_db = []" "t_runs empty_db = []" "t_audit empty_db = []" "t_approvals empty_db = []"
  "t_handoffs empty_db = []" "t_actions empty_db = []" "t_violations empty_db = []"
  by (simp_all add: empty_db_def)

lemma step_create: "create demo_server draw1 (Inr root_request) empty_db = Inr ((RStored root_stored, 201), db_root)"
proof -
  have f: "fill_root (d_env draw1) (cr_envelope root_request) = sample_parent" and r: "create_run draw1 root_request = run_1"
    by (simp_all add: root_request_def fill_root_sample create_run_def run_1_def)
  let ?d1 = "empty_db\<lparr>t_runs := [(run_1, d_txnow draw1)]\<rparr>"
  let ?d2 = "(insert_party (recipient root_env) (insert_party (issuer root_env) empty_db))
     \<lparr>t_runs := [(run_1, d_txnow draw1)], t_envelopes := [row_of run_1 root_env (d_txnow draw1)]\<rparr>"
  have d1: "insert_run (run_1, d_txnow draw1) empty_db = Inr ?d1"
    by (simp add: insert_run_def has_run_def)
  have d2: "save run_1 root_env (d_txnow draw1) ?d1 = Inr ?d2"
    by (simp add: save_def row_of_def insert_envelope_def has_envelope_def has_run_def insert_party_def insert_agent_def)
  have d3: "append_audit sample_crypto (d_event draw1) (d_audit draw1) run_1 ''envelope.created'' (encode_envelope root_env) ?d2
      = Inr db_root"
    by (simp add: append_audit_def insert_audit_def has_run_def db_root_def event_1_def audit_event_cong [of ?d2 empty_db])
  have v: "decision (Validate action_cel sample_parent (d_now draw1)) = ALLOW"
    using scene_policies(1) [of "d_now draw1"] by (simp add: Validate_ALLOW)
  have ok: "root_ok sample_parent" by (simp add: root_ok_def sample_parent_facts)
  show ?thesis
    using create_ok [where w = draw1 and q = root_request and s = demo_server and d = empty_db
        and sig = sample_sig and v = root_env, unfolded f r demo_simps,
        OF ok v sample_signs root_of_sample [symmetric] d1 d2 d3]
    by (simp only: root_stored_def)
qed

subsection \<open>Delegating\<close>

text \<open>The child is proposed without a signature; the server signs it.\<close>

definition event_2 :: audit_row where
  "event_2 = audit_event sample_crypto (d_event draw2) (d_audit draw2) run_1 ''handoff.evaluated''
     (handoff_payload (new_id ''handoff_'' (d_handoff draw2)) ''env_parent'' child_env True \<lparr>decision = ALLOW, violations = []\<rparr>)
     db_root"

lemmas event_fields = event_fields_1 event_2_def [THEN arg_cong [where f = au_id]] event_2_def [THEN arg_cong [where f = au_run]]

definition handoff_2 :: handoff_row where
  "handoff_2 =
     \<lparr>ho_id = new_id ''handoff_'' (d_handoff draw2), ho_run = run_1, ho_parent = ''env_parent'',
      ho_child = Some ''env_child'', ho_proposed = ''env_child'', ho_result = \<lparr>decision = ALLOW, violations = []\<rparr>,
      ho_created = d_txnow draw2\<rparr>"

definition db_child :: db where
  "db_child = (insert_party (recipient child_env) (insert_party (issuer child_env) db_root))
     \<lparr>t_envelopes := t_envelopes db_root @ [row_of run_1 child_env (d_txnow draw2)],
      t_handoffs := [handoff_2], t_audit := t_audit db_root @ [event_2]\<rparr>"

lemma db_root_tables [simp]:
  "t_envelopes db_root = [row_of run_1 root_env (d_txnow draw1)]" "t_runs db_root = [(run_1, d_txnow draw1)]"
  "t_audit db_root = [event_1]" "t_approvals db_root = []" "t_handoffs db_root = []" "t_actions db_root = []"
  "t_violations db_root = []"
  by (simp_all add: db_root_def)

lemma load_row:
  assumes "find_envelope d i = Some (row_of run v t)" and "env_id v = i"
  shows "load d i = Inr \<lparr>st_env = v, st_run = run, st_revoked = None,
    st_parent = (if parent_envelope v \<noteq> [] then Some (parent_envelope v) else None)\<rparr>"
  using assms by (simp add: load_def row_of_def)

lemma load_root:
  "t_envelopes d = row_of run_1 root_env t # rs \<Longrightarrow> load d ''env_parent'' = Inr root_stored"
  using load_row [of d "''env_parent''" run_1 root_env t] by (simp add: find_envelope_def root_stored_def)

lemma load_child:
  "t_envelopes d = row_of run_1 root_env t # row_of run_1 child_env u # rs \<Longrightarrow> load d ''env_child'' = Inr child_stored"
  using load_row [of d "''env_child''" run_1 child_env u] by (simp add: find_envelope_def child_stored_def)

lemma fill_child_policy: "fill_child r ''env_parent'' child_policy = child_policy"
  by (simp add: fill_child_def child_policy_def sample_child_def)

lemma diff_allows: "allows c now p v \<Longrightarrow> diff c p v now = \<lparr>decision = ALLOW, violations = []\<rparr>"
  by (auto simp: allows_def diff_def finish_def Let_def split: if_splits)

lemma step_delegate:
  "evaluate_handoff demo_server draw2 ''env_parent'' child_policy True db_root
    = Inr ((RHandoff (new_id ''handoff_'' (d_handoff draw2)) \<lparr>decision = ALLOW, violations = []\<rparr> (Some child_env), 201), db_child)"
proof -
  let ?res = "\<lparr>decision = ALLOW, violations = []\<rparr>"
  have t: "in_time (d_now draw2)" by simp
  have l: "load db_root ''env_parent'' = Inr root_stored" by (rule load_root) simp
  have j: "judge_handoff demo_server (d_now draw2) db_root root_stored child_policy = ?res"
    using diff_allows [OF scene_policies(5) [OF t]] root_active [OF t, of db_root]
    by (simp add: judge_handoff_def root_stored_def)
  let ?d1 = "(insert_party (recipient child_env) (insert_party (issuer child_env) db_root))
     \<lparr>t_envelopes := t_envelopes db_root @ [row_of run_1 child_env (d_txnow draw2)]\<rparr>"
  have sv: "save run_1 child_env (d_txnow draw2) db_root = Inr ?d1"
    by (simp add: save_def row_of_def insert_envelope_def has_envelope_def has_run_def)
  have c: "child_policy\<lparr>signature := sample_sig\<rparr> = child_env" by (simp only: child_env_def signed_by_def)
  have p: "persist_child demo_server draw2 run_1 child_policy True db_root = Inr ((child_env, True), ?d1)"
    unfolding persist_child_def demo_simps sample_signs by (simp add: wrap_error_def c sv)
  have h: "insert_handoff handoff_2 ?d1 = Inr (?d1\<lparr>t_handoffs := [handoff_2]\<rparr>)"
    by (simp add: insert_handoff_def handoff_2_def has_run_def has_envelope_def)
  have v: "record_violations run_1 ''env_parent'' ?res d = Inr d" for d
    by (simp add: record_violations_def)
  have a: "append_audit sample_crypto (d_event draw2) (d_audit draw2) run_1 ''handoff.evaluated''
      (handoff_payload (new_id ''handoff_'' (d_handoff draw2)) ''env_parent'' child_env True ?res)
      (?d1\<lparr>t_handoffs := [handoff_2]\<rparr>) = Inr db_child"
  proof -
    have e: "audit_event sample_crypto (d_event draw2) (d_audit draw2) run_1 ''handoff.evaluated''
      (handoff_payload (new_id ''handoff_'' (d_handoff draw2)) ''env_parent'' child_env True ?res)
      (?d1\<lparr>t_handoffs := [handoff_2]\<rparr>) = event_2"
      unfolding event_2_def by (rule audit_event_cong) simp
    show ?thesis
      unfolding append_audit_def e by (simp add: insert_audit_def has_run_def db_child_def event_fields)
  qed
  have run: "st_run root_stored = run_1" by (simp add: root_stored_def)
  show ?thesis
    using evaluate_handoff_ok [where w = draw2 and proposed = child_policy and persist = True and s = demo_server
        and res = ?res and kept = True and child' = child_env and ?d1.0 = ?d1 and ?d2.0 = "?d1\<lparr>t_handoffs := [handoff_2]\<rparr>"
        and ?d3.0 = "?d1\<lparr>t_handoffs := [handoff_2]\<rparr>" and ?d4.0 = db_child, OF l fill_child_policy [symmetric] j]
      p h v a
    by (simp add: run handoff_2_def)
qed

subsection \<open>Approving\<close>

definition refund_arguments :: "json gomap" where
  "refund_arguments = Some [(''amount'', JNum ''825''), (''order_id'', JStr ''48319'')]"

definition approval_1 :: approval_request where
  "approval_1 =
     \<lparr>aq_envelope = ''env_child'', aq_action = ''refunds.create'', aq_resource = ''orders:48319'',
      aq_arguments = refund_arguments, aq_approved_by = ''alice'', aq_role = refund_manager,
      aq_expires = utc 66000000000000000000\<rparr>"

definition refund_hash :: string where
  "refund_hash = arguments_hash demo_server refund_arguments"

definition approval_row_1 :: approval_row where
  "approval_row_1 = approval_of draw3 approval_1 refund_hash None"

definition event_3 :: audit_row where
  "event_3 = audit_event sample_crypto (d_event draw3) (d_audit draw3) run_1 ''approval.created''
     (encode_approval_view (view_of approval_1 approval_row_1 None)) db_child"

definition db_approved :: db where
  "db_approved = db_child\<lparr>t_approvals := [approval_row_1], t_audit := t_audit db_child @ [event_3]\<rparr>"

lemma db_child_tables [simp]:
  "t_envelopes db_child = [row_of run_1 root_env (d_txnow draw1), row_of run_1 child_env (d_txnow draw2)]"
  "t_runs db_child = [(run_1, d_txnow draw1)]" "t_audit db_child = [event_1, event_2]" "t_approvals db_child = []"
  "t_actions db_child = []" "t_violations db_child = []"
  by (simp_all add: db_child_def)

lemma event_fields_3: "au_id event_3 = new_id ''evt_'' ''3v''" "au_run event_3 = run_1"
  by (simp_all add: event_3_def)

lemma child_fields:
  "allowed_actions child_env = Some [''orders.read'', ''refunds.create'']"
  "denied_actions child_env = denied_actions sample_child" "resources child_env = resources sample_child"
  "approvals child_env = approvals sample_child" "expires_at child_env = expires_at sample_child"
  "recipient child_env = recipient sample_child" "data_classes child_env = data_classes sample_child"
  by (simp_all add: child_env_def child_policy_def signed_by_def)

lemma approval_request_ok: "check_approval_request child_env (d_now draw3) approval_1 = Inr ()"
  unfolding check_approval_request_def child_fields by code_simp

lemma step_approve:
  "approve demo_server draw3 None (Inr approval_1) db_child
    = Inr ((RApproval (view_of approval_1 approval_row_1 None), 201), db_approved)"
proof -
  have p: "load db_child ''env_parent'' = Inr root_stored" and l: "load db_child ''env_child'' = Inr child_stored"
    by (rule load_root load_child; simp)+
  have i: "insert_approval approval_row_1 db_child = Inr (db_child\<lparr>t_approvals := [approval_row_1]\<rparr>)"
    by (simp add: insert_approval_def has_envelope_def approval_row_1_def approval_of_def approval_1_def)
  have a: "append_audit sample_crypto (d_event draw3) (d_audit draw3) run_1 ''approval.created''
      (encode_approval_view (view_of approval_1 approval_row_1 None)) (db_child\<lparr>t_approvals := [approval_row_1]\<rparr>)
      = Inr db_approved"
  proof -
    have e: "audit_event sample_crypto (d_event draw3) (d_audit draw3) run_1 ''approval.created''
      (encode_approval_view (view_of approval_1 approval_row_1 None)) (db_child\<lparr>t_approvals := [approval_row_1]\<rparr>) = event_3"
      unfolding event_3_def by (rule audit_event_cong) simp
    show ?thesis
      unfolding append_audit_def e by (simp add: insert_audit_def has_run_def db_approved_def event_fields event_fields_3)
  qed
  have st: "st_env child_stored = child_env" "st_run child_stored = run_1" by (simp_all add: child_stored_def)
  have q: "aq_envelope approval_1 = ''env_child''" "aq_arguments approval_1 = refund_arguments" by (simp_all add: approval_1_def)
  have r: "approval_row_1 = approval_of draw3 approval_1 (digest sample_crypto (JObj (elems refund_arguments))) None"
    by (simp add: approval_row_1_def refund_hash_def)
  show ?thesis
    using approve_ok [where s = demo_server and w = draw3 and op = None and ?q0.0 = approval_1 and q = approval_1 and who = None
        and d = db_child, unfolded q, OF _ _ _ l child_active [OF _ p] _ _ _ i] approval_request_ok a r
    by (simp add: sign_off_def st)
qed

subsection \<open>Acting\<close>

definition action_1 :: action_request where
  "action_1 =
     \<lparr>ac_envelope = ''env_child'', ac_agent = ''notification-agent'', ac_tool = ''refunds.create'',
      ac_resources = Some [(''orders'', Some [''48319''])], ac_classes = Some [''payment_metadata''],
      ac_arguments = refund_arguments\<rparr>"

definition refund_values :: celval where
  "refund_values = VMap [(''amount'', VInt 825), (''order_id'', VString ''48319'')]"

lemma refund_converted: "cel_values (JObj (elems refund_arguments)) = Inr refund_values"
  by code_simp

lemma action_1_simps [simp]:
  "ac_envelope action_1 = ''env_child''" "ac_arguments action_1 = refund_arguments"
  "elems (ac_resources action_1) = [(''orders'', Some [''48319''])]" "ac_tool action_1 = ''refunds.create''"
  "ac_agent action_1 = ''notification-agent''" "elems (ac_classes action_1) = [''payment_metadata'']"
  by (simp_all add: action_1_def)

lemma action_1_names: "resource_names (ac_resources action_1) = [''orders:48319'']"
  by code_simp

lemma action_1_concrete: "concrete_request action_1"
  unfolding concrete_request_def action_1_names by simp code_simp

lemma child_orders: "elems (map_get (resources sample_child) ''orders'') = [''48319'']"
  by code_simp

lemma action_1_permitted: "\<forall>x \<in> demands action_1. permits child_env x"
  unfolding ball_demands by (simp add: child_fields child_orders) (simp add: sample_child_def scope_admits_def)

lemma action_1_roles: "roles_required demo_server child_env refund_values = Inr [refund_manager]"
  unfolding roles_required_def child_fields demo_simps by code_simp

lemma action_1_checked:
  assumes "in_time t" and "load d ''env_parent'' = Inr root_stored"
  shows "check_action demo_server t d child_stored action_1 = []"
proof -
  have "agent (recipient child_env) = ''notification-agent''" by (simp add: child_fields sample_child_def)
  then show ?thesis
    unfolding check_action_Nil using child_active [OF assms] action_1_concrete action_1_permitted
    by (simp add: child_stored_def)
qed

text \<open>The approval is found once, and not again after it was used.\<close>

lemma approval_found:
  assumes "t_approvals d = [approval_row_1]" and "in_time now"
  shows "find_approval d action_1 refund_hash now refund_manager ''orders:48319'' = Some (pr_id approval_row_1)"
proof -
  have "micros (inst now) < pr_expires approval_row_1"
    using assms(2) by (simp add: in_time_def approval_row_1_def approval_of_def approval_1_def utc_def micros_def)
  then have "approval_matches action_1 refund_hash now refund_manager ''orders:48319'' approval_row_1"
    by (simp add: approval_matches_def) (simp add: approval_row_1_def approval_of_def approval_1_def)
  then show ?thesis by (simp add: find_approval_def assms(1))
qed

lemma db_approved_tables [simp]:
  "t_envelopes db_approved = [row_of run_1 root_env (d_txnow draw1), row_of run_1 child_env (d_txnow draw2)]"
  "t_runs db_approved = [(run_1, d_txnow draw1)]" "t_audit db_approved = [event_1, event_2, event_3]"
  "t_approvals db_approved = [approval_row_1]" "t_actions db_approved = []" "t_violations db_approved = []"
  by (simp_all add: db_approved_def)

lemma loaded_both:
  assumes "t_envelopes d = [row_of run_1 root_env t, row_of run_1 child_env u]"
  shows "load d ''env_parent'' = Inr root_stored" "load d ''env_child'' = Inr child_stored"
  using assms by (auto intro: load_root load_child)

lemma decided_allow:
  "decide demo_server (d_now draw4) db_approved child_stored action_1 refund_hash refund_values
    = (\<lparr>decision = ALLOW, violations = []\<rparr>, [pr_id approval_row_1])"
proof -
  have c: "check_action demo_server (d_now draw4) db_approved child_stored action_1 = []"
    by (rule action_1_checked) (simp_all add: loaded_both)
  have r: "action_roles demo_server child_env refund_values = ([refund_manager], [])"
    by (simp add: action_roles_ok action_1_roles)
  have g: "gather_approvals (find_approval db_approved action_1 refund_hash (d_now draw4)) [refund_manager] [''orders:48319'']
      = ([pr_id approval_row_1], [])"
    using approval_found [of db_approved "d_now draw4"] by (simp add: gather_approvals_def pairs_def gather_step_def)
  have "st_env child_stored = child_env" by (simp add: child_stored_def)
  then show ?thesis unfolding decide_def Let_def c r action_1_names by (simp add: r g)
qed

definition allow :: result where
  "allow = \<lparr>decision = ALLOW, violations = []\<rparr>"

definition used_row_1 :: approval_row where
  "used_row_1 = approval_row_1\<lparr>pr_consumed := Some (micros (inst (d_now draw4)))\<rparr>"

definition act_row_1 :: action_row where
  "act_row_1 =
     \<lparr>ta_id = new_id ''action_'' (d_action draw4), ta_run = run_1, ta_envelope = ''env_child'',
      ta_agent = ''notification-agent'', ta_tool = ''refunds.create'', ta_hash = refund_hash,
      ta_result = allow, ta_created = d_txnow draw4\<rparr>"

definition event_4 :: audit_row where
  "event_4 = audit_event sample_crypto (d_event draw4) (d_audit draw4) run_1 ''action.evaluated''
     (action_payload draw4 action_1 (new_id ''action_'' (d_action draw4)) refund_hash allow [pr_id approval_row_1])
     db_approved"

definition db_acted :: db where
  "db_acted = db_approved\<lparr>t_approvals := [used_row_1], t_actions := [act_row_1],
     t_audit := t_audit db_approved @ [event_4]\<rparr>"

lemma event_fields_4: "au_id event_4 = new_id ''evt_'' ''4v''" "au_run event_4 = run_1"
  by (simp_all add: event_4_def)

lemma step_action:
  "action demo_server draw4 (Inr action_1) db_approved
    = Inr ((RAction (new_id ''action_'' (d_action draw4)) allow [pr_id approval_row_1], 200), db_acted)"
proof -
  let ?d1 = "db_approved\<lparr>t_approvals := [used_row_1]\<rparr>"
  let ?d2 = "?d1\<lparr>t_actions := [act_row_1]\<rparr>"
  have f: "\<not> (ac_envelope action_1 = [] \<or> ac_agent action_1 = [] \<or> ac_tool action_1 = [] \<or> ac_arguments action_1 = None)"
    by (simp add: refund_arguments_def)
  have l: "load db_approved ''env_child'' = Inr child_stored" by (simp add: loaded_both)
  have h: "digest sample_crypto (JObj (elems refund_arguments)) = refund_hash" by (simp add: refund_hash_def)
  have c: "fold (consume_approval (micros (inst (d_now draw4)))) [pr_id approval_row_1] db_approved = ?d1"
    by (simp add: consume_approval_def used_row_1_def)
  have i: "insert_action act_row_1 ?d1 = Inr ?d2"
    by (simp add: insert_action_def has_run_def has_envelope_def act_row_1_def allow_def)
  have v: "record_violations run_1 ''env_child'' allow ?d2 = Inr ?d2"
    by (simp add: record_violations_def allow_def)
  have a: "append_audit sample_crypto (d_event draw4) (d_audit draw4) run_1 ''action.evaluated''
      (action_payload draw4 action_1 (new_id ''action_'' (d_action draw4)) refund_hash allow [pr_id approval_row_1]) ?d2
      = Inr db_acted"
  proof -
    have e: "audit_event sample_crypto (d_event draw4) (d_audit draw4) run_1 ''action.evaluated''
      (action_payload draw4 action_1 (new_id ''action_'' (d_action draw4)) refund_hash allow [pr_id approval_row_1]) ?d2
      = event_4"
      unfolding event_4_def by (rule audit_event_cong) simp
    show ?thesis
      unfolding append_audit_def e
      by (simp add: insert_audit_def has_run_def db_acted_def event_fields event_fields_3 event_fields_4)
  qed
  have st: "st_run child_stored = run_1" by (simp add: child_stored_def)
  show ?thesis
    using action_ok [where s = demo_server and w = draw4 and q = action_1 and d = db_approved,
        unfolded action_1_simps demo_simps h, OF f [unfolded action_1_simps] l refund_converted
          decided_allow [folded allow_def], unfolded c st act_row_1_def [symmetric], OF i v a]
    by (simp add: allow_def)
qed

subsection \<open>Revoking\<close>

definition event_5 :: audit_row where
  "event_5 = audit_event sample_crypto (d_event draw5) (d_audit draw5) run_1 ''envelope.revoked''
     (JObj [(''envelope_id'', JStr ''env_parent'')]) db_acted"

definition db_revoked :: db where
  "db_revoked = db_acted\<lparr>
     t_envelopes := [(row_of run_1 root_env (d_txnow draw1))\<lparr>er_revoked := Some (d_txnow draw5)\<rparr>,
                     row_of run_1 child_env (d_txnow draw2)],
     t_audit := t_audit db_acted @ [event_5]\<rparr>"

lemma db_acted_tables [simp]:
  "t_envelopes db_acted = [row_of run_1 root_env (d_txnow draw1), row_of run_1 child_env (d_txnow draw2)]"
  "t_runs db_acted = [(run_1, d_txnow draw1)]" "t_audit db_acted = [event_1, event_2, event_3, event_4]"
  "t_approvals db_acted = [used_row_1]" "t_actions db_acted = [act_row_1]" "t_violations db_acted = []"
  by (simp_all add: db_acted_def)

lemma event_fields_5: "au_id event_5 = new_id ''evt_'' ''5v''" "au_run event_5 = run_1"
  by (simp_all add: event_5_def)

lemma er_id_row [simp]: "er_id (row_of run v t) = env_id v"
  by (simp add: row_of_def)

lemma step_revoke: "revoke demo_server draw5 ''env_parent'' db_acted = Inr ((RRevoked ''env_parent'', 200), db_revoked)"
proof -
  let ?d1 = "revoke_envelope ''env_parent'' (d_txnow draw5) db_acted"
  have l: "load db_acted ''env_parent'' = Inr root_stored" by (simp add: loaded_both)
  have a: "append_audit sample_crypto (d_event draw5) (d_audit draw5) run_1 ''envelope.revoked''
      (JObj [(''envelope_id'', JStr ''env_parent'')]) ?d1 = Inr db_revoked"
  proof -
    have e: "audit_event sample_crypto (d_event draw5) (d_audit draw5) run_1 ''envelope.revoked''
      (JObj [(''envelope_id'', JStr ''env_parent'')]) ?d1 = event_5"
      unfolding event_5_def by (rule audit_event_cong) (simp add: revoke_envelope_def)
    show ?thesis
      unfolding append_audit_def e
      by (simp add: insert_audit_def has_run_def db_revoked_def revoke_envelope_def event_fields event_fields_3
          event_fields_4 event_fields_5)
  qed
  have "env_id (st_env root_stored) = ''env_parent''" "st_run root_stored = run_1" "st_revoked root_stored = None"
    by (simp_all add: root_stored_def)
  with l a show ?thesis by (simp add: revoke_def)
qed

subsection \<open>Acting after the revocation\<close>

text \<open>The child is still stored and unrevoked, but its root is not: the action is denied.\<close>

lemma db_revoked_tables [simp]:
  "t_runs db_revoked = [(run_1, d_txnow draw1)]" "t_actions db_revoked = [act_row_1]"
  "t_audit db_revoked = [event_1, event_2, event_3, event_4, event_5]"
  by (simp_all add: db_revoked_def)

lemma load_child_revoked: "load db_revoked ''env_child'' = Inr child_stored"
  using load_row [of db_revoked "''env_child''" run_1 child_env "d_txnow draw2"]
  by (simp add: find_envelope_def db_revoked_def child_stored_def)

definition revoked_root :: stored where
  "revoked_root = root_stored\<lparr>st_revoked := Some (d_txnow draw5)\<rparr>"

lemma load_root_revoked: "load db_revoked ''env_parent'' = Inr revoked_root"
  by (simp add: load_Inr find_envelope_def db_revoked_def row_of_def root_stored_def revoked_root_def)

lemma revoked_chain: "ancestry db_revoked child_stored [child_stored, revoked_root]"
  by (rule child_ancestry [OF load_root_revoked]) (simp add: revoked_root_def root_stored_def)

lemma step_denied:
  obtains res d' where "action demo_server draw6 (Inr action_1) db_revoked
    = Inr ((RAction (new_id ''action_'' (d_action draw6)) res [], 403), d')" "decision res = DENY"
proof -
  obtain res ids where r: "decide demo_server (d_now draw6) db_revoked child_stored action_1 refund_hash refund_values = (res, ids)"
    by (cases "decide demo_server (d_now draw6) db_revoked child_stored action_1 refund_hash refund_values")
  have "active demo_server (d_now draw6) db_revoked child_stored \<noteq> Inr ()"
    by (rule revoked_inactive [OF revoked_chain, of revoked_root]) (simp_all add: revoked_root_def)
  then have no: "decision (fst (decide demo_server (d_now draw6) db_revoked child_stored action_1 refund_hash refund_values)) \<noteq> ALLOW"
    by (simp add: decide_ALLOW check_action_Nil)
  with decide_decision [of demo_server "d_now draw6" db_revoked child_stored action_1 refund_hash refund_values] r
  have deny: "decision res = DENY" by auto
  have ids: "ids = []"
    using decide_DENY_keeps [of demo_server "d_now draw6" db_revoked child_stored action_1 refund_hash refund_values] no r
    by simp
  have f: "\<not> (ac_envelope action_1 = [] \<or> ac_agent action_1 = [] \<or> ac_tool action_1 = [] \<or> ac_arguments action_1 = None)"
    by (simp add: refund_arguments_def)
  have h: "arguments_hash demo_server (ac_arguments action_1) = refund_hash" by (simp add: refund_hash_def)
  have i: "new_id ''action_'' (d_action draw6) \<notin> ta_id ` set (t_actions db_revoked)"
    by (simp add: act_row_1_def)
  have e: "new_id ''evt_'' (d_event draw6) \<notin> au_id ` set (t_audit db_revoked)"
    by (simp add: event_fields event_fields_3 event_fields_4 event_fields_5)
  have v: "has_run db_revoked (st_run child_stored)" by (simp add: has_run_def child_stored_def)
  have l: "load db_revoked (ac_envelope action_1) = Inr child_stored" by (simp add: load_child_revoked)
  have c: "cel_values (JObj (elems (ac_arguments action_1))) = Inr refund_values"
    unfolding action_1_simps by (rule refund_converted)
  obtain d' where "action demo_server draw6 (Inr action_1) db_revoked
    = Inr ((RAction (new_id ''action_'' (d_action draw6)) res ids, if decision res = DENY then 403 else 200), d')"
    using action_answers [where w = draw6, OF f l v c i e r [folded h]] by blast
  with deny ids that show thesis by simp
qed

section \<open>The history through the API\<close>

definition service_header :: string where
  "service_header = ''Bearer service''"

definition no_faults :: faults where
  "no_faults = \<lparr>f_begin = None, f_lock = None, f_commit = None\<rparr>"

lemma demo_service: "has_bearer service_header" "is_service demo_server service_header"
  by (simp_all add: has_bearer_def is_service_def service_header_def bearer_def trim_prefix_def demo_server_def server_with_def)

lemma service_call:
  assumes "dispatch demo_server w None service_header r d = Inr (y, d')"
  shows "api demo_server w no_faults service_header r d = (y, d')"
  using assms demo_service
  by (cases y) (simp add: api_def endpoint_def transaction_def no_faults_def)

lemma service_step: "dispatch demo_server w None service_header r d = Inr (y, d') \<Longrightarrow> api_step demo_server d d'"
  by (rule api_step.call [OF service_call])

lemma steps:
  "api_step demo_server empty_db db_root" "api_step demo_server db_root db_child"
  "api_step demo_server db_child db_approved" "api_step demo_server db_approved db_acted"
  "api_step demo_server db_acted db_revoked"
proof -
  note handled = step_create step_delegate step_approve step_action step_revoke
  show "api_step demo_server empty_db db_root"
    by (rule service_step [of draw1 "PostEnvelopes (Inr root_request)"]) (simp only: dispatch.simps handled)
  show "api_step demo_server db_root db_child"
    by (rule service_step [of draw2 "PostDelegate ''env_parent'' (Inr child_policy)"])
      (simp only: dispatch.simps delegate_def rbind_Inr handled)
  show "api_step demo_server db_child db_approved"
    by (rule service_step [of draw3 "PostApprovals (Inr approval_1)"]) (simp only: dispatch.simps handled)
  show "api_step demo_server db_approved db_acted"
    by (rule service_step [of draw4 "PostAction (Inr action_1)"]) (simp only: dispatch.simps handled)
  show "api_step demo_server db_acted db_revoked"
    by (rule service_step [of draw5 "PostRevoke ''env_parent''"]) (simp only: dispatch.simps handled)
qed

lemma reachable_step: "reachable s d \<Longrightarrow> api_step s d d' \<Longrightarrow> reachable s d'"
  unfolding reachable_def by (rule rtranclp.rtrancl_into_rtrancl)

lemma reachable_states:
  "reachable demo_server db_root" "reachable demo_server db_child" "reachable demo_server db_approved"
  "reachable demo_server db_acted" "reachable demo_server db_revoked"
proof -
  have start: "reachable demo_server empty_db" by (simp add: reachable_def)
  show root: "reachable demo_server db_root" by (rule reachable_step [OF start steps(1)])
  show child: "reachable demo_server db_child" by (rule reachable_step [OF root steps(2)])
  show approved: "reachable demo_server db_approved" by (rule reachable_step [OF child steps(3)])
  show acted: "reachable demo_server db_acted" by (rule reachable_step [OF approved steps(4)])
  show "reachable demo_server db_revoked" by (rule reachable_step [OF acted steps(5)])
qed

end
