(* ===== verification/Guarantees.thy ===== *)
theory Guarantees
  imports Scenario
begin

text \<open>
  What the whole service guarantees, over every history of API calls, provisioning and start-ups
  (\<open>reachable\<close>).  The witnesses are taken from the history of \<open>Scenario\<close>.
\<close>

section \<open>Lemmas\<close>

text \<open>What an ALLOW of the action handler rests on.\<close>

lemma action_ALLOW:
  assumes "action s w (Inr q) d = Inr ((RAction i res ids, status), d')"
  shows "decision res = ALLOW \<longleftrightarrow>
    (\<exists>v args roles. load d (ac_envelope q) = Inr v
       \<and> cel_values (JObj (elems (ac_arguments q))) = Inr args
       \<and> active s (d_now w) d v = Inr () \<and> ac_agent q = agent (recipient (st_env v))
       \<and> concrete_request q \<and> (\<forall>x \<in> demands q. permits (st_env v) x)
       \<and> roles_required s (st_env v) args = Inr roles
       \<and> (\<forall>role \<in> set roles. \<forall>x \<in> set (resource_names (ac_resources q)).
            approved d q (arguments_hash s (ac_arguments q)) (d_now w) role x))"
  using assms
proof (cases rule: action_Inr)
  case (1 v args res' ids')
  have "res = fst (decide s (d_now w) d v q (arguments_hash s (ac_arguments q)) args)"
    using 1(3,4) by simp
  then show ?thesis
    using decide_ALLOW [of s "d_now w" d v q "arguments_hash s (ac_arguments q)" args] 1(1,2)
    by (simp add: check_action_Nil)
qed

lemma action_status:
  assumes "action s w (Inr q) d = Inr ((RAction i res ids, status), d')"
  shows "status = (if decision res = ALLOW then 200 else 403) \<and> decision res \<in> {ALLOW, DENY}"
  using assms
proof (cases rule: action_Inr)
  case (1 v args res' ids')
  have "decision res \<in> {ALLOW, DENY}"
    using decide_decision [of s "d_now w" d v q "arguments_hash s (ac_arguments q)" args] 1(3,4) by simp
  with 1(4,5) show ?thesis by auto
qed

text \<open>A condition that holds for an ancestor holds, for the same role, all the way down.\<close>

definition owes :: "'ctx cel \<Rightarrow> envelope \<Rightarrow> string \<times> 'ctx \<Rightarrow> bool" where
  "owes c e p \<longleftrightarrow>
     (\<exists>a \<in> set (elems (approvals e)). \<exists>t. required_role a = fst p \<and> compile c (condition a) = Inr t \<and> holds c t (snd p))"

lemma owes_step:
  assumes "cel_laws c num" and "allows c now e f" and "printable c e" and "printable c f" and "owes c e p"
  shows "owes c f p"
proof -
  obtain r t where r: "r \<in> set (elems (approvals e))" "required_role r = fst p"
      "compile c (condition r) = Inr t" "holds c t (snd p)"
    using assms(5) by (auto simp: owes_def)
  obtain a u where a: "a \<in> set (elems (approvals f))" "required_role a = required_role r"
      "compile c (condition a) = Inr u" "preserves c t u"
    using assms(2) r(1,3) by (elim allows_inherits) auto
  have "holds c u (snd p)"
    using assms(1,3,4) a r by (intro preserves_sound [of c num t u]) (auto simp: printable_def)
  with a r(2) show ?thesis by (auto simp: owes_def)
qed

lemma owes_chain:
  assumes "cel_laws c num" and "successively (allows c now) (e # es)" and "\<forall>x \<in> set (e # es). printable c x"
    and "owes c e p" and "f \<in> set (e # es)"
  shows "owes c f p"
  using assms(2-5)
proof (induction es arbitrary: e)
  case (Cons g es)
  have "owes c g p" using Cons.prems by (intro owes_step [OF assms(1), of now e g]) auto
  with Cons show ?case by (cases "f = e") auto
qed simp

lemma sound_chain_up:
  assumes "sound_chain s now d v vs" and "u \<in> set vs"
  obtains es where "successively (allows (srv_cel s) now) (st_env u # es)" and "st_env v \<in> set (st_env u # es)"
    and "set es \<subseteq> st_env ` set vs"
proof -
  obtain us where us: "vs = v # us" using assms(1) ancestry_hd [of d v vs] by (auto simp: sound_chain_def)
  obtain xs ys where s: "vs = xs @ u # ys" using assms(2) by (meson split_list)
  have "successively (delegates s now) ((xs @ [u]) @ ys)" using assms(1) s by (simp add: sound_chain_def)
  then have "successively (delegates s now) (xs @ [u])" unfolding successively_append_iff by blast
  then have "successively (\<lambda>a b. delegates s now b a) (u # rev xs)"
    using successively_rev [of "\<lambda>a b. delegates s now b a" "xs @ [u]"] by simp
  then have "successively (allows (srv_cel s) now) (map st_env (u # rev xs))"
    unfolding successively_map by (simp only: delegates_def)
  moreover have "v \<in> set (u # rev xs)" using us s by (cases xs) auto
  moreover have "set (map st_env (rev xs)) \<subseteq> st_env ` set vs" using s by auto
  ultimately show thesis by (intro that [of "map st_env (rev xs)"]) auto
qed

text \<open>What a log that verifies consists of.\<close>

lemma verify_event_failures:
  "set (vs_failures st) \<subseteq> set (vs_failures (verify_event c e st))"
  by (auto simp: verify_event_def Let_def)

lemma fold_verify_failures:
  "set (vs_failures st) \<subseteq> set (vs_failures (fold (verify_event c) es st))"
proof (induction es arbitrary: st)
  case (Cons e es)
  show ?case using Cons.IH [of "verify_event c e st"] verify_event_failures [of st c e] by auto
qed simp

lemma intact_of_no_failures:
  assumes "vs_failures (fold (verify_event c) es st) = []"
  shows "linked_events c (vs_previous st) es \<and> vs_previous (fold (verify_event c) es st) = head_hash (vs_previous st) es"
  using assms
proof (induction es arbitrary: st)
  case (Cons e es)
  have "vs_failures (verify_event c e st) = []"
    using fold_verify_failures [of "verify_event c e st" c es] Cons.prems by simp
  then have "event_intact c (vs_previous st) e"
    by (simp add: verify_event_def Let_def split: if_splits)
  moreover have "vs_previous (verify_event c e st) = au_hash e" by (simp add: verify_event_def Let_def)
  ultimately show ?case using Cons.IH [of "verify_event c e st"] Cons.prems by simp
qed simp

lemma verify_audit_VALID:
  assumes "verify_audit c pub run d = Inr rep" and "rp_status rep = ''VALID''"
  shows "linked_events c [] (events_of run d) \<and> rp_head rep = head_hash [] (events_of run d)"
proof -
  let ?st = "verify_events c (events_of run d)"
  have "vs_failures ?st = [] \<and> rp_head rep = vs_previous ?st"
    using assms by (auto simp: verify_audit_def Let_def result_simps split: if_splits)
  then show ?thesis
    using intact_of_no_failures [of c "events_of run d" "\<lparr>vs_failures = [], vs_previous = [], vs_count = 0, vs_snapshots = []\<rparr>"]
    by (simp add: verify_events_def)
qed

lemma linked_chained:
  "linked_events c h es \<Longrightarrow> audit_log.chained h es \<and> (\<forall>e \<in> set es. event_intact c (au_previous e) e)"
  by (induction es arbitrary: h) (auto simp: event_intact_def)

lemma last_of_head: "audit_log.last_of h es = head_hash h es"
  by (cases es rule: rev_cases) (simp_all add: audit_log.last_of_def)

lemma reachable_active_iff:
  assumes "server_ok s" and "reachable s d" and "load d i = Inr v"
  shows "active s now d v = Inr () \<longleftrightarrow> (\<exists>vs. sound_chain s now d v vs)"
  using active_iff [OF ledger_ok_bounded [OF reachable_ledger_ok [OF assms(1,2)]] assms(3)] .

lemma sound_chain_self: "sound_chain s now d v vs \<Longrightarrow> v \<in> set vs"
  using ancestry_hd [of d v vs] by (auto simp: sound_chain_def)

lemma acted_ids:
  assumes "action s w (Inr q) d = Inr ((RAction i res ids, status), d')" and "decision res = ALLOW"
  obtains args roles v where "load d (ac_envelope q) = Inr v"
    and "cel_values (JObj (elems (ac_arguments q))) = Inr args"
    and "roles_required s (st_env v) args = Inr roles"
    and "\<forall>role \<in> set roles. \<forall>x \<in> set (resource_names (ac_resources q)).
           \<exists>r \<in> set (t_approvals d). pr_id r \<in> set ids
             \<and> approval_matches q (arguments_hash s (ac_arguments q)) (d_now w) role x r"
  using assms(1)
proof (cases rule: action_Inr)
  case (1 v args res' ids')
  let ?hash = "arguments_hash s (ac_arguments q)"
  have dec: "decide s (d_now w) d v q ?hash args = (res, ids)" using 1(3,4) by simp
  then have ok: "decision (fst (decide s (d_now w) d v q ?hash args)) = ALLOW" using assms(2) by simp
  then obtain roles where r: "roles_required s (st_env v) args = Inr roles"
    and a: "\<forall>role \<in> set roles. \<forall>x \<in> set (resource_names (ac_resources q)). approved d q ?hash (d_now w) role x"
    by (auto simp: decide_ALLOW)
  have ids: "ids = map (\<lambda>(role, x). the (find_approval d q ?hash (d_now w) role x))
      (pairs roles (resource_names (ac_resources q)))"
    using decide_ids [OF ok r] dec by simp
  have "\<exists>r \<in> set (t_approvals d). pr_id r \<in> set ids \<and> approval_matches q ?hash (d_now w) role x r"
    if "role \<in> set roles" "x \<in> set (resource_names (ac_resources q))" for role x
  proof -
    have "(role, x) \<in> set (pairs roles (resource_names (ac_resources q)))" using that by (simp add: pairs_set)
    then have "the (find_approval d q ?hash (d_now w) role x) \<in> set ids" unfolding ids by force
    then show ?thesis using find_approval_row [of d q ?hash "d_now w" role x] a that by force
  qed
  with that [OF 1(1,2) r] show thesis by blast
qed

lemma inactive_denied:
  assumes "action s w (Inr q) d = Inr ((RAction i res ids, status), d')"
    and "load d (ac_envelope q) = Inr v" and "active s (d_now w) d v \<noteq> Inr ()"
  shows "decision res = DENY \<and> ids = [] \<and> status = 403"
proof -
  have "decision res \<noteq> ALLOW" using assms(2,3) unfolding action_ALLOW [OF assms(1)] by auto
  moreover from assms(1) have "decision res \<noteq> ALLOW \<longrightarrow> ids = []"
  proof (cases rule: action_Inr)
    case (1 u args res' ids')
    then show ?thesis
      using decide_DENY_keeps [of s "d_now w" d u q "arguments_hash s (ac_arguments q)" args] by simp
  qed
  ultimately show ?thesis using action_status [OF assms(1)] by auto
qed

section \<open>Actions\<close>

text \<open>
  C1: an action is allowed exactly when the named envelope is stored, it and its ancestors up to a
  root are in force and delegate to one another, the agent is the envelope's recipient, every demand
  of the request is concrete and permitted by the envelope, and for every role its conditions
  require and every resource of the request an unused and unexpired approval of exactly this call is
  stored.
\<close>

theorem action_allows_exactly:
  assumes "server_ok s" and "reachable s d"
    and "action s w (Inr q) d = Inr ((RAction i res ids, status), d')"
  shows "decision res = ALLOW \<longleftrightarrow>
    (\<exists>v vs args roles. load d (ac_envelope q) = Inr v
       \<and> cel_values (JObj (elems (ac_arguments q))) = Inr args
       \<and> sound_chain s (d_now w) d v vs \<and> ac_agent q = agent (recipient (st_env v))
       \<and> concrete_request q \<and> (\<forall>x \<in> demands q. permits (st_env v) x)
       \<and> roles_required s (st_env v) args = Inr roles
       \<and> (\<forall>role \<in> set roles. \<forall>x \<in> set (resource_names (ac_resources q)).
            approved d q (arguments_hash s (ac_arguments q)) (d_now w) role x))"
  unfolding action_ALLOW [OF assms(3)] using reachable_active_iff [OF assms(1,2)] by blast

theorem action_allows_exactly_witness:
  "\<exists>vs. sound_chain demo_server (d_now draw4) db_approved child_stored vs
     \<and> approved db_approved action_1 refund_hash (d_now draw4) refund_manager ''orders:48319''"
proof -
  have "decision allow = ALLOW" by (simp add: allow_def)
  with action_allows_exactly [OF demo_ok reachable_states(3) step_action] obtain v vs args roles where
    1: "load db_approved (ac_envelope action_1) = Inr v" "cel_values (JObj (elems (ac_arguments action_1))) = Inr args"
      "sound_chain demo_server (d_now draw4) db_approved v vs" "roles_required demo_server (st_env v) args = Inr roles"
      "\<forall>role \<in> set roles. \<forall>x \<in> set (resource_names (ac_resources action_1)).
         approved db_approved action_1 (arguments_hash demo_server (ac_arguments action_1)) (d_now draw4) role x"
    by blast
  have "v = child_stored" using 1(1) by (simp add: loaded_both)
  moreover have "args = refund_values" using 1(2) unfolding action_1_simps refund_converted by simp
  moreover have "st_env child_stored = child_env" by (simp add: child_stored_def)
  ultimately show ?thesis using 1(3-5) action_1_roles by (auto simp: action_1_names refund_hash_def)
qed

lemma allowed_chain:
  assumes "server_ok s" and "reachable s d"
    and "action s w (Inr q) d = Inr ((RAction i res ids, status), d')" and "decision res = ALLOW"
  shows "\<exists>v vs. load d (ac_envelope q) = Inr v \<and> ancestry d v vs
    \<and> (\<forall>u \<in> set vs. st_revoked u = None \<and> verify (srv_crypto s) (st_env u) (srv_pub s) = Inr ()
         \<and> policy_ok (srv_cel s) (st_env u) (d_now w) \<and> (\<forall>x \<in> demands q. permits (st_env u) x))"
proof -
  obtain v vs where v: "load d (ac_envelope q) = Inr v" "sound_chain s (d_now w) d v vs"
    "\<forall>x \<in> demands q. permits (st_env v) x"
    using assms action_ALLOW [OF assms(3)] reachable_active_iff [OF assms(1,2)] by blast
  have "ancestry d v vs" "\<forall>u \<in> set vs. in_force s (d_now w) (st_run v) u"
    using v(2) by (simp_all add: sound_chain_def)
  moreover have "\<forall>u \<in> set vs. \<forall>x \<in> demands q. permits (st_env u) x"
    using sound_chain_permits [OF v(2)] v(3) by blast
  ultimately show ?thesis using v(1) by (auto simp: in_force_def)
qed

text \<open>
  C2: when an action is allowed, the envelope and every ancestor of it up to the root is unrevoked,
  carries the server's signature, is valid and unexpired, and permits everything the action demands.
\<close>

theorem action_within_ancestors:
  assumes "server_ok s" and "reachable s d"
    and "action s w (Inr q) d = Inr ((RAction i res ids, status), d')" and "decision res = ALLOW"
  shows "\<exists>v vs. load d (ac_envelope q) = Inr v \<and> ancestry d v vs
    \<and> (\<forall>u \<in> set vs. st_revoked u = None \<and> verify (srv_crypto s) (st_env u) (srv_pub s) = Inr ()
         \<and> policy_ok (srv_cel s) (st_env u) (d_now w) \<and> (\<forall>x \<in> demands q. permits (st_env u) x))"
  using assms by (rule allowed_chain)

theorem action_within_ancestors_witness: "permits root_env (OnResource ''orders'' ''48319'')"
proof -
  have "decision allow = ALLOW" by (simp add: allow_def)
  from action_within_ancestors [OF demo_ok reachable_states(3) step_action this] obtain v vs where
    1: "load db_approved (ac_envelope action_1) = Inr v" "ancestry db_approved v vs"
      "\<forall>u \<in> set vs. \<forall>x \<in> demands action_1. permits (st_env u) x" by blast
  have "ancestry db_approved child_stored [child_stored, root_stored]"
    by (rule child_ancestry) (simp_all add: loaded_both root_stored_def)
  moreover have "v = child_stored" using 1(1) by (simp add: loaded_both)
  ultimately have "root_stored \<in> set vs" using 1(2) ancestry_deterministic by fastforce
  moreover have "OnResource ''orders'' ''48319'' \<in> demands action_1" by (simp add: demands_def)
  moreover have "st_env root_stored = root_env" by (simp add: root_stored_def)
  ultimately show ?thesis using 1(3) by metis
qed

text \<open>
  C10: an allowed action carries an unused, unexpired approval of exactly its arguments, for every
  requested resource, by the role of every condition that holds, in its own envelope or in any
  ancestor (a condition that cannot be unparsed is excluded).
\<close>

theorem action_keeps_ancestor_approvals:
  assumes "server_ok s" and "reachable s d" and "cel_laws (srv_cel s) num"
    and "action s w (Inr q) d = Inr ((RAction i res ids, status), d')" and "decision res = ALLOW"
    and "load d (ac_envelope q) = Inr v" and "ancestry d v vs" and "\<forall>u \<in> set vs. printable (srv_cel s) (st_env u)"
    and "u \<in> set vs" and "a \<in> set (elems (approvals (st_env u)))"
    and "compile (srv_cel s) (condition a) = Inr t" and "cel_values (JObj (elems (ac_arguments q))) = Inr args"
    and "holds (srv_cel s) t (condition_input args)" and "x \<in> set (resource_names (ac_resources q))"
  shows "\<exists>r \<in> set (t_approvals d). pr_id r \<in> set ids
    \<and> approval_matches q (arguments_hash s (ac_arguments q)) (d_now w) (required_role a) x r"
proof -
  obtain roles where r: "roles_required s (st_env v) args = Inr roles"
    and ids: "\<forall>role \<in> set roles. \<forall>x \<in> set (resource_names (ac_resources q)).
           \<exists>r \<in> set (t_approvals d). pr_id r \<in> set ids
             \<and> approval_matches q (arguments_hash s (ac_arguments q)) (d_now w) role x r"
    using acted_ids [OF assms(4,5)] assms(6,12) by (metis Inr_inject)
  have "active s (d_now w) d v = Inr ()"
    using assms(5,6) action_ALLOW [OF assms(4)] by auto
  then have vs: "sound_chain s (d_now w) d v vs"
    using active_sound_chain assms(7) ancestry_deterministic by (metis sound_chain_def)
  obtain es where es: "successively (allows (srv_cel s) (d_now w)) (st_env u # es)"
      "st_env v \<in> set (st_env u # es)" "set es \<subseteq> st_env ` set vs"
    by (rule sound_chain_up [OF vs assms(9)])
  have "owes (srv_cel s) (st_env u) (required_role a, condition_input args)"
    using assms(10,11,13) by (auto simp: owes_def)
  moreover have "\<forall>e \<in> set (st_env u # es). printable (srv_cel s) e" using es(3) assms(8,9) by auto
  ultimately have "owes (srv_cel s) (st_env v) (required_role a, condition_input args)"
    using owes_chain [OF assms(3) es(1)] es(2) by blast
  then obtain b u where "b \<in> set (elems (approvals (st_env v)))" "required_role b = required_role a"
      "compile (srv_cel s) (condition b) = Inr u" "holds (srv_cel s) u (condition_input args)"
    by (auto simp: owes_def)
  then have "required_role a \<in> set roles"
    using required_roles_set [OF r [unfolded roles_required_def]] by force
  with ids assms(14) show ?thesis by blast
qed

theorem action_keeps_ancestor_approvals_witness:
  "approval_matches action_1 refund_hash (d_now draw4) refund_manager ''orders:48319'' approval_row_1"
proof -
  let ?a = "\<lparr>condition = ''refund.amount > 500'', required_role = refund_manager\<rparr>"
  have c: "compile sample_cel ''refund.amount > 500'' = Inr (amount_gt 500)"
    "compile sample_cel ''refund.amount > 300'' = Inr (amount_gt 300)"
    by code_simp+
  have ap: "approvals root_env = approvals sample_parent" by (simp add: root_env_def signed_by_def)
  have p: "printable action_cel root_env" "printable action_cel child_env"
    using c by (auto simp: printable_def ap child_fields sample_parent_def sample_child_def sample_unparse exact_literal_def)
  have a: "?a \<in> set (elems (approvals root_env))" by (simp add: ap sample_parent_def refund_manager_def)
  have l: "load db_approved (ac_envelope action_1) = Inr child_stored" by (simp add: loaded_both)
  have anc: "ancestry db_approved child_stored [child_stored, root_stored]"
    by (rule child_ancestry) (simp_all add: loaded_both root_stored_def)
  have st: "st_env root_stored = root_env" "st_env child_stored = child_env"
    by (simp_all add: root_stored_def child_stored_def)
  have h: "holds action_cel (amount_gt 500) (condition_input refund_values)"
    by (simp add: holds_def sample_cel_def sample_eval_def sample_num_def compares_def op_gt_def amount_of_def
        condition_input_def refund_values_def)
  have v: "cel_values (JObj (elems (ac_arguments action_1))) = Inr refund_values"
    unfolding action_1_simps by (rule refund_converted)
  have n: "''orders:48319'' \<in> set (resource_names (ac_resources action_1))" by (simp only: action_1_names list.set_intros)
  have al: "decision allow = ALLOW" by (simp add: allow_def)
  have pr: "\<forall>u \<in> set [child_stored, root_stored]. printable (srv_cel demo_server) (st_env u)" using p by (simp add: st)
  from action_keeps_ancestor_approvals [OF demo_ok reachable_states(3) _ step_action al l anc pr, of _ root_stored ?a
      "amount_gt 500" refund_values "''orders:48319''"]
  have "\<exists>r \<in> set (t_approvals db_approved). pr_id r \<in> set [pr_id approval_row_1]
      \<and> approval_matches action_1 (arguments_hash demo_server (ac_arguments action_1)) (d_now draw4) refund_manager ''orders:48319'' r"
    using action_laws a c h v n by (auto simp: st)
  then show ?thesis by (simp add: refund_hash_def)
qed

text \<open>
  C6: an approval is used once.  The approvals an allowed action used are distinct, and no later
  action uses any of them, whatever happens in between.
\<close>

theorem approvals_single_use:
  assumes "server_ok s" and "reachable s d"
    and "action s w (Inr q) d = Inr ((RAction i res ids, status), d')"
    and "(api_step s)\<^sup>*\<^sup>* d' e" and "reachable s e"
    and "action s w' (Inr q') e = Inr ((RAction j res' ids', status'), e')"
  shows "distinct ids \<and> set ids \<inter> set ids' = {}"
proof -
  have ok: "distinct (map pr_id (t_approvals d))" "distinct (map pr_id (t_approvals e))"
    using reachable_ledger_ok [OF assms(1)] assms(2,5) by (auto simp: ledger_ok_def)
  have "distinct ids"
    using assms(3)
  proof (cases rule: action_Inr)
    case (1 v args res' ids')
    then show ?thesis
      using decide_ids_distinct [OF ok(1), of s "d_now w" v q "arguments_hash s (ac_arguments q)" args] by simp
  qed
  moreover have "x \<notin> set ids'" if x: "x \<in> set ids" for x
  proof
    assume "x \<in> set ids'"
    then obtain b where b: "find_approval_id e x = Some b" "pr_consumed b = None"
      using action_consumes(1) [OF assms(6) ok(2)] by blast
    obtain a where "find_approval_id d' x = Some a" "pr_consumed a \<noteq> None"
      using action_consumes(2) [OF assms(3) ok(1) x] by blast
    moreover have "extends d' e" using api_steps_extend [OF assms(1,4)] .
    ultimately show False using b unfolding extends_def keeps_approval_def by fastforce
  qed
  ultimately show ?thesis by blast
qed

theorem approvals_single_use_witness:
  "\<exists>res' ids' e'. action demo_server draw6 (Inr action_1) db_revoked
      = Inr ((RAction (new_id ''action_'' (d_action draw6)) res' ids', 403), e')
    \<and> set [pr_id approval_row_1] \<inter> set ids' = {}"
proof -
  obtain res e' where a: "action demo_server draw6 (Inr action_1) db_revoked
      = Inr ((RAction (new_id ''action_'' (d_action draw6)) res [], 403), e')" by (rule step_denied)
  have "(api_step demo_server)\<^sup>*\<^sup>* db_acted db_revoked" using steps(5) by blast
  from approvals_single_use [OF demo_ok reachable_states(3) step_action this reachable_states(5) a] a
  show ?thesis by blast
qed

text \<open>
  C7: revocation is final.  Once an envelope has been revoked, every later action that names it or a
  descendant of it is denied, no handoff from these is allowed, and none of them can be approved.
\<close>

theorem revocation_final:
  assumes "server_ok s" and "reachable s d" and "revoke s w i d = Inr (y, d')"
    and "(api_step s)\<^sup>*\<^sup>* d' e" and "load e j = Inr v" and "ancestry e v vs" and "i \<in> stored_id ` set vs"
  shows "(\<forall>q w k res ids status e'. ac_envelope q = j
             \<longrightarrow> action s w (Inr q) e = Inr ((RAction k res ids, status), e')
             \<longrightarrow> decision res = DENY \<and> ids = [] \<and> status = 403)
    \<and> (\<forall>now child. decision (judge_handoff s now e v child) = DENY)
    \<and> (\<forall>op p0 p who w. sign_off op p0 = Inr (p, who) \<longrightarrow> aq_envelope p = j
             \<longrightarrow> (\<exists>err. approve s w op (Inr p0) e = Inl err))"
proof -
  obtain u where u: "load d' i = Inr u" "st_revoked u \<noteq> None" using revoke_marks [OF assms(3)] by blast
  have no: "active s t e v \<noteq> Inr ()" for t
    using revoked_forever [OF api_steps_extend [OF assms(1,4)] u assms(5-7)] .
  have "decision (judge_handoff s now e v child) = DENY" for now child
    using judge_handoff_decision [of s now e v child] judge_handoff_ALLOW [of s now e v child] no by blast
  moreover have "\<exists>err. approve s w op (Inr p0) e = Inl err"
    if p: "sign_off op p0 = Inr (p, who)" "aq_envelope p = j" for op p0 p who w
  proof -
    obtain err where "active s (d_now w) e v = Inl err" using no by (cases "active s (d_now w) e v") auto
    then show ?thesis using assms(5) p by (simp add: approve_def)
  qed
  moreover have "decision res = DENY \<and> ids = [] \<and> status = 403"
    if q: "ac_envelope q = j" "action s w (Inr q) e = Inr ((RAction k res ids, status), e')" for q w k res ids status e'
    using inactive_denied [OF q(2)] no assms(5) q(1) by simp
  ultimately show ?thesis by blast
qed

theorem revocation_final_witness:
  "\<exists>res e'. action demo_server draw6 (Inr action_1) db_revoked
      = Inr ((RAction (new_id ''action_'' (d_action draw6)) res [], 403), e') \<and> decision res = DENY"
proof -
  obtain res e' where a: "action demo_server draw6 (Inr action_1) db_revoked
      = Inr ((RAction (new_id ''action_'' (d_action draw6)) res [], 403), e')" by (rule step_denied)
  have i: "''env_parent'' \<in> stored_id ` set [child_stored, revoked_root]"
    by (simp add: stored_id_def revoked_root_def root_stored_def)
  have "(api_step demo_server)\<^sup>*\<^sup>* db_revoked db_revoked" by simp
  from revocation_final [OF demo_ok reachable_states(4) step_revoke this load_child_revoked revoked_chain i]
  have "decision res = DENY" using a by (metis action_1_simps(1))
  with a show ?thesis by blast
qed

text \<open>
  C19: in a reachable state the ancestry check ends with the right answer: within its 129 iterations
  it accepts exactly the envelopes with a sound chain of ancestors, and a sound chain has at most 129
  members.
\<close>

theorem ancestry_check_complete:
  assumes "server_ok s" and "reachable s d" and "load d i = Inr v"
  shows "(active s now d v = Inr () \<longleftrightarrow> (\<exists>vs. sound_chain s now d v vs))
    \<and> (\<forall>vs. sound_chain s now d v vs \<longrightarrow> length vs \<le> 129)"
proof -
  have b: "bounded_roots d" using ledger_ok_bounded [OF reachable_ledger_ok [OF assms(1,2)]] .
  have "load d (stored_id v) = Inr v" using assms(3) load_id [OF assms(3)] by (simp add: stored_id_def)
  from sound_chain_length [OF _ b this] reachable_active_iff [OF assms] show ?thesis by blast
qed

theorem ancestry_check_complete_witness:
  "\<exists>vs. sound_chain demo_server (d_now draw4) db_approved child_stored vs \<and> length vs \<le> 129"
proof -
  have "load db_approved ''env_child'' = Inr child_stored" by (simp add: loaded_both)
  from ancestry_check_complete [OF demo_ok reachable_states(3) this, of "d_now draw4"]
    child_chain [of "d_now draw4" db_approved]
  show ?thesis by (auto simp: loaded_both)
qed



end
