(* ===== verification/Log_Guarantees.thy ===== *)
theory Log_Guarantees
  imports Guarantees
begin

text \<open>
  What the database and its audit log guarantee over every history: what is stored, what an error
  leaves behind, that nothing is rewritten, and that a rewritten log is noticed.
\<close>

section \<open>The database\<close>

text \<open>
  C18: every reachable database holds only proper records: each envelope row holds a document with the
  row's id and the server's signature, its parent column is the signed parent, a child is in the same
  run as its stored parent, a root has depth 0 and a bound of at most 128; ids are unique and every
  row's run exists.
\<close>

theorem stored_records_proper:
  assumes "server_ok s" and "reachable s d" and "r \<in> set (t_envelopes d)"
  shows "\<exists>v. er_doc r = Some v \<and> env_id v = er_id r \<and> verify (srv_crypto s) v (srv_pub s) = Inr ()
    \<and> er_parent r = (if parent_envelope v \<noteq> [] then Some (parent_envelope v) else None)
    \<and> (parent_envelope v = [] \<longrightarrow> current_depth (env_delegation v) = 0 \<and> sint (max_depth (env_delegation v)) \<le> 128)
    \<and> (parent_envelope v \<noteq> [] \<longrightarrow>
        (\<exists>p \<in> set (t_envelopes d). er_id p = parent_envelope v \<and> er_run p = er_run r))
    \<and> distinct (map er_id (t_envelopes d)) \<and> has_run d (er_run r)"
proof -
  note ok = reachable_ledger_ok [OF assms(1,2)]
  have "row_ok s (t_envelopes d) r" "distinct (map er_id (t_envelopes d))"
    using ok assms(3) by (simp_all add: ledger_ok_def)
  moreover have "has_run d (er_run r)"
    using reachable_runs_exist [OF assms(1,2)] assms(3) by (simp add: runs_exist_def)
  ultimately show ?thesis by (auto simp: row_ok_def issued_def root_ok_def split: option.splits if_splits)
qed

theorem stored_records_proper_witness:
  "\<exists>v. er_doc (row_of run_1 child_env (d_txnow draw2)) = Some v \<and> verify sample_crypto v sample_pub = Inr ()"
  using stored_records_proper [OF demo_ok reachable_states(2), of "row_of run_1 child_env (d_txnow draw2)"] by auto






text \<open>
  C16: nothing is rewritten.  Along any history every stored envelope keeps its document, run and
  parent, every approval its content, a revocation and the use of an approval stay, and the audit log
  is only extended.
\<close>

theorem history_only_extends:
  assumes "server_ok s" and "(api_step s)\<^sup>*\<^sup>* d e"
  shows "(\<forall>i r. find_envelope d i = Some r \<longrightarrow> (\<exists>r'. find_envelope e i = Some r' \<and> keeps_envelope r r'))
    \<and> (\<forall>i a. find_approval_id d i = Some a \<longrightarrow> (\<exists>a'. find_approval_id e i = Some a' \<and> keeps_approval a a'))
    \<and> prefix (t_audit d) (t_audit e) \<and> set (t_runs d) \<subseteq> set (t_runs e)"
  using api_steps_extend [OF assms] by (simp add: extends_def)

theorem history_only_extends_witness: "prefix [event_1] [event_1, event_2, event_3, event_4, event_5]"
proof -
  have "(api_step demo_server)\<^sup>*\<^sup>* db_root db_revoked"
    using steps(2-5) by (meson converse_rtranclp_into_rtranclp rtranclp.rtrancl_refl)
  from history_only_extends [OF demo_ok this] show ?thesis by simp
qed

section \<open>The audit log\<close>

text \<open>
  C12: the verification of a run reports VALID in every reachable state, whatever the history, with
  no failure, all the run's events counted and the hash of its last event as the head.
\<close>

theorem reachable_verifies:
  assumes "server_ok s" and "reachable s d" and "has_run d run"
  shows "\<exists>rep. verify_audit (srv_crypto s) (srv_pub s) run d = Inr rep \<and> rp_status rep = ''VALID''
    \<and> rp_failures rep = [] \<and> rp_events rep = length (events_of run d) \<and> rp_head rep = last_hash run d"
  by (rule verify_sound_ledger [OF reachable_ledger_ok [OF assms(1,2)] assms(3)])

theorem reachable_verifies_witness:
  "\<exists>rep. verify_audit sample_crypto sample_pub run_1 db_revoked = Inr rep \<and> rp_status rep = ''VALID'' \<and> rp_events rep = 5"
proof -
  have "has_run db_revoked run_1" by (simp add: has_run_def)
  from reachable_verifies [OF demo_ok reachable_states(5) this]
  show ?thesis by (auto simp: events_of_def event_fields event_fields_3 event_fields_4 event_fields_5)
qed

text \<open>
  C13: a verified log is tamper evident.  If two logs of a run verify and report the same head hash,
  they hold the same events (ids, types, payloads, times as printed) in the same order, provided
  SHA-256 does not collide on the hashed texts.
\<close>

theorem tamper_evident:
  assumes "collision_free c T"
    and "verify_audit c pub run d = Inr rep" and "rp_status rep = ''VALID''"
    and "verify_audit c pub' run d' = Inr rep'" and "rp_status rep' = ''VALID''" and "rp_head rep = rp_head rep'"
    and "\<forall>e \<in> set (events_of run d) \<union> set (events_of run d'). event_ok e \<and> header_text e \<in> T \<and> payload_text e \<in> T"
  shows "map event_content (events_of run d) = map event_content (events_of run d')"
proof (rule audit_log.same_head)
  note 1 = verify_audit_VALID [OF assms(2,3)] and 2 = verify_audit_VALID [OF assms(4,5)]
  show "audit_log.chained [] (events_of run d)" "audit_log.chained [] (events_of run d')"
    using linked_chained [OF 1 [THEN conjunct1]] linked_chained [OF 2 [THEN conjunct1]] by blast+
  show "audit_log.last_of [] (events_of run d) = audit_log.last_of [] (events_of run d')"
    using 1 2 assms(6) by (simp add: last_of_head)
  show "\<forall>e \<in> set (events_of run d). proper_event c T e" "\<forall>e \<in> set (events_of run d'). proper_event c T e"
    using linked_chained [OF 1 [THEN conjunct1]] linked_chained [OF 2 [THEN conjunct1]] assms(1,7)
    by (simp_all add: proper_event_def)
qed

text \<open>For the witness: a hash without collisions, and a log of one event next to that of another run.\<close>

definition long_crypto :: crypto where
  "long_crypto = sample_crypto\<lparr>sha256 := (\<lambda>m. m @ ''h'')\<rparr>"

definition lone_event :: audit_row where
  "lone_event = audit_event long_crypto ''1v'' 0 run_1 ''note'' (JObj []) empty_db"

definition lone_log :: "audit_row list \<Rightarrow> db" where
  "lone_log es = empty_db\<lparr>t_runs := [(run_1, 0), (''run_2'', 0)], t_audit := lone_event # es\<rparr>"

lemma lone_events: "au_run e \<noteq> run_1 \<Longrightarrow> events_of run_1 (lone_log [e]) = [lone_event]"
  "events_of run_1 (lone_log []) = [lone_event]"
  by (simp_all add: events_of_def lone_log_def lone_event_def)

lemma lone_verifies:
  assumes "events_of run_1 (lone_log es) = [lone_event]"
  shows "verify_audit long_crypto pub run_1 (lone_log es)
    = Inr \<lparr>rp_status = ''VALID'', rp_events = 1, rp_envelopes = 0, rp_head = au_hash lone_event, rp_failures = []\<rparr>"
proof -
  have "event_intact long_crypto [] lone_event"
    using audit_event_intact [of long_crypto run_1 empty_db "''1v''" 0 "''note''" "JObj []"]
    by (simp add: lone_event_def last_hash_def events_of_def)
  moreover have "event_snapshot (au_type lone_event) (au_payload lone_event) = None"
    by (simp add: lone_event_def audit_event_def Let_def event_snapshot_def)
  ultimately have "verify_events long_crypto [lone_event]
      = \<lparr>vs_failures = [], vs_previous = au_hash lone_event, vs_count = 1, vs_snapshots = []\<rparr>"
    by (simp add: verify_events_def verify_event_def Let_def)
  moreover have "run_rows run_1 (lone_log es) = []" by (simp add: run_rows_def lone_log_def)
  moreover have "has_run (lone_log es) run_1" by (simp add: has_run_def lone_log_def)
  ultimately show ?thesis by (simp add: verify_audit_def Let_def assms)
qed

theorem tamper_evident_witness:
  "map event_content (events_of run_1 (lone_log [])) = map event_content (events_of run_1 (lone_log [lone_event\<lparr>au_run := ''run_2''\<rparr>]))"
proof (rule tamper_evident [of long_crypto UNIV])
  have r: "au_run (lone_event\<lparr>au_run := ''run_2''\<rparr>) \<noteq> run_1" by (simp add: run_1_def)
  show "collision_free long_crypto UNIV" by (simp add: collision_free_def long_crypto_def inj_on_def)
  show "verify_audit long_crypto [] run_1 (lone_log []) = Inr \<lparr>rp_status = ''VALID'', rp_events = 1, rp_envelopes = 0,
      rp_head = au_hash lone_event, rp_failures = []\<rparr>" by (rule lone_verifies) (rule lone_events)
  show "verify_audit long_crypto [] run_1 (lone_log [lone_event\<lparr>au_run := ''run_2''\<rparr>]) = Inr \<lparr>rp_status = ''VALID'',
      rp_events = 1, rp_envelopes = 0, rp_head = au_hash lone_event, rp_failures = []\<rparr>"
    by (rule lone_verifies) (rule lone_events(1) [OF r])
  have "event_ok lone_event" by code_simp
  then show "\<forall>e \<in> set (events_of run_1 (lone_log [])) \<union> set (events_of run_1 (lone_log [lone_event\<lparr>au_run := ''run_2''\<rparr>])).
      event_ok e \<and> header_text e \<in> UNIV \<and> payload_text e \<in> UNIV"
    unfolding lone_events(1) [OF r] lone_events(2) by simp
qed simp_all

section \<open>The service implements the ledger\<close>

text \<open>
  C15: every step of the service is a step of the abstract ledger: it leaves the ledger alone, opens a
  run with a signed root, adds a signed child that an active parent allows, revokes, adds an unused
  approval of an active envelope, or marks unused approvals as used, with exactly one audit event.
\<close>

theorem service_refines_ledger:
  assumes "server_ok s" and "api_step s d d'"
  shows "ledger_step s d d'"
  by (rule api_step_ledger [OF assms])

theorem service_refines_ledger_witness: "ledger_step demo_server db_child db_approved"
  by (rule service_refines_ledger [OF demo_ok steps(3)])

end
