(* ===== verification/Json_Parse.thy ===== *)
theory Json_Parse
  imports Json_Inject
begin

text \<open>
  The decoder of \<open>encoding/json\<close> from bytes to values (with \<open>UseNumber\<close>): white space, strings with
  their escapes and surrogate pairs, invalid UTF-8 as U+FFFD, number literals, the limit of 10000
  nested values.  What the encoder prints is read back as the value it printed
  (\<open>parse_printed\<close>).  The two tests of lengths are always met (\<open>parse_shorter\<close>); they show
  that the recursion ends.
\<close>

section \<open>Strings\<close>

definition is_ws :: "char \<Rightarrow> bool" where
  "is_ws c \<longleftrightarrow> c = CHR 0x20 \<or> c = CHR 0x09 \<or> c = CHR 0x0A \<or> c = CHR 0x0D"

definition skip_ws :: "string \<Rightarrow> string" where
  "skip_ws s = dropWhile is_ws s"

definition hex_nibble :: "char \<Rightarrow> nat option" where
  "hex_nibble c =
     (if is_digit c then Some (byte c - 48)
      else if 97 \<le> byte c \<and> byte c \<le> 102 then Some (byte c - 87)
      else if 65 \<le> byte c \<and> byte c \<le> 70 then Some (byte c - 55)
      else None)"

text \<open>The code of an escape \<open>\uXXXX\<close> from its four digits.\<close>

fun hex4 :: "string \<Rightarrow> nat option" where
  "hex4 (a # b # c # d # r) =
     (case (hex_nibble a, hex_nibble b, hex_nibble c, hex_nibble d) of
        (Some w, Some x, Some y, Some z) \<Rightarrow> Some (4096 * w + 256 * x + 16 * y + z)
      | _ \<Rightarrow> None)"
| "hex4 _ = None"

definition replacement :: string where
  "replacement = [CHR 0xEF, CHR 0xBF, CHR 0xBD]"

definition utf8_encode :: "nat \<Rightarrow> string" where
  "utf8_encode n =
     (if n < 128 then [char_of n]
      else if n < 2048 then [char_of (192 + n div 64), char_of (128 + n mod 64)]
      else if 55296 \<le> n \<and> n < 57344 \<or> 1114112 \<le> n then replacement
      else if n < 65536 then
        [char_of (224 + n div 4096), char_of (128 + n div 64 mod 64), char_of (128 + n mod 64)]
      else [char_of (240 + n div 262144), char_of (128 + n div 4096 mod 64), char_of (128 + n div 64 mod 64),
            char_of (128 + n mod 64)])"

text \<open>The second half of a surrogate pair at the head of the text, and the rune of both.\<close>

definition low_surrogate :: "string \<Rightarrow> nat option" where
  "low_surrogate s =
     (if take 2 s = [CHR 0x5C, CHR ''u''] then
        (case hex4 (drop 2 s) of Some n \<Rightarrow> if 56320 \<le> n \<and> n < 57344 then Some n else None | None \<Rightarrow> None)
      else None)"

definition short_escape :: "char \<Rightarrow> char option" where
  "short_escape e =
     (if e = CHR 0x22 \<or> e = CHR 0x5C \<or> e = CHR ''/'' then Some e
      else if e = CHR ''b'' then Some (CHR 0x08) else if e = CHR ''f'' then Some (CHR 0x0C)
      else if e = CHR ''n'' then Some (CHR 0x0A) else if e = CHR ''r'' then Some (CHR 0x0D)
      else if e = CHR ''t'' then Some (CHR 0x09) else None)"

text \<open>The escape after a backslash: its text and how many bytes it takes.\<close>

definition parse_escape :: "string \<Rightarrow> (string \<times> nat) option" where
  "parse_escape s =
     (case s of
        [] \<Rightarrow> None
      | e # r \<Rightarrow>
          if e = CHR ''u'' then
            (case hex4 r of
               None \<Rightarrow> None
             | Some n \<Rightarrow>
                 if 55296 \<le> n \<and> n < 57344 then
                   (case (if n < 56320 then low_surrogate (drop 4 r) else None) of
                      Some m \<Rightarrow> Some (utf8_encode (65536 + 1024 * (n - 55296) + (m - 56320)), 11)
                    | None \<Rightarrow> Some (replacement, 5))
                 else Some (utf8_encode n, 5))
          else map_option (\<lambda>c. ([c], 1)) (short_escape e))"

text \<open>The rest of a string after its opening quote.\<close>

function parse_chars :: "string \<Rightarrow> (string \<times> string) option" where
  "parse_chars [] = None"
| "parse_chars (c # r) =
     (if c = CHR 0x22 then Some ([], r)
      else if c = CHR 0x5C then
        (case parse_escape r of
           None \<Rightarrow> None
         | Some (t, n) \<Rightarrow> map_option (\<lambda>(u, x). (t @ u, x)) (parse_chars (drop n r)))
      else if byte c < 32 then None
      else if rune_size (c # r) = 0 then map_option (\<lambda>(u, x). (replacement @ u, x)) (parse_chars r)
      else map_option (\<lambda>(u, x). (take (rune_size (c # r)) (c # r) @ u, x))
             (parse_chars (drop (rune_size (c # r)) (c # r))))"
  by pat_completeness auto
termination
  by (relation "measure length") auto

section \<open>Numbers\<close>

definition digits :: "string \<Rightarrow> string \<times> string" where
  "digits s = (takeWhile is_digit s, dropWhile is_digit s)"

definition parse_integer :: "string \<Rightarrow> (string \<times> string) option" where
  "parse_integer s =
     (case digits s of
        ([], r) \<Rightarrow> None
      | (d # ds, r) \<Rightarrow> if d = CHR ''0'' then Some ([d], ds @ r) else Some (d # ds, r))"

definition parse_fraction :: "string \<Rightarrow> (string \<times> string) option" where
  "parse_fraction s =
     (if take 1 s = ''.'' then (case digits (drop 1 s) of ([], r) \<Rightarrow> None | (ds, r) \<Rightarrow> Some (CHR ''.'' # ds, r))
      else Some ([], s))"

definition sign_of :: "string \<Rightarrow> string" where
  "sign_of s = (if take 1 s = ''+'' \<or> take 1 s = ''-'' then take 1 s else [])"

definition parse_exponent :: "string \<Rightarrow> (string \<times> string) option" where
  "parse_exponent s =
     (if take 1 s = ''e'' \<or> take 1 s = ''E'' then
        (case digits (drop (length (sign_of (drop 1 s))) (drop 1 s)) of
           ([], r) \<Rightarrow> None
         | (ds, r) \<Rightarrow> Some (take 1 s @ sign_of (drop 1 s) @ ds, r))
      else Some ([], s))"

definition parse_number :: "string \<Rightarrow> (string \<times> string) option" where
  "parse_number s =
     (let sg = (if take 1 s = ''-'' then ''-'' else [])
      in (case parse_integer (drop (length sg) s) of
            None \<Rightarrow> None
          | Some (a, r) \<Rightarrow>
              (case parse_fraction r of
                 None \<Rightarrow> None
               | Some (b, r) \<Rightarrow>
                   map_option (\<lambda>(c, r). (sg @ a @ b @ c, r)) (parse_exponent r))))"

section \<open>Values\<close>

lemma skip_ws_length: "skip_ws s = c # r \<Longrightarrow> length r < length s"
  unfolding skip_ws_def using length_dropWhile_le [of is_ws s] by simp

text \<open>The first argument is how many more levels may be opened.\<close>

function (sequential)
  parse_value :: "int \<Rightarrow> string \<Rightarrow> (json \<times> string) option" and
  parse_items :: "int \<Rightarrow> string \<Rightarrow> (json list \<times> string) option" and
  parse_members :: "int \<Rightarrow> string \<Rightarrow> ((string \<times> json) list \<times> string) option"
where
  "parse_value n s =
     (case skip_ws s of
        [] \<Rightarrow> None
      | c # r \<Rightarrow>
          if c = CHR 0x22 then map_option (\<lambda>(t, x). (JStr t, x)) (parse_chars r)
          else if c = CHR ''['' then
            (if n \<le> 0 then None
             else if take 1 (skip_ws r) = '']'' then Some (JArr [], drop 1 (skip_ws r))
             else map_option (\<lambda>(vs, x). (JArr vs, x)) (parse_items (n - 1) r))
          else if c = CHR ''{'' then
            (if n \<le> 0 then None
             else if take 1 (skip_ws r) = ''}'' then Some (JObj [], drop 1 (skip_ws r))
             else map_option (\<lambda>(vs, x). (JObj vs, x)) (parse_members (n - 1) r))
          else if prefix ''null'' (c # r) then Some (JNull, drop 3 r)
          else if prefix ''true'' (c # r) then Some (JBool True, drop 3 r)
          else if prefix ''false'' (c # r) then Some (JBool False, drop 4 r)
          else map_option (\<lambda>(t, x). (JNum t, x)) (parse_number (c # r)))"
| "parse_items n s =
     (case parse_value n s of
        None \<Rightarrow> None
      | Some (v, x) \<Rightarrow>
          (case skip_ws x of
             [] \<Rightarrow> None
           | c # y \<Rightarrow>
               if c = CHR '']'' then Some ([v], y)
               else if c = CHR '','' \<and> length y < length s then
                 map_option (\<lambda>(vs, z). (v # vs, z)) (parse_items n y)
               else None))"
| "parse_members n s =
     (case skip_ws s of
        [] \<Rightarrow> None
      | q # r \<Rightarrow>
          if q \<noteq> CHR 0x22 then None
          else (case parse_chars r of
              None \<Rightarrow> None
            | Some (k, x) \<Rightarrow>
                (case skip_ws x of
                   [] \<Rightarrow> None
                 | c # y \<Rightarrow>
                     if c = CHR '':'' \<and> length y < length s then
                       (case parse_value n y of
                          None \<Rightarrow> None
                        | Some (v, z) \<Rightarrow>
                            (case skip_ws z of
                               [] \<Rightarrow> None
                             | c # u \<Rightarrow>
                                 if c = CHR ''}'' then Some ([(k, v)], u)
                                 else if c = CHR '','' \<and> length u < length s then
                                   map_option (\<lambda>(kvs, w). ((k, v) # kvs, w)) (parse_members n u)
                                 else None))
                     else None)))"
  by pat_completeness auto

termination
  by (relation "measure (\<lambda>x. case x of Inl (n, s) \<Rightarrow> 2 * length s
      | Inr (Inl (n, s)) \<Rightarrow> 2 * length s + 1 | Inr (Inr (n, s)) \<Rightarrow> 2 * length s + 1)")
    (auto dest!: skip_ws_length)

declare parse_value.simps [simp del] parse_items.simps [simp del] parse_members.simps [simp del]

definition parse_document :: "string \<Rightarrow> json option" where
  "parse_document s =
     (case parse_value 10000 s of
        None \<Rightarrow> None
      | Some (v, x) \<Rightarrow> if skip_ws x = [] then Some v else None)"

section \<open>What is printed is read back\<close>

subsection \<open>Strings\<close>

lemma hex_nibble_digit: "d < 16 \<Longrightarrow> hex_nibble (hex_digit d) = Some d"
  by (auto simp: hex_nibble_def hex_digit_def is_digit_def byte_def of_char_of)

lemma hex4_byte: "hex4 (CHR ''0'' # CHR ''0'' # hex_byte c @ x) = Some (byte c)"
proof -
  have "hex_nibble (CHR ''0'') = Some 0" by (simp add: hex_nibble_def is_digit_def byte_def)
  moreover have "byte c div 16 < 16" by (rule less_mult_imp_div_less) (use byte_less [of c] in simp)
  ultimately show ?thesis by (simp add: hex_byte_def hex_nibble_digit)
qed

lemma parse_escape_code:
  assumes "c = [CHR 0x5C, e] @ t" and "parse_escape (e # t @ y) = Some (r, n)" and "drop n (e # t @ y) = y"
  shows "parse_chars (c @ y) = map_option (\<lambda>(u, x). (r @ u, x)) (parse_chars y)"
  using assms by (simp del: drop.simps)

lemma utf8_encode_ascii: "byte c < 128 \<Longrightarrow> utf8_encode (byte c) = [c]"
  by (simp add: utf8_encode_def)

lemma parse_chars_ascii:
  assumes "byte c < 128"
  shows "parse_chars (escape_rune [c] @ y) = map_option (\<lambda>(u, x). ([c] @ u, x)) (parse_chars y)"
proof (cases "c = CHR 0x22 \<or> c = CHR 0x5C \<or> c \<in> {CHR 0x08, CHR 0x0C, CHR 0x0A, CHR 0x0D, CHR 0x09}")
  case True
  define e where "e = (if c = CHR 0x08 then CHR ''b'' else if c = CHR 0x0C then CHR ''f'' else if c = CHR 0x0A then CHR ''n''
      else if c = CHR 0x0D then CHR ''r'' else if c = CHR 0x09 then CHR ''t'' else c)"
  have "escape_rune [c] = [CHR 0x5C, e]" "e \<noteq> CHR ''u''" "short_escape e = Some c"
    using True assms by (auto simp: e_def escape_rune_def short_escape_def byte_def)
  then show ?thesis by (intro parse_escape_code [of _ e "[]" _ _ 1]) (simp_all add: parse_escape_def)
next
  case plain: False
  show ?thesis
  proof (cases "byte c < 32 \<or> c = CHR ''<'' \<or> c = CHR ''>'' \<or> c = CHR ''&''")
    case True
    then have "escape_rune [c] = [CHR 0x5C, CHR ''u''] @ ''00'' @ hex_byte c"
      using assms plain by (auto simp: escape_rune_def)
    then show ?thesis
      by (intro parse_escape_code [of _ "CHR ''u''" "''00'' @ hex_byte c" _ _ 5])
        (use assms in \<open>simp_all add: parse_escape_def hex4_byte utf8_encode_ascii, simp_all add: hex_byte_def\<close>)
  next
    case False
    then have e: "escape_rune [c] = [c]" using assms plain by (auto simp: escape_rune_def)
    have "rune_size (c # y) = 1" using assms by (simp add: rune_size_def)
    with e assms plain False show ?thesis by auto
  qed
qed

lemma parse_chars_long:
  assumes "rune_ok r" and "length r \<noteq> 1"
  shows "parse_chars (r @ y) = map_option (\<lambda>(u, x). (r @ u, x)) (parse_chars y)"
proof -
  obtain c t where r: "r = c # t" using assms(1) by (cases r) (auto simp: rune_ok_def rune_size_def)
  have "194 \<le> byte c" using rune_ok_long [OF assms] r by simp
  then have "c \<noteq> CHR 0x22" "c \<noteq> CHR 0x5C" "\<not> byte c < 32" by (auto simp: byte_def)
  moreover have "rune_size (c # t @ y) = length r" using rune_size_append [OF assms(1), of y] r by simp
  ultimately show ?thesis using r assms(1) by (simp add: rune_ok_def)
qed

lemma parse_chars_rune:
  assumes "rune_ok r"
  shows "parse_chars (escape_rune r @ y) = map_option (\<lambda>(u, x). (r @ u, x)) (parse_chars y)"
proof (cases "length r = 1")
  case True
  then obtain c where "r = [c]" by (cases r) auto
  with assms show ?thesis by (simp add: parse_chars_ascii rune_ok_single)
next
  case False
  note long = escape_rune_long [OF False]
  have sep: "parse_chars ([CHR 0x5C] @ code @ y) = map_option (\<lambda>(u, x). (r @ u, x)) (parse_chars y)"
    if "code = ''u2028'' \<and> r = [CHR 0xE2, CHR 0x80, CHR 0xA8] \<or> code = ''u2029'' \<and> r = [CHR 0xE2, CHR 0x80, CHR 0xA9]" for code
  proof -
    have "parse_escape (''u2028'' @ y) = Some ([CHR 0xE2, CHR 0x80, CHR 0xA8], 5)"
      "parse_escape (''u2029'' @ y) = Some ([CHR 0xE2, CHR 0x80, CHR 0xA9], 5)"
      by (simp_all add: parse_escape_def hex_nibble_def is_digit_def byte_def utf8_encode_def) code_simp+
    with that show ?thesis by auto
  qed
  consider "r = [CHR 0xE2, CHR 0x80, CHR 0xA8]" | "r = [CHR 0xE2, CHR 0x80, CHR 0xA9]" | "escape_rune r = r"
    using long by metis
  then show ?thesis
  proof cases
    case 1
    then have "escape_rune r = [CHR 0x5C] @ ''u2028''" using long by simp
    with sep [of "''u2028''"] 1 show ?thesis by (simp only: append_assoc simp_thms)
  next
    case 2
    then have "escape_rune r = [CHR 0x5C] @ ''u2029''" using long by simp
    with sep [of "''u2029''"] 2 show ?thesis by (simp only: append_assoc simp_thms)
  next
    case 3
    then show ?thesis using parse_chars_long [OF assms False, of y] by (simp only:)
  qed
qed

lemma parse_chars_printed:
  assumes "valid_utf8 s"
  shows "parse_chars (concat (map escape_rune (runes s)) @ CHR 0x22 # x) = Some (s, x)"
proof -
  have "parse_chars (concat (map escape_rune rs) @ CHR 0x22 # x) = Some (concat rs, x)"
    if "\<forall>r \<in> set rs. rune_ok r" for rs
    using that
  proof (induction rs)
    case (Cons r rs)
    then show ?case using parse_chars_rune [of r "concat (map escape_rune rs) @ CHR 0x22 # x"] by simp
  qed simp
  from this [OF valid_utf8_runes [OF assms]] show ?thesis by simp
qed

subsection \<open>Numbers\<close>

definition json_number :: "string \<Rightarrow> bool" where
  "json_number s \<longleftrightarrow> parse_number s = Some (s, [])"

lemma delim_not_number: "delim x \<Longrightarrow> take 1 x \<notin> {''.'', ''e'', ''E''} \<and> (x = [] \<or> \<not> is_digit (hd x))"
  by (cases x) (auto simp: is_digit_def byte_def)

lemma digits_append:
  assumes "delim x"
  shows "digits (s @ x) = (fst (digits s), snd (digits s) @ x)"
proof -
  have "takeWhile is_digit x = []" "dropWhile is_digit x = x"
    using delim_not_number [OF assms] by (cases x; simp)+
  then show ?thesis unfolding digits_def
    by (induction s) auto
qed

lemma digits_empty: "digits s = ([], r) \<Longrightarrow> r = s"
  by (cases s) (auto simp: digits_def split: if_splits)

lemma parse_integer_append: "parse_integer s = Some (a, r) \<Longrightarrow> delim x \<Longrightarrow> parse_integer (s @ x) = Some (a, r @ x)"
  unfolding parse_integer_def digits_append
  by (cases "digits s") (auto split: list.splits if_splits)

lemma parse_fraction_append: "parse_fraction s = Some (a, r) \<Longrightarrow> delim x \<Longrightarrow> parse_fraction (s @ x) = Some (a, r @ x)"
  using delim_not_number [of x] unfolding parse_fraction_def
  by (cases s; cases "digits (drop 1 s)") (auto simp: digits_append split: list.splits if_splits)

lemma parse_exponent_append:
  assumes "parse_exponent s = Some (a, r)" and "delim x"
  shows "parse_exponent (s @ x) = Some (a, r @ x)"
proof (cases "take 1 s = ''e'' \<or> take 1 s = ''E''")
  case False
  with assms delim_not_number [OF assms(2)] show ?thesis
    by (cases s) (auto simp: parse_exponent_def)
next
  case True
  then obtain c t where s: "s = c # t" "[c] = ''e'' \<or> [c] = ''E''" by (cases s) auto
  have t: "t \<noteq> []"
    using assms(1) s by (auto simp: parse_exponent_def digits_def)
  then have sg: "sign_of (t @ x) = sign_of t" by (cases t) (auto simp: sign_of_def)
  have d: "drop (length (sign_of t)) (t @ x) = drop (length (sign_of t)) t @ x"
    using t by (cases t) (auto simp: sign_of_def)
  obtain ds u where "digits (drop (length (sign_of t)) t) = (ds, u)" by fastforce
  with assms s sg d show ?thesis by (auto simp: parse_exponent_def digits_append split: list.splits)
qed

lemma parse_number_append:
  assumes "json_number s" and "delim x"
  shows "parse_number (s @ x) = Some (s, x)"
proof -
  let ?sg = "if take 1 s = ''-'' then ''-'' else []"
  obtain a r where a: "parse_integer (drop (length ?sg) s) = Some (a, r)"
    using assms(1) unfolding json_number_def parse_number_def Let_def by (auto split: option.splits)
  obtain b u where b: "parse_fraction r = Some (b, u)"
    using assms(1) a unfolding json_number_def parse_number_def Let_def by (auto split: option.splits)
  obtain c v where c: "parse_exponent u = Some (c, v)"
    using assms(1) a b unfolding json_number_def parse_number_def Let_def by (auto split: option.splits)
  have v: "v = []" "s = ?sg @ a @ b @ c"
    using assms(1) a b c unfolding json_number_def parse_number_def Let_def by simp_all
  have n: "s \<noteq> []" using a by (auto simp: parse_integer_def digits_def)
  then have sg: "(if take 1 (s @ x) = ''-'' then ''-'' else []) = ?sg" by (cases s) auto
  have d: "drop (length ?sg) (s @ x) = drop (length ?sg) s @ x" using n by (cases s) auto
  show ?thesis
    unfolding parse_number_def Let_def sg d parse_integer_append [OF a assms(2)]
    using parse_fraction_append [OF b assms(2)] parse_exponent_append [OF c assms(2)] v by simp
qed

lemma json_number_head:
  assumes "json_number s"
  obtains c t where "s = c # t" and "is_digit c \<or> c = CHR ''-''"
proof -
  obtain a r where a: "parse_integer (drop (length (if take 1 s = ''-'' then ''-'' else [])) s) = Some (a, r)"
    using assms unfolding json_number_def parse_number_def Let_def by (auto split: option.splits)
  show thesis
  proof (cases s)
    case Nil
    with a show thesis by (simp add: parse_integer_def digits_def)
  next
    case (Cons c t)
    with a that show thesis by (cases "c = CHR ''-''") (auto simp: parse_integer_def digits_def split: if_splits)
  qed
qed

subsection \<open>Values\<close>

text \<open>Values of valid text and number literals, nested at most \<open>n\<close> deep.\<close>

fun readable :: "int \<Rightarrow> json \<Rightarrow> bool" where
  "readable n (JNum s) \<longleftrightarrow> json_number s"
| "readable n (JStr s) \<longleftrightarrow> valid_utf8 s"
| "readable n (JArr vs) \<longleftrightarrow> 0 < n \<and> (\<forall>v \<in> set vs. readable (n - 1) v)"
| "readable n (JObj kvs) \<longleftrightarrow> 0 < n \<and> (\<forall>(k, v) \<in> set kvs. valid_utf8 k \<and> readable (n - 1) v)"
| "readable n v \<longleftrightarrow> True"

lemma plain_heads [simp]: "\<not> is_ws CHR 0x22" "\<not> is_ws CHR ''[''" "\<not> is_ws CHR ''{''" "\<not> is_ws CHR '',''"
  "\<not> is_ws CHR '']''" "\<not> is_ws CHR ''}''" "\<not> is_ws CHR '':''" "\<not> is_ws CHR ''n''" "\<not> is_ws CHR ''t''" "\<not> is_ws CHR ''f''"
  by (simp_all add: is_ws_def)

lemma skip_ws_Cons [simp]: "\<not> is_ws c \<Longrightarrow> skip_ws (c # s) = c # s"
  by (simp add: skip_ws_def)

lemma number_head: "is_digit c \<or> c = CHR ''-'' \<Longrightarrow> \<not> is_ws c \<and> c \<notin> set ''],}:[{ntf'' \<and> c \<noteq> CHR 0x22"
  by (auto simp: is_digit_def is_ws_def byte_def)

lemma readable_head:
  assumes "readable n v"
  obtains c t where "print_json v = c # t" and "\<not> is_ws c" and "c \<notin> set ''],}:''"
proof (cases v)
  case (JNum s)
  with assms obtain c t where "s = c # t" "is_digit c \<or> c = CHR ''-''" by (auto elim: json_number_head)
  with JNum number_head [of c] that show thesis by auto
next
  case (JBool b)
  with that show thesis by (cases b) auto
qed (use that in \<open>auto simp: print_string_def\<close>)

lemma parse_value_printed_plain:
  "parse_value n (''null'' @ x) = Some (JNull, x)" "parse_value n (''true'' @ x) = Some (JBool True, x)"
  "parse_value n (''false'' @ x) = Some (JBool False, x)"
  by (simp_all add: parse_value.simps)

lemma parse_value_string:
  "valid_utf8 s \<Longrightarrow> parse_value n (print_string s @ x) = Some (JStr s, x)"
  using parse_chars_printed [of s x] by (simp add: parse_value.simps print_string_def)

lemma parse_value_number:
  assumes "json_number s" and "delim x"
  shows "parse_value n (s @ x) = Some (JNum s, x)"
proof -
  obtain c t where s: "s = c # t" "is_digit c \<or> c = CHR ''-''" using assms(1) by (rule json_number_head)
  with number_head [OF s(2)] parse_number_append [OF assms] show ?thesis
    by (auto simp: parse_value.simps prefix_def)
qed

text \<open>White space may stand before a value, and between the items of an array or the members of an object.\<close>

definition ws_only :: "string \<Rightarrow> bool" where
  "ws_only w \<longleftrightarrow> (\<forall>c \<in> set w. is_ws c)"

lemma ws_only_Nil [simp]: "ws_only []"
  by (simp add: ws_only_def)

lemma skip_ws_only [simp]: "ws_only w \<Longrightarrow> skip_ws (w @ s) = skip_ws s"
  by (simp add: ws_only_def skip_ws_def dropWhile_append2)

lemma parse_value_ws: "ws_only w \<Longrightarrow> parse_value n (w @ s) = parse_value n s"
  by (simp add: parse_value.simps [of n "w @ s"] parse_value.simps [of n s])

lemma parse_items_text:
  assumes "vs \<noteq> []" and "ws_only w" "ws_only w'" "delim (w' @ '']'')"
    and "\<And>v x. v \<in> set vs \<Longrightarrow> delim x \<Longrightarrow> parse_value n (p v @ x) = Some (v, x)"
  shows "parse_items n (w @ join (CHR '','' # w) (map p vs) @ w' @ CHR '']'' # x) = Some (vs, x)"
  using assms
proof (induction vs rule: list_nonempty_induct)
  case (single v)
  have "delim (w' @ CHR '']'' # x)" using single.prems(3) by (cases w') auto
  then have "parse_value n (w @ p v @ w' @ CHR '']'' # x) = Some (v, w' @ CHR '']'' # x)"
    unfolding parse_value_ws [OF single.prems(1)] by (rule single.prems(4) [rotated]) simp
  then show ?case using single.prems(2) by (simp add: parse_items.simps)
next
  case (cons v vs)
  let ?rest = "w @ join (CHR '','' # w) (map p vs) @ w' @ CHR '']'' # x"
  have j: "join (CHR '','' # w) (map p (v # vs)) = p v @ CHR '','' # w @ join (CHR '','' # w) (map p vs)"
    using cons.hyps by (cases vs) auto
  have "parse_value n (w @ p v @ CHR '','' # ?rest) = Some (v, CHR '','' # ?rest)"
    unfolding parse_value_ws [OF cons.prems(1)] by (rule cons.prems(4)) simp_all
  moreover have "parse_items n ?rest = Some (vs, x)"
    by (rule cons.IH) (use cons.prems in simp_all)
  ultimately show ?case unfolding j by (simp add: parse_items.simps [of n "w @ p v @ CHR '','' # ?rest"])
qed

lemma parse_member:
  assumes "valid_utf8 k" and "ws_only w" "ws_only b" and "parse_value n y = Some (v, w' @ c # u)" and "ws_only w'"
    and "c \<in> {CHR '','', CHR ''}''}" and "length u < length y"
  shows "parse_members n (w @ print_string k @ CHR '':'' # b @ y)
    = (if c = CHR ''}'' then Some ([(k, v)], u) else map_option (\<lambda>(kvs, w). ((k, v) # kvs, w)) (parse_members n u))"
  unfolding parse_members.simps [of n "w @ print_string k @ CHR '':'' # b @ y"]
  using parse_chars_printed [OF assms(1), of "CHR '':'' # b @ y"] parse_value_ws [OF assms(3), of n y] assms(2-)
  by (auto simp: print_string_def)

lemma parse_members_text:
  assumes "kvs \<noteq> []" and "ws_only w" "ws_only w'" "ws_only b" "delim (w' @ ''}'')" and "\<And>k v. (k, v) \<in> set kvs \<Longrightarrow> valid_utf8 k"
    and "\<And>k v x. (k, v) \<in> set kvs \<Longrightarrow> delim x \<Longrightarrow> parse_value n (p v @ x) = Some (v, x)"
  shows "parse_members n (w @ join (CHR '','' # w) (map (\<lambda>(k, v). print_string k @ CHR '':'' # b @ p v) kvs) @ w' @ CHR ''}'' # x)
    = Some (kvs, x)"
  using assms
proof (induction kvs rule: list_nonempty_induct)
  case (single kv)
  obtain k v where kv: "kv = (k, v)" by (cases kv)
  have "delim (w' @ CHR ''}'' # x)" using single.prems(4) by (cases w') auto
  then have "parse_value n (p v @ w' @ CHR ''}'' # x) = Some (v, w' @ CHR ''}'' # x)"
    using single.prems(6) [of k v] kv by simp
  then show ?case
    using single kv parse_member [of k w b n "p v @ w' @ CHR ''}'' # x" v w' "CHR ''}''" x] by simp
next
  case (cons kv kvs)
  obtain k v where kv: "kv = (k, v)" by (cases kv)
  let ?pr = "\<lambda>(k, v). print_string k @ CHR '':'' # b @ p v"
  let ?rest = "w @ join (CHR '','' # w) (map ?pr kvs) @ w' @ CHR ''}'' # x"
  have j: "join (CHR '','' # w) (map ?pr (kv # kvs))
      = print_string k @ CHR '':'' # b @ p v @ CHR '','' # w @ join (CHR '','' # w) (map ?pr kvs)"
    using cons.hyps kv by (cases kvs) auto
  have "parse_value n (p v @ CHR '','' # ?rest) = Some (v, CHR '','' # ?rest)"
    using kv by (intro cons.prems(6) [of k]) simp_all
  moreover have "parse_members n ?rest = Some (kvs, x)"
  proof (rule cons.IH)
    show "valid_utf8 k" if "(k, v) \<in> set kvs" for k v by (rule cons.prems(5) [of k v]) (simp add: that)
    show "parse_value n (p v @ x) = Some (v, x)" if "(k, v) \<in> set kvs" "delim x" for k v x
      by (rule cons.prems(6) [of k]) (simp_all add: that)
  qed (use cons.prems in simp_all)
  moreover have "valid_utf8 k" using cons.prems(5) [of k v] kv by simp
  ultimately show ?case unfolding j
    using kv cons.prems(1,3) parse_member [of k w b n "p v @ CHR '','' # ?rest" v "[]" "CHR '',''" ?rest] by simp
qed

lemma parse_items_printed:
  assumes "vs \<noteq> []" and "\<And>v x. v \<in> set vs \<Longrightarrow> delim x \<Longrightarrow> parse_value n (print_json v @ x) = Some (v, x)"
  shows "parse_items n (join '','' (map print_json vs) @ CHR '']'' # x) = Some (vs, x)"
  using parse_items_text [of vs "[]" "[]" n print_json x] assms by simp

lemma parse_members_printed:
  assumes "kvs \<noteq> []" and "\<And>k v. (k, v) \<in> set kvs \<Longrightarrow> valid_utf8 k"
    and "\<And>k v x. (k, v) \<in> set kvs \<Longrightarrow> delim x \<Longrightarrow> parse_value n (print_json v @ x) = Some (v, x)"
  shows "parse_members n (join '','' (map (\<lambda>(k, v). print_string k @ '':'' @ print_json v) kvs) @ CHR ''}'' # x)
    = Some (kvs, x)"
  using parse_members_text [of kvs "[]" "[]" "[]" n print_json x] assms by simp

lemma parse_value_printed:
  assumes "readable n v" and "delim x"
  shows "parse_value n (print_json v @ x) = Some (v, x)"
  using assms
proof (induction v arbitrary: n x)
  case (JBool b)
  then show ?case using parse_value_printed_plain by simp
next
  case (JArr vs)
  show ?case
  proof (cases "vs = []")
    case True
    with JArr.prems show ?thesis by (simp add: parse_value.simps)
  next
    case False
    then obtain v us where vs: "vs = v # us" by (cases vs) auto
    then obtain c t where "print_json v = c # t" "\<not> is_ws c" "c \<notin> set ''],}:''"
      using JArr.prems(1) by (auto elim: readable_head)
    then have "\<exists>t. join '','' (map print_json vs) = c # t \<and> \<not> is_ws c \<and> c \<noteq> CHR '']''" by (simp add: vs join_Cons)
    moreover have "parse_items (n - 1) (join '','' (map print_json vs) @ CHR '']'' # x) = Some (vs, x)"
      by (rule parse_items_printed [OF False]) (use JArr in auto)
    ultimately show ?thesis using JArr.prems(1) by (auto simp: parse_value.simps)
  qed
next
  case (JObj kvs)
  let ?pr = "\<lambda>(k, v). print_string k @ '':'' @ print_json v"
  show ?case
  proof (cases "kvs = []")
    case True
    with JObj.prems show ?thesis by (simp add: parse_value.simps)
  next
    case False
    then obtain k v us where "kvs = (k, v) # us" by (cases kvs) auto
    then have "\<exists>t. join '','' (map ?pr kvs) = CHR 0x22 # t" by (simp add: join_Cons print_string_def)
    moreover have "parse_members (n - 1) (join '','' (map ?pr kvs) @ CHR ''}'' # x) = Some (kvs, x)"
      by (rule parse_members_printed [OF False]) (use JObj in \<open>fastforce simp: snds.simps\<close>)+
    ultimately show ?thesis using JObj.prems(1) by (auto simp: parse_value.simps)
  qed
qed (auto simp: parse_value_string parse_value_number intro: parse_value_printed_plain [unfolded append.simps])

text \<open>
  What the encoder prints is read back: a value of valid UTF-8 strings and JSON number literals,
  nested at most 10000 deep, is what its printed text decodes to.
\<close>

theorem parse_printed:
  assumes "readable 10000 v"
  shows "parse_document (print_json v) = Some v"
  using parse_value_printed [OF assms, of "[]"] by (simp add: parse_document_def skip_ws_def)

theorem parse_printed_witness:
  "parse_document (print_json (JObj [(''amount'', JNum ''825''), (''order_id'', JStr ''<48>'')]))
     = Some (JObj [(''amount'', JNum ''825''), (''order_id'', JStr ''<48>'')])"
proof (rule parse_printed)
  show "readable 10000 (JObj [(''amount'', JNum ''825''), (''order_id'', JStr ''<48>'')])" by code_simp
qed

section \<open>Parsing always takes something\<close>

lemma parse_chars_shorter: "parse_chars s = Some (t, x) \<Longrightarrow> length x < length s"
proof (induction s arbitrary: t rule: parse_chars.induct)
  case (2 c r)
  let ?n = "rune_size (c # r)"
  from "2.prems" consider "x = r"
    | a n u where "c \<noteq> CHR 0x22" "c = CHR 0x5C" "parse_escape r = Some (a, n)" "parse_chars (drop n r) = Some (u, x)"
    | u where "c \<noteq> CHR 0x22" "c \<noteq> CHR 0x5C" "\<not> byte c < 32" "?n = 0" "parse_chars r = Some (u, x)"
    | u where "c \<noteq> CHR 0x22" "c \<noteq> CHR 0x5C" "\<not> byte c < 32" "?n \<noteq> 0" "parse_chars (drop ?n (c # r)) = Some (u, x)"
    unfolding parse_chars.simps(2) by (elim map_option_eq_Some [THEN iffD1, elim_format] | auto split: if_splits option.splits simp del: parse_chars.simps drop_Suc_Cons)+
  then show ?case
  proof cases
    case (2 a n u)
    then show ?thesis using "2.IH"(1) [of "(a, n)"] by fastforce
  next
    case (3 u)
    then show ?thesis using "2.IH"(2) by fastforce
  next
    case (4 u)
    then have "length x < length (drop ?n (c # r))" using "2.IH"(3) by blast
    then show ?thesis by (metis length_drop diff_le_self order_less_le_trans)
  qed simp
qed simp

lemma skip_ws_le: "length (skip_ws s) \<le> length s"
  by (simp add: skip_ws_def length_dropWhile_le)

lemma digits_length: "digits s = (a, r) \<Longrightarrow> length s = length a + length r"
  unfolding digits_def by (metis Pair_inject length_append takeWhile_dropWhile_id)

lemma parse_integer_shorter: "parse_integer s = Some (a, r) \<Longrightarrow> length r < length s"
  unfolding parse_integer_def
  by (cases "digits s") (auto dest: digits_length split: list.splits if_splits)

lemma parse_fraction_shorter: "parse_fraction s = Some (a, r) \<Longrightarrow> length r \<le> length s"
  unfolding parse_fraction_def
  by (cases "digits (drop 1 s)") (auto dest: digits_length split: list.splits if_splits)

lemma parse_exponent_shorter: "parse_exponent s = Some (a, r) \<Longrightarrow> length r \<le> length s"
  unfolding parse_exponent_def
  by (cases "digits (drop (length (sign_of (drop 1 s))) (drop 1 s))")
    (auto dest: digits_length split: list.splits if_splits)

lemma parse_number_shorter:
  assumes "parse_number s = Some (t, x)"
  shows "length x < length s"
proof -
  let ?s = "drop (length (if take 1 s = ''-'' then ''-'' else [])) s"
  obtain a r b u c where "parse_integer ?s = Some (a, r)" "parse_fraction r = Some (b, u)" "parse_exponent u = Some (c, x)"
    using assms unfolding parse_number_def Let_def by (auto split: option.splits)
  then have "length x < length ?s"
    using parse_integer_shorter parse_fraction_shorter parse_exponent_shorter by (meson order_le_less_trans)
  then show ?thesis by simp
qed

lemma parse_value_Some:
  assumes "parse_value n s = Some (v, x)" and "skip_ws s = c # r"
  obtains (text_value) t where "v = JStr t" "parse_chars r = Some (t, x)"
  | (word) k where "v = JNull \<or> (\<exists>b. v = JBool b)" "x = drop k r"
  | (closed) "0 < n" "v = JArr [] \<or> v = JObj []" "x = drop 1 (skip_ws r)"
  | (items) vs where "v = JArr vs" "c \<noteq> CHR 0x22" "c = CHR ''[''" "\<not> n \<le> 0" "take 1 (skip_ws r) \<noteq> '']''"
      "parse_items (n - 1) r = Some (vs, x)"
  | (members) kvs where "v = JObj kvs" "c \<noteq> CHR 0x22" "c \<noteq> CHR ''[''" "c = CHR ''{''" "\<not> n \<le> 0"
      "take 1 (skip_ws r) \<noteq> ''}''" "parse_members (n - 1) r = Some (kvs, x)"
  | (num) t where "v = JNum t" "parse_number (c # r) = Some (t, x)"
proof -
  note m = assms(1) [unfolded parse_value.simps [of n s] assms(2) list.case]
  consider "c = CHR 0x22" | "c = CHR ''[''" | "c = CHR ''{''" | "c \<notin> {CHR 0x22, CHR ''['', CHR ''{''}" by blast
  then show thesis
  proof cases
    case 1
    with m text_value show thesis by (cases "parse_chars r") auto
  next
    case 2
    with m have "n > 0" by (simp split: if_splits)
    with 2 m closed items show thesis by (cases "take 1 (skip_ws r) = '']''") auto
  next
    case 3
    with m have "n > 0" by (simp split: if_splits)
    with 3 m closed members show thesis by (cases "take 1 (skip_ws r) = ''}''") auto
  next
    case 4
    then have "(v = JNull \<or> (\<exists>b. v = JBool b)) \<and> (x = drop 3 r \<or> x = drop 4 r)
        \<or> (\<exists>t. v = JNum t \<and> parse_number (c # r) = Some (t, x))"
      using m by (simp del: Cons_prefix_Cons split: if_splits) auto
    with word num show thesis by blast
  qed
qed

lemma parse_items_Some:
  assumes "parse_items n s = Some (vs, x)"
  obtains v y c z where "parse_value n s = Some (v, y)" and "skip_ws y = c # z"
    and "vs = [v] \<and> x = z
      \<or> (\<exists>ws. vs = v # ws \<and> c = CHR '','' \<and> length z < length s \<and> parse_items n z = Some (ws, x))"
proof -
  note m = assms [unfolded parse_items.simps [of n s]]
  from m obtain v y where v: "parse_value n s = Some (v, y)" by (cases "parse_value n s") auto
  with m obtain c z where c: "skip_ws y = c # z" by (cases "skip_ws y") simp_all
  with m v show thesis by (intro that [of v y c z]) (auto split: if_splits)
qed

lemma parse_members_Some:
  assumes "parse_members n s = Some (kvs, x)"
  obtains r k y z v a d b where "skip_ws s = CHR 0x22 # r" and "parse_chars r = Some (k, y)"
    and "skip_ws y = CHR '':'' # z" and "length z < length s" and "parse_value n z = Some (v, a)"
    and "skip_ws a = d # b"
    and "kvs = [(k, v)] \<and> x = b
      \<or> (\<exists>ks. kvs = (k, v) # ks \<and> d = CHR '','' \<and> length b < length s \<and> parse_members n b = Some (ks, x))"
proof -
  note m = assms [unfolded parse_members.simps [of n s]]
  from m obtain q r where q: "skip_ws s = q # r" by (cases "skip_ws s") simp_all
  with m have q': "q = CHR 0x22" by (simp split: if_splits)
  with m q obtain k y where k: "parse_chars r = Some (k, y)" by (cases "parse_chars r") auto
  with m q q' obtain c z where c: "skip_ws y = c # z" by (cases "skip_ws y") simp_all
  with m q q' k have c': "c = CHR '':''" "length z < length s" by (simp_all split: if_splits)
  with m q q' k c obtain v a where v: "parse_value n z = Some (v, a)" by (cases "parse_value n z") auto
  with m q q' k c c' obtain d b where d: "skip_ws a = d # b" by (cases "skip_ws a") simp_all
  with m q q' k c c' v show thesis
    by (intro that [of r k y z v a d b]) (auto split: if_splits)
qed

lemma parse_shorter:
  "parse_value n s = Some (v, x) \<Longrightarrow> length x < length s"
  "parse_items n s = Some (vs, x) \<Longrightarrow> length x < length s"
  "parse_members n s = Some (kvs, x) \<Longrightarrow> length x < length s"
proof (induction n s and n s and n s arbitrary: v x and vs x and kvs x rule: parse_value_parse_items_parse_members.induct)
  case (1 n s)
  show ?case
  proof (cases "skip_ws s")
    case Nil
    with 1 show ?thesis by (simp add: parse_value.simps)
  next
    case (Cons c r)
    from "1.prems" Cons have "length x < length (c # r)"
    proof (cases rule: parse_value_Some)
      case (items vs)
      then show ?thesis using "1.IH"(1) [OF Cons] by fastforce
    next
      case (members kvs)
      then show ?thesis using "1.IH"(2) [OF Cons] by fastforce
    next
      case (num t)
      from num(2) show ?thesis by (rule parse_number_shorter)
    next
      case closed
      then show ?thesis using skip_ws_le [of r] by simp
    qed (auto dest: parse_chars_shorter)
    with Cons skip_ws_le [of s] show ?thesis by simp
  qed
next
  case (2 n s)
  from "2.prems" obtain v y c z where y: "parse_value n s = Some (v, y)" "skip_ws y = c # z"
    "x = z \<or> (\<exists>ws. c = CHR '','' \<and> length z < length s \<and> parse_items n z = Some (ws, x))"
    by (rule parse_items_Some) blast
  have z: "length z < length s" using "2.IH"(1) [OF y(1)] skip_ws_length [OF y(2)] by simp
  from y(3) show ?case
  proof (elim disjE exE conjE)
    fix ws assume "c = CHR '',''" "length z < length s" "parse_items n z = Some (ws, x)"
    then have "length x < length z" by (intro "2.IH"(2)) (use y in simp_all)
    with z show "length x < length s" by simp
  qed (use z in simp)
next
  case (3 n s)
  from "3.prems" obtain r k y z v a d b where 1: "skip_ws s = CHR 0x22 # r" "parse_chars r = Some (k, y)"
    "skip_ws y = CHR '':'' # z" "length z < length s" "parse_value n z = Some (v, a)" "skip_ws a = d # b"
    "x = b \<or> (\<exists>ks. d = CHR '','' \<and> length b < length s \<and> parse_members n b = Some (ks, x))"
    by (rule parse_members_Some) blast
  have "length a < length z" by (rule "3.IH"(1)) (use 1 in simp_all)
  then have b: "length b < length s" using skip_ws_length [OF 1(6)] 1(4) by simp
  from 1(7) show ?case
  proof (elim disjE exE conjE)
    fix ks assume "d = CHR '',''" "length b < length s" "parse_members n b = Some (ks, x)"
    then have "length x < length b" by (intro "3.IH"(2)) (use 1 in simp_all)
    with b show "length x < length s" by simp
  qed (use b in simp)
qed

end
