(* ===== verification/Json_Readable.thy ===== *)
theory Json_Readable
  imports Json_Parse
begin

text \<open>
  What the decoder returns is always text the encoder can print and the decoder can read again: its
  strings are valid UTF-8 (invalid bytes and lone surrogates become U+FFFD), its numbers are JSON
  number literals.  So an accepted document has a canonical spelling (\<open>parse_canonical\<close>).
\<close>

section \<open>Strings\<close>

lemma rune_ok_not_Nil: "rune_ok r \<Longrightarrow> r \<noteq> []"
  by (cases r) (auto simp: rune_ok_def)

lemma runes_rune_append: "rune_ok r \<Longrightarrow> runes (r @ x) = r # runes x"
proof -
  assume r: "rune_ok r"
  then obtain c cs where c: "r = c # cs" using rune_ok_not_Nil by (cases r) auto
  have "max 1 (rune_size (r @ x)) = length r" using rune_size_append [OF r, of x] c by simp
  then show ?thesis unfolding c append_Cons runes.simps(2) Let_def by simp
qed

lemma valid_utf8_append: "rune_ok r \<Longrightarrow> valid_utf8 x \<Longrightarrow> valid_utf8 (r @ x)"
  by (auto simp only: valid_utf8_def runes_rune_append list.set insert_iff)
    (auto simp: length_Suc_conv rune_ok_single)

lemma byte_char_of: "n < 256 \<Longrightarrow> byte (char_of n) = n"
  by (simp add: byte_def)

lemma rune_ok_replacement: "rune_ok replacement"
  by (simp add: rune_ok_def rune_size_def replacement_def byte_def second_ok_def cont_def)

lemma rune_ok_2:
  "194 \<le> a \<Longrightarrow> a \<le> (223 :: nat) \<Longrightarrow> cont b \<Longrightarrow> rune_ok [char_of a, char_of b]"
  by (auto simp: rune_ok_def rune_size_def byte_char_of second_ok_def cont_def)

lemma rune_ok_3:
  assumes "224 \<le> a" "a \<le> 239" "second_ok a b" "cont c" "b < 256"
  shows "rune_ok [char_of a, char_of b, char_of c]"
  using assms by (simp add: rune_ok_def rune_size_def byte_char_of cont_def)

lemma rune_ok_4:
  assumes "240 \<le> a" "a \<le> 244" "second_ok a b" "cont c" "cont d" "b < 256"
  shows "rune_ok [char_of a, char_of b, char_of c, char_of d]"
  using assms by (simp add: rune_ok_def rune_size_def byte_char_of cont_def)

lemma cont_mod [simp]: "cont (128 + n mod 64)"
proof -
  have "n mod 64 < 64" by simp
  then show ?thesis unfolding cont_def by linarith
qed

lemma rune_ok_encode: "rune_ok (utf8_encode n)"
proof -
  consider "n < 128" | "128 \<le> n" "n < 2048" | "2048 \<le> n" "n < 65536" "\<not> (55296 \<le> n \<and> n < 57344)"
    | "65536 \<le> n" "n < 1114112" | "55296 \<le> n \<and> n < 57344 \<or> 1114112 \<le> n"
    by linarith
  then show ?thesis
  proof cases
    case 1
    then show ?thesis by (simp add: utf8_encode_def rune_ok_single byte_char_of)
  next
    case 2
    have "192 + n div 64 \<le> 223" "194 \<le> 192 + n div 64" using 2 by linarith+
    with 2 show ?thesis by (simp add: utf8_encode_def rune_ok_2)
  next
    case 3
    have a: "224 \<le> 224 + n div 4096" "224 + n div 4096 \<le> 239" using 3 by linarith+
    have "second_ok (224 + n div 4096) (128 + n div 64 mod 64)"
    proof -
      have m: "n div 64 mod 64 < 64" "n div 4096 = n div 64 div 64" by (simp_all add: div_mult2_eq [symmetric])
      have e: "n div 64 = 64 * (n div 4096) + n div 64 mod 64" unfolding m(2) by simp
      have "n div 4096 = 0 \<Longrightarrow> 32 \<le> n div 64 mod 64" using e 3 by linarith
      moreover have "n div 4096 = 13 \<Longrightarrow> n div 64 mod 64 \<le> 31" using e 3 by linarith
      moreover have "n div 4096 \<noteq> 16" "n div 4096 \<noteq> 20" using 3 by linarith+
      ultimately show ?thesis using m(1) by (auto simp: second_ok_def cont_def)
    qed
    moreover have "128 + n div 64 mod 64 < 256" using mod_less_divisor [of 64 "n div 64"] by linarith
    ultimately show ?thesis using 3 a rune_ok_replacement by (simp add: utf8_encode_def rune_ok_3)
  next
    case 4
    have a: "240 \<le> 240 + n div 262144" "240 + n div 262144 \<le> 244" using 4 by linarith+
    have "second_ok (240 + n div 262144) (128 + n div 4096 mod 64)"
    proof -
      have m: "n div 4096 mod 64 < 64" "n div 262144 = n div 4096 div 64" by (simp_all add: div_mult2_eq [symmetric])
      have e: "n div 4096 = 64 * (n div 262144) + n div 4096 mod 64" unfolding m(2) by simp
      have "n div 262144 = 0 \<Longrightarrow> 16 \<le> n div 4096 mod 64" using e 4 by linarith
      moreover have "n div 262144 = 4 \<Longrightarrow> n div 4096 mod 64 \<le> 15" using e 4 by linarith
      ultimately show ?thesis using m(1) by (auto simp: second_ok_def cont_def)
    qed
    moreover have "128 + n div 4096 mod 64 < 256" using mod_less_divisor [of 64 "n div 4096"] by linarith
    ultimately show ?thesis using 4 a by (simp add: utf8_encode_def rune_ok_4)
  next
    case 5
    then show ?thesis using rune_ok_replacement by (auto simp: utf8_encode_def)
  qed
qed

lemma rune_ok_escape:
  assumes "parse_escape s = Some (t, n)"
  shows "rune_ok t"
proof (cases s)
  case (Cons e r)
  show ?thesis
  proof (cases "e = CHR ''u''")
    case True
    with assms Cons show ?thesis
      by (auto simp: parse_escape_def rune_ok_encode rune_ok_replacement split: option.splits if_splits)
  next
    case False
    with assms Cons obtain c where "short_escape e = Some c" "t = [c]" by (auto simp: parse_escape_def)
    then show ?thesis by (auto simp: short_escape_def rune_ok_single byte_def split: if_splits)
  qed
qed (use assms in \<open>simp add: parse_escape_def\<close>)

lemma parse_chars_utf8: "parse_chars s = Some (t, x) \<Longrightarrow> valid_utf8 t"
proof (induction s arbitrary: t rule: parse_chars.induct)
  case (2 c r)
  consider "c = CHR 0x22" | "c = CHR 0x5C" | "c \<noteq> CHR 0x22" "c \<noteq> CHR 0x5C" "\<not> byte c < 32" "rune_size (c # r) = 0"
    | "c \<noteq> CHR 0x22" "c \<noteq> CHR 0x5C" "\<not> byte c < 32" "rune_size (c # r) \<noteq> 0"
    using "2.prems" by (cases "byte c < 32"; cases "c = CHR 0x22"; cases "c = CHR 0x5C"; cases "rune_size (c # r) = 0") simp_all
  then show ?case
  proof cases
    case 1
    with "2.prems" show ?thesis by (simp add: valid_utf8_def)
  next
    case 2
    with "2.prems" obtain u n w where e: "parse_escape r = Some (u, n)" "parse_chars (drop n r) = Some (w, x)" "t = u @ w"
      by (auto split: option.splits)
    have "valid_utf8 w" using "2.IH"(1) [OF _ 2 e(1)] e(2) 2 by simp
    then show ?thesis using e(3) rune_ok_escape [OF e(1)] by (simp add: valid_utf8_append)
  next
    case 3
    with "2.prems" obtain w where "parse_chars r = Some (w, x)" "t = replacement @ w" by auto
    then show ?thesis using "2.IH"(2) 3 by (simp add: valid_utf8_append rune_ok_replacement)
  next
    case 4
    with "2.prems" obtain w where "parse_chars (drop (rune_size (c # r)) (c # r)) = Some (w, x)"
      "t = take (rune_size (c # r)) (c # r) @ w" by auto
    then show ?thesis using "2.IH"(3) 4 rune_ok_take [of "c # r"] by (simp add: valid_utf8_append)
  qed
qed simp

section \<open>Numbers\<close>

lemma digits_again: "digits s = (a, r) \<Longrightarrow> digits a = (a, [])"
  by (auto simp: digits_def takeWhile_eq_all_conv dropWhile_eq_Nil_conv dest: set_takeWhileD)

lemma parse_integer_again: "parse_integer s = Some (a, r) \<Longrightarrow> parse_integer a = Some (a, [])"
proof -
  assume p: "parse_integer s = Some (a, r)"
  obtain ds u where d: "digits s = (ds, u)" by fastforce
  with p obtain e es where ds: "ds = e # es" by (cases ds) (auto simp: parse_integer_def)
  have "e \<in> set (takeWhile is_digit s)" using d ds by (auto simp: digits_def)
  then have "is_digit e" by (rule set_takeWhileD [THEN conjunct2])
  then have "digits [e] = ([e], [])" by (simp add: digits_def)
  with p d ds digits_again [OF d] show ?thesis by (auto simp: parse_integer_def split: if_splits)
qed

lemma parse_fraction_again:
  assumes "parse_fraction s = Some (a, r)"
  shows "parse_fraction a = Some (a, [])" and "take 1 a = ''.'' \<or> a = []"
proof -
  obtain ds u where d: "digits (drop 1 s) = (ds, u)" by fastforce
  show "parse_fraction a = Some (a, [])" "take 1 a = ''.'' \<or> a = []"
    using assms d digits_again [OF d] by (auto simp: parse_fraction_def split: list.splits if_splits)
qed

lemma parse_exponent_again:
  assumes "parse_exponent s = Some (a, r)"
  shows "parse_exponent a = Some (a, [])" and "take 1 a \<in> {''e'', ''E'', []}"
proof -
  let ?sg = "sign_of (drop 1 s)"
  obtain ds u where d: "digits (drop (length ?sg) (drop 1 s)) = (ds, u)" by fastforce
  have dd: "\<forall>c \<in> set ds. is_digit c" using d by (auto simp: digits_def dest: set_takeWhileD)
  have nd: "\<not> is_digit (CHR ''+'')" "\<not> is_digit (CHR ''-'')" by (simp_all add: is_digit_def byte_def)
  have sg: "sign_of (?sg @ ds) = ?sg" if "ds \<noteq> []"
    using that dd nd by (cases ds) (auto simp: sign_of_def take_Suc split: list.splits)
  show "parse_exponent a = Some (a, [])" "take 1 a \<in> {''e'', ''E'', []}"
    using assms d digits_again [OF d] sg by (auto simp: parse_exponent_def split: list.splits if_splits)
qed

text \<open>A part of a number is not changed by what follows it, when that cannot continue it.\<close>

definition no_digit :: "string \<Rightarrow> bool" where
  "no_digit x \<longleftrightarrow> x = [] \<or> \<not> is_digit (hd x)"

lemma digits_append_no_digit: "no_digit x \<Longrightarrow> digits (s @ x) = (fst (digits s), snd (digits s) @ x)"
proof -
  assume "no_digit x"
  then have "takeWhile is_digit x = []" "dropWhile is_digit x = x" by (cases x; simp add: no_digit_def)+
  then show ?thesis unfolding digits_def by (induction s) auto
qed

lemma parse_integer_then: "parse_integer a = Some (a, []) \<Longrightarrow> no_digit x \<Longrightarrow> parse_integer (a @ x) = Some (a, x)"
  unfolding parse_integer_def digits_append_no_digit
  by (cases "digits a") (auto split: list.splits if_splits)

lemma parse_fraction_then:
  assumes "parse_fraction b = Some (b, [])" and "take 1 b = ''.'' \<or> b = []" and "take 1 c \<in> {''e'', ''E'', []}"
  shows "parse_fraction (b @ c) = Some (b, c)"
proof -
  have c: "take 1 c \<noteq> ''.''" "no_digit c"
    using assms(3) by (cases c; auto simp: no_digit_def is_digit_def byte_def)+
  show ?thesis
  proof (cases b)
    case Nil
    with c show ?thesis by (simp add: parse_fraction_def)
  next
    case (Cons d ds)
    with assms(2) have d: "d = CHR ''.''" by simp
    obtain u v where uv: "digits ds = (u, v)" by fastforce
    with assms(1) Cons d have "u \<noteq> []" "u = ds" "v = []" by (auto simp: parse_fraction_def split: list.splits)
    with uv Cons d show ?thesis
      using digits_append_no_digit [OF c(2), of ds] by (auto simp: parse_fraction_def split: list.splits)
  qed
qed

lemma parse_number_again:
  assumes "parse_number s = Some (t, x)"
  shows "json_number t"
proof -
  let ?sg = "if take 1 s = ''-'' then ''-'' else []"
  obtain a r b u c where 1: "parse_integer (drop (length ?sg) s) = Some (a, r)" "parse_fraction r = Some (b, u)"
      "parse_exponent u = Some (c, x)" "t = ?sg @ a @ b @ c"
    using assms unfolding parse_number_def Let_def by (auto split: option.splits)
  note a = parse_integer_again [OF 1(1)] and b = parse_fraction_again [OF 1(2)] and c = parse_exponent_again [OF 1(3)]
  obtain e es where e: "a = e # es" using a by (cases a) (auto simp: parse_integer_def digits_def)
  then have "is_digit e" using a by (auto simp: parse_integer_def digits_def split: if_splits)
  then have dash: "take 1 (a @ z) \<noteq> ''-''" for z using e by (auto simp: is_digit_def byte_def)
  have "no_digit (b @ c)"
    using b(2) c(2) by (cases b; cases c) (auto simp: no_digit_def is_digit_def byte_def)
  then have i: "parse_integer (a @ b @ c) = Some (a, b @ c)" using a by (rule parse_integer_then [rotated])
  have sg: "(if take 1 t = ''-'' then ''-'' else []) = ?sg" "drop (length ?sg) t = a @ b @ c"
    using 1(4) dash [of "b @ c"] by auto
  show ?thesis
    unfolding json_number_def parse_number_def Let_def sg i
    using parse_fraction_then [OF b c(2)] c(1) 1(4) by simp
qed

section \<open>Values\<close>

lemma parsed_readable:
  "parse_value n s = Some (v, x) \<Longrightarrow> readable n v"
  "parse_items n s = Some (vs, x) \<Longrightarrow> \<forall>v \<in> set vs. readable n v"
  "parse_members n s = Some (kvs, x) \<Longrightarrow> \<forall>(k, v) \<in> set kvs. valid_utf8 k \<and> readable n v"
proof (induction n s and n s and n s arbitrary: v x and vs x and kvs x rule: parse_value_parse_items_parse_members.induct)
  case (1 n s)
  show ?case
  proof (cases "skip_ws s")
    case Nil
    with 1 show ?thesis by (simp add: parse_value.simps)
  next
    case (Cons c r)
    from "1.prems" Cons show ?thesis
    proof (cases rule: parse_value_Some)
      case (items vs)
      then show ?thesis using "1.IH"(1) [OF Cons items(2-5)] by simp
    next
      case (members kvs)
      then show ?thesis using "1.IH"(2) [OF Cons members(2-6)] by simp
    next
      case (text_value t)
      then show ?thesis using parse_chars_utf8 by simp
    next
      case (num t)
      then show ?thesis using parse_number_again by simp
    qed auto
  qed
next
  case (2 n s)
  from "2.prems" obtain v y c z where y: "parse_value n s = Some (v, y)" "skip_ws y = c # z"
    "vs = [v] \<and> x = z \<or> (\<exists>ws. vs = v # ws \<and> c = CHR '','' \<and> length z < length s \<and> parse_items n z = Some (ws, x))"
    by (rule parse_items_Some)
  have v: "readable n v" by (rule "2.IH"(1)) (rule y(1))
  from y(3) show ?case
  proof (elim disjE exE conjE)
    fix ws assume w: "vs = v # ws" "c = CHR '',''" "length z < length s" "parse_items n z = Some (ws, x)"
    then have "\<forall>v \<in> set ws. readable n v" by (intro "2.IH"(2)) (use y w in simp_all)
    with v w(1) show ?thesis by simp
  qed (use v in simp)
next
  case (3 n s)
  from "3.prems" obtain r k y z v a d b where 1: "skip_ws s = CHR 0x22 # r" "parse_chars r = Some (k, y)"
    "skip_ws y = CHR '':'' # z" "length z < length s" "parse_value n z = Some (v, a)" "skip_ws a = d # b"
    "kvs = [(k, v)] \<and> x = b
      \<or> (\<exists>ks. kvs = (k, v) # ks \<and> d = CHR '','' \<and> length b < length s \<and> parse_members n b = Some (ks, x))"
    by (rule parse_members_Some)
  have v: "valid_utf8 k \<and> readable n v" using parse_chars_utf8 [OF 1(2)] "3.IH"(1) 1 by simp
  from 1(7) show ?case
  proof (elim disjE exE conjE)
    fix ks assume w: "kvs = (k, v) # ks" "d = CHR '',''" "length b < length s" "parse_members n b = Some (ks, x)"
    then have "\<forall>(k, v) \<in> set ks. valid_utf8 k \<and> readable n v" by (intro "3.IH"(2)) (use 1 w in simp_all)
    with v w(1) show ?thesis by simp
  qed (use v in simp)
qed

lemma document_readable: "parse_document raw = Some v \<Longrightarrow> readable 10000 v"
  using parsed_readable(1) by (auto simp: parse_document_def split: option.splits if_splits)

lemma document_printed: "readable 10000 v \<Longrightarrow> parse_document (print_json v) = Some v"
  using parse_value_printed [of 10000 v "[]"] by (simp add: parse_document_def skip_ws_def)

lemma document_reprinted: "parse_document raw = Some v \<Longrightarrow> parse_document (print_json v) = Some v"
  using parse_value_printed [OF document_readable, of raw v "[]"] by (simp add: parse_document_def skip_ws_def)

text \<open>An object ends with its brace, whatever follows: the encoder of a response adds a line feed.\<close>

lemma parse_object_printed:
  assumes "readable n (JObj kvs)"
  shows "parse_value n (print_json (JObj kvs) @ x) = Some (JObj kvs, x)"
proof (cases "kvs = []")
  case True
  with assms show ?thesis by (simp add: parse_value.simps)
next
  case False
  let ?pr = "\<lambda>(k, v). print_string k @ '':'' @ print_json v"
  obtain k v us where "kvs = (k, v) # us" using False by (cases kvs) auto
  then have "\<exists>t. join '','' (map ?pr kvs) = CHR 0x22 # t" by (simp add: join_Cons print_string_def)
  moreover have "parse_members (n - 1) (join '','' (map ?pr kvs) @ CHR ''}'' # x) = Some (kvs, x)"
    by (rule parse_members_printed [OF False]) (use assms in \<open>auto intro: parse_value_printed\<close>)
  ultimately show ?thesis using assms by (auto simp: parse_value.simps)
qed

lemma line_printed:
  "readable 10000 (JObj kvs) \<Longrightarrow> parse_document (print_json (JObj kvs) @ [CHR 0x0A]) = Some (JObj kvs)"
  using parse_object_printed [of 10000 kvs "[CHR 0x0A]"] by (simp add: parse_document_def skip_ws_def is_ws_def)

end
