(* ===== verification/Strict_Json.thy ===== *)
theory Strict_Json
  imports Json_Readable
begin

text \<open>
  The checks for ambiguous JSON before a typed decoding: \<open>strictjson.Decode\<close> (the gateway),
  \<open>uniqueJSON\<close> (the control API) and \<open>checkJSONValue\<close> (the command line).  Each walks the tokens of
  \<open>json.Decoder\<close> and rejects an object with two keys that are equal in lower case; the first also
  rejects nesting deeper than 64.  The walk is proved equivalent to a test on the decoded value.
\<close>

section \<open>Tokens\<close>

datatype token = Delim char | Scalar json

fun key_or_value :: "token \<Rightarrow> string option" where
  "key_or_value (Scalar (JStr s)) = Some s"
| "key_or_value t = None"

text \<open>The tokens of a value, as \<open>Decoder.Token\<close> returns them.\<close>

fun tokens :: "json \<Rightarrow> token list" where
  "tokens (JArr vs) = Delim (CHR ''['') # concat (map tokens vs) @ [Delim (CHR '']'')]"
| "tokens (JObj kvs) =
     Delim (CHR ''{'') # concat (map (\<lambda>(k, v). Scalar (JStr k) # tokens v) kvs) @ [Delim (CHR ''}'')]"
| "tokens v = [Scalar v]"

text \<open>\<open>Decoder.More\<close>: the next token does not close the container.\<close>

fun has_more :: "token list \<Rightarrow> bool" where
  "has_more [] = False"
| "has_more (Delim c # ts) = (c \<noteq> CHR '']'' \<and> c \<noteq> CHR ''}'')"
| "has_more (Scalar v # ts) = True"

section \<open>The walk\<close>

text \<open>
  What distinguishes the three walks: the depth limit, how a key is normalized, the error for a
  repeated key.  An early end of the tokens is the decoder's \<open>io.EOF\<close>.
\<close>

record walker =
  wk_limit :: "int option"
  wk_fold :: "string \<Rightarrow> string"
  wk_duplicate :: "string \<Rightarrow> string"

definition eof :: string where "eof = ''EOF''"

text \<open>
  \<open>walk\<close> is the recursive closure on one value, \<open>walk_rest\<close> its loop over the members of a container
  that opened with \<open>open\<close> and has seen the keys \<open>seen\<close>; both return the tokens that remain.  The
  test of the lengths is always met (\<open>walk_shorter\<close>).
\<close>

function (sequential)
  walk :: "walker \<Rightarrow> int \<Rightarrow> token list \<Rightarrow> string + token list" and
  walk_rest :: "walker \<Rightarrow> int \<Rightarrow> char \<Rightarrow> string list \<Rightarrow> token list \<Rightarrow> string + token list"
where
  "walk w depth ts =
     (if (case wk_limit w of None \<Rightarrow> False | Some n \<Rightarrow> depth > n) then Inl ''JSON nesting exceeds 64 levels''
      else (case ts of
          [] \<Rightarrow> Inl eof
        | Scalar v # rest \<Rightarrow> Inr rest
        | Delim c # rest \<Rightarrow> walk_rest w depth c [] rest))"
| "walk_rest w depth c seen ts =
     (if \<not> has_more ts then (case ts of [] \<Rightarrow> Inl eof | t # rest \<Rightarrow> Inr rest)
      else if c = CHR ''{'' then
        (case ts of
           t # rest \<Rightarrow>
             (case key_or_value t of
                None \<Rightarrow> Inl ''invalid object key''
              | Some k \<Rightarrow>
                  if wk_fold w k \<in> set seen then Inl (wk_duplicate w k)
                  else (case walk w (depth + 1) rest of
                      Inl e \<Rightarrow> Inl e
                    | Inr us \<Rightarrow>
                        if length us < length ts then walk_rest w depth c (wk_fold w k # seen) us else Inl eof))
         | [] \<Rightarrow> Inl eof)
      else
        (case walk w (depth + 1) ts of
           Inl e \<Rightarrow> Inl e
         | Inr us \<Rightarrow> if length us < length ts then walk_rest w depth c seen us else Inl eof))"
  by pat_completeness auto
termination
  by (relation "measure (\<lambda>x. case x of Inl (w, d, ts) \<Rightarrow> 2 * length ts | Inr (w, d, c, seen, ts) \<Rightarrow> 2 * length ts + 1)") auto

declare walk.simps [simp del] walk_rest.simps [simp del]

definition strict_walker :: "(string \<Rightarrow> string) \<Rightarrow> walker" where
  "strict_walker lower =
     \<lparr>wk_limit = Some 64, wk_fold = to_lower lower, wk_duplicate = (\<lambda>k. ''duplicate JSON key'')\<rparr>"

definition server_walker :: "(string \<Rightarrow> string) \<Rightarrow> walker" where
  "server_walker lower =
     \<lparr>wk_limit = None, wk_fold = to_lower lower, wk_duplicate = (\<lambda>k. ''duplicate key '' @ quote (to_lower lower k))\<rparr>"

definition cli_walker :: "(string \<Rightarrow> string) \<Rightarrow> walker" where
  "cli_walker lower =
     \<lparr>wk_limit = None, wk_fold = to_lower lower, wk_duplicate = (\<lambda>k. ''duplicate JSON key '' @ quote k)\<rparr>"

section \<open>The walk tests a property of the value\<close>

text \<open>No object has two keys with one normal form, and nothing is nested deeper than the limit.\<close>

fun unambiguous :: "walker \<Rightarrow> int \<Rightarrow> json \<Rightarrow> bool" where
  "unambiguous w depth (JArr vs) \<longleftrightarrow>
     (case wk_limit w of None \<Rightarrow> True | Some n \<Rightarrow> depth \<le> n) \<and> (\<forall>v \<in> set vs. unambiguous w (depth + 1) v)"
| "unambiguous w depth (JObj kvs) \<longleftrightarrow>
     (case wk_limit w of None \<Rightarrow> True | Some n \<Rightarrow> depth \<le> n)
     \<and> distinct (map (wk_fold w \<circ> fst) kvs) \<and> (\<forall>(k, v) \<in> set kvs. unambiguous w (depth + 1) v)"
| "unambiguous w depth v \<longleftrightarrow> (case wk_limit w of None \<Rightarrow> True | Some n \<Rightarrow> depth \<le> n)"

lemma has_more_tokens [simp]: "has_more (tokens v @ ts)"
  by (cases v) auto

lemma tokens_nonempty [simp]: "tokens v \<noteq> []"
  by (cases v) auto

lemma walk_items:
  assumes "\<And>v ts. v \<in> set vs \<Longrightarrow> (unambiguous w (depth + 1) v \<longrightarrow> walk w (depth + 1) (tokens v @ ts) = Inr ts)
      \<and> (\<not> unambiguous w (depth + 1) v \<longrightarrow> (\<exists>e. walk w (depth + 1) (tokens v @ ts) = Inl e))"
  shows "((\<forall>v \<in> set vs. unambiguous w (depth + 1) v) \<longrightarrow>
        walk_rest w depth (CHR ''['') [] (concat (map tokens vs) @ Delim (CHR '']'') # ts) = Inr ts)
    \<and> (\<not> (\<forall>v \<in> set vs. unambiguous w (depth + 1) v) \<longrightarrow>
        (\<exists>e. walk_rest w depth (CHR ''['') [] (concat (map tokens vs) @ Delim (CHR '']'') # ts) = Inl e))"
  using assms
proof (induction vs)
  case Nil
  show ?case by (simp add: walk_rest.simps)
next
  case (Cons v vs)
  let ?rest = "concat (map tokens vs) @ Delim (CHR '']'') # ts"
  have v: "unambiguous w (depth + 1) v \<Longrightarrow> walk w (depth + 1) (tokens v @ ?rest) = Inr ?rest"
    "\<not> unambiguous w (depth + 1) v \<Longrightarrow> \<exists>e. walk w (depth + 1) (tokens v @ ?rest) = Inl e"
    using Cons.prems [of v ?rest] by simp_all
  have ih: "((\<forall>v \<in> set vs. unambiguous w (depth + 1) v) \<longrightarrow> walk_rest w depth (CHR ''['') [] ?rest = Inr ts)
    \<and> (\<not> (\<forall>v \<in> set vs. unambiguous w (depth + 1) v) \<longrightarrow> (\<exists>e. walk_rest w depth (CHR ''['') [] ?rest = Inl e))"
    by (rule Cons.IH) (rule Cons.prems, simp)
  show ?case
    using ih v by (cases "unambiguous w (depth + 1) v")
      (auto simp: walk_rest.simps [of w depth "CHR ''[''" "[]" "tokens v @ ?rest"])
qed

lemma walk_members:
  assumes "\<And>k v ts. (k, v) \<in> set kvs \<Longrightarrow> (unambiguous w (depth + 1) v \<longrightarrow> walk w (depth + 1) (tokens v @ ts) = Inr ts)
      \<and> (\<not> unambiguous w (depth + 1) v \<longrightarrow> (\<exists>e. walk w (depth + 1) (tokens v @ ts) = Inl e))"
    and "ok \<longleftrightarrow> distinct (map (wk_fold w \<circ> fst) kvs) \<and> (wk_fold w \<circ> fst) ` set kvs \<inter> set seen = {}
        \<and> (\<forall>(k, v) \<in> set kvs. unambiguous w (depth + 1) v)"
    and "ts' = concat (map (\<lambda>(k, v). Scalar (JStr k) # tokens v) kvs) @ Delim (CHR ''}'') # ts"
  shows "(ok \<longrightarrow> walk_rest w depth (CHR ''{'') seen ts' = Inr ts)
    \<and> (\<not> ok \<longrightarrow> (\<exists>e. walk_rest w depth (CHR ''{'') seen ts' = Inl e))"
  using assms
proof (induction kvs arbitrary: seen ok ts')
  case Nil
  then show ?case by (simp add: walk_rest.simps)
next
  case (Cons p kvs)
  obtain k v where p: "p = (k, v)" by (cases p)
  let ?rest = "concat (map (\<lambda>(k, v). Scalar (JStr k) # tokens v) kvs) @ Delim (CHR ''}'') # ts"
  have v: "unambiguous w (depth + 1) v \<Longrightarrow> walk w (depth + 1) (tokens v @ ?rest) = Inr ?rest"
    "\<not> unambiguous w (depth + 1) v \<Longrightarrow> \<exists>e. walk w (depth + 1) (tokens v @ ?rest) = Inl e"
    using Cons.prems(1) [of k v ?rest] p by simp_all
  define rest_ok where "rest_ok \<longleftrightarrow> distinct (map (wk_fold w \<circ> fst) kvs)
      \<and> (wk_fold w \<circ> fst) ` set kvs \<inter> set (wk_fold w k # seen) = {}
      \<and> (\<forall>(k, v) \<in> set kvs. unambiguous w (depth + 1) v)"
  have ih: "(rest_ok \<longrightarrow> walk_rest w depth (CHR ''{'') (wk_fold w k # seen) ?rest = Inr ts)
    \<and> (\<not> rest_ok \<longrightarrow> (\<exists>e. walk_rest w depth (CHR ''{'') (wk_fold w k # seen) ?rest = Inl e))"
    using Cons.prems(1) by (intro Cons.IH [OF _ rest_ok_def refl]) auto
  have ok: "ok \<longleftrightarrow> wk_fold w k \<notin> set seen \<and> unambiguous w (depth + 1) v \<and> rest_ok"
    unfolding Cons.prems(2) rest_ok_def using p by auto
  have ts: "ts' = Scalar (JStr k) # tokens v @ ?rest" using Cons.prems(3) p by simp
  show ?case
    unfolding ts ok using ih v
    by (cases "unambiguous w (depth + 1) v")
      (auto simp: walk_rest.simps [of w depth "CHR ''{''" seen "Scalar (JStr k) # tokens v @ ?rest"])
qed

lemma walk_tokens:
  "(unambiguous w depth v \<longrightarrow> walk w depth (tokens v @ ts) = Inr ts)
   \<and> (\<not> unambiguous w depth v \<longrightarrow> (\<exists>e. walk w depth (tokens v @ ts) = Inl e))"
proof (induction v arbitrary: depth ts)
  case (JArr vs)
  show ?case
    using walk_items [of vs w depth ts] JArr.IH
    by (cases "case wk_limit w of None \<Rightarrow> False | Some n \<Rightarrow> depth > n")
      (auto simp: walk.simps split: option.splits)
next
  case (JObj kvs)
  show ?case
    using walk_members [of kvs w depth _ "[]" _ ts, OF _ refl refl] JObj.IH
    by (cases "case wk_limit w of None \<Rightarrow> False | Some n \<Rightarrow> depth > n")
      (auto simp: walk.simps split: option.splits)
qed (auto simp: walk.simps split: option.splits)

lemma walk_Inr: "walk w depth (tokens v) = Inr us \<longleftrightarrow> unambiguous w depth v \<and> us = []"
  using walk_tokens [of w depth v "[]"] by auto

text \<open>The recursion ends because a walk takes at least one token.\<close>

lemma walk_shorter:
  "walk w depth ts = Inr us \<Longrightarrow> length us < length ts"
  "walk_rest w depth c seen ts = Inr us \<Longrightarrow> length us < length ts"
proof (induction w depth ts and w depth c seen ts arbitrary: us and us rule: walk_walk_rest.induct)
  case (1 w depth ts)
  then show ?case by (fastforce simp: walk.simps split: if_splits list.splits token.splits)
next
  case (2 w depth c seen ts)
  note m = "2.prems" [unfolded walk_rest.simps [of w depth c seen ts]]
  consider "\<not> has_more ts" | "has_more ts" "c = CHR ''{''" | "has_more ts" "c \<noteq> CHR ''{''" by blast
  then show ?case
  proof cases
    case 1
    with m show ?thesis by (auto split: list.splits)
  next
    case 2
    then obtain t rest where t: "ts = t # rest" by (cases ts) auto
    with m 2 obtain k where k: "key_or_value t = Some k" by (cases "key_or_value t") auto
    with m t 2 have "wk_fold w k \<notin> set seen" by (auto split: if_splits)
    with m t 2 k obtain vs where vs: "walk w (depth + 1) rest = Inr vs" by (cases "walk w (depth + 1) rest") auto
    with m t 2 k \<open>wk_fold w k \<notin> set seen\<close> have r: "length vs < length ts" "walk_rest w depth c (wk_fold w k # seen) vs = Inr us"
      by (auto split: if_splits)
    have "length us < length vs"
      by (rule "2.IH"(2)) (use 2 t k vs r \<open>wk_fold w k \<notin> set seen\<close> in simp_all)
    with r show ?thesis by simp
  next
    case 3
    with m obtain vs where vs: "walk w (depth + 1) ts = Inr vs" by (cases "walk w (depth + 1) ts") auto
    with m 3 have r: "length vs < length ts" "walk_rest w depth c seen vs = Inr us" by (auto split: if_splits)
    have "length us < length vs" by (rule "2.IH"(4)) (use 3 vs r in simp_all)
    with r show ?thesis by simp
  qed
qed

section \<open>Documents\<close>

text \<open>
  The walk over a document's tokens, then the test that nothing follows, then the value.  A text that
  is not JSON fails in the walk or in the decoding after it; its error is not told apart here.
\<close>

definition checked_value :: "walker \<Rightarrow> string \<Rightarrow> string \<Rightarrow> string + json" where
  "checked_value w trailing raw =
     (case parse_value 10000 raw of
        None \<Rightarrow> Inl ''invalid JSON text''
      | Some (v, rest) \<Rightarrow>
          (case walk w 0 (tokens v) of
             Inl e \<Rightarrow> Inl e
           | Inr ts \<Rightarrow> if skip_ws rest \<noteq> [] then Inl trailing else Inr v))"

definition strict_decode :: "(string \<Rightarrow> string) \<Rightarrow> string \<Rightarrow> string + json" where
  "strict_decode lower = checked_value (strict_walker lower) ''expected one JSON document''"

definition unique_json :: "(string \<Rightarrow> string) \<Rightarrow> string \<Rightarrow> string + json" where
  "unique_json lower = checked_value (server_walker lower) ''expected one document''"

definition check_json_value :: "(string \<Rightarrow> string) \<Rightarrow> string \<Rightarrow> string + json" where
  "check_json_value lower = checked_value (cli_walker lower) ''expected exactly one JSON document''"

lemma checked_value_Inr:
  "checked_value w trailing raw = Inr v \<longleftrightarrow> parse_document raw = Some v \<and> unambiguous w 0 v"
  by (auto simp: checked_value_def parse_document_def walk_Inr split: option.splits prod.splits sum.splits if_splits)
    (metis walk_Inr sum.distinct(1) sum.exhaust)+

text \<open>
  C28: the strict decoder of the gateway accepts a text exactly when it is one JSON document, no object
  in it has two keys that agree in lower case, and nothing is nested deeper than 64; the token walk
  loses nothing against that test of the decoded value.
\<close>

theorem strict_decode_exact:
  "strict_decode lower raw = Inr v \<longleftrightarrow>
     parse_document raw = Some v \<and> unambiguous (strict_walker lower) 0 v"
  unfolding strict_decode_def by (rule checked_value_Inr)

text \<open>
  What the strict decoder accepts can be passed on: the value prints as a text that it accepts again,
  with the same value, so the spelling of numbers and the text of strings survive the next hop.
\<close>

theorem strict_decode_again:
  assumes "strict_decode lower raw = Inr v"
  shows "strict_decode lower (print_json v) = Inr v"
  using assms document_reprinted unfolding strict_decode_def checked_value_Inr by blast

theorem strict_decode_again_witness:
  "strict_decode (\<lambda>r. r) (print_json (JObj [(''amount'', JNum ''8.250'')])) = Inr (JObj [(''amount'', JNum ''8.250'')])"
proof (rule strict_decode_again)
  show "strict_decode (\<lambda>r. r) (CHR 0x20 # print_json (JObj [(''amount'', JNum ''8.250'')])) = Inr (JObj [(''amount'', JNum ''8.250'')])"
    by code_simp
qed

end
