(* ===== verification/Decode.thy ===== *)
theory Decode
  imports Strict_Json Samples
begin

text \<open>
  The typed decoding of \<open>encoding/json\<close> into the envelope: a member goes to the field with its exact
  name, or else to the field with the same folded name; \<open>null\<close> leaves a scalar or a struct as it is
  and clears a slice or a map; a member that comes later decodes over the result of an earlier one.
  \<open>cd_time\<close> stands for \<open>time.Time.UnmarshalJSON\<close> on a JSON string, with \<open>time_laws\<close> what is used of
  it; \<open>cd_lower\<close> is \<open>unicode.ToLower\<close> on one rune outside ASCII.
\<close>

section \<open>Fields\<close>

record codec =
  cd_lower :: "string \<Rightarrow> string"
  cd_time :: "string \<Rightarrow> gtime option"

text \<open>
  \<open>foldName\<close>: ASCII letters in upper case; outside ASCII only U+212A (the Kelvin sign) and U+017F
  (the long s) fold to ASCII, to K and S.  Other runes never match a field and are kept.
\<close>

definition ascii_upper :: "char \<Rightarrow> char" where
  "ascii_upper c = (if 97 \<le> byte c \<and> byte c \<le> 122 then char_of (byte c - 32) else c)"

definition fold_rune :: "string \<Rightarrow> string" where
  "fold_rune r =
     (if r = [CHR 0xE2, CHR 0x84, CHR 0xAA] then ''K''
      else if r = [CHR 0xC5, CHR 0xBF] then ''S''
      else map ascii_upper r)"

definition fold_name :: "string \<Rightarrow> string" where
  "fold_name s = concat (map fold_rune (runes s))"

type_synonym 'a field = "json \<Rightarrow> 'a \<Rightarrow> string + 'a"

definition find_field :: "(string \<times> 'a field) list \<Rightarrow> string \<Rightarrow> 'a field option" where
  "find_field fs k =
     (case map_of fs k of
        Some f \<Rightarrow> Some f
      | None \<Rightarrow> map_option snd (find (\<lambda>(n, f). fold_name n = fold_name k) fs))"

text \<open>A struct; \<open>strict\<close> is \<open>DisallowUnknownFields\<close>.\<close>

definition decode_member :: "bool \<Rightarrow> (string \<times> 'a field) list \<Rightarrow> string \<times> json \<Rightarrow> 'a \<Rightarrow> string + 'a" where
  "decode_member strict fs m s =
     (case find_field fs (fst m) of
        None \<Rightarrow> if strict then Inl (''json: unknown field '' @ quote (fst m)) else Inr s
      | Some f \<Rightarrow> f (snd m) s)"

fun decode_struct :: "bool \<Rightarrow> (string \<times> 'a field) list \<Rightarrow> 'a field" where
  "decode_struct strict fs JNull s = Inr s"
| "decode_struct strict fs (JObj kvs) s = fold_result (decode_member strict fs) kvs s"
| "decode_struct strict fs v s = Inl ''json: cannot unmarshal into struct''"

section \<open>Values\<close>

fun decode_string :: "string field" where
  "decode_string JNull s = Inr s"
| "decode_string (JStr t) s = Inr t"
| "decode_string v s = Inl ''json: cannot unmarshal into string''"

fun decode_bool :: "bool field" where
  "decode_bool JNull b = Inr b"
| "decode_bool (JBool c) b = Inr c"
| "decode_bool v b = Inl ''json: cannot unmarshal into bool''"

fun decode_int :: "goint field" where
  "decode_int JNull w = Inr w"
| "decode_int (JNum s) w =
     (case parse_sized 64 s of None \<Rightarrow> Inl ''json: cannot unmarshal number into int'' | Some i \<Rightarrow> Inr (word_of_int i))"
| "decode_int v w = Inl ''json: cannot unmarshal into int''"

fun decode_gtime :: "codec \<Rightarrow> gtime field" where
  "decode_gtime cd JNull t = Inr t"
| "decode_gtime cd (JStr s) t =
     (case cd_time cd s of None \<Rightarrow> Inl ''parsing time'' | Some u \<Rightarrow> Inr u)"
| "decode_gtime cd v t = Inl ''Time.UnmarshalJSON: input is not a JSON string''"

text \<open>
  A slice: an element decodes into the one the slice already holds at its index (after a duplicate key),
  or else into a zero value; the slice ends with the array.
\<close>

fun decode_elems :: "'a field \<Rightarrow> 'a \<Rightarrow> json list \<Rightarrow> 'a list \<Rightarrow> string + 'a list" where
  "decode_elems f zero [] olds = Inr []"
| "decode_elems f zero (v # vs) olds =
     rbind (f v (case olds of [] \<Rightarrow> zero | x # _ \<Rightarrow> x))
       (\<lambda>x. rbind (decode_elems f zero vs (tl olds)) (\<lambda>xs. Inr (x # xs)))"

fun decode_slice :: "'a field \<Rightarrow> 'a \<Rightarrow> 'a slice field" where
  "decode_slice f zero JNull s = Inr None"
| "decode_slice f zero (JArr vs) s = rbind (decode_elems f zero vs (elems s)) (\<lambda>xs. Inr (Some xs))"
| "decode_slice f zero v s = Inl ''json: cannot unmarshal into slice''"

text \<open>A map keeps its entries and takes over those of the object.\<close>

definition put_entry :: "string \<Rightarrow> 'v \<Rightarrow> (string \<times> 'v) list \<Rightarrow> (string \<times> 'v) list" where
  "put_entry k v m = (if k \<in> fst ` set m then map (\<lambda>(l, u). (l, if l = k then v else u)) m else m @ [(k, v)])"

fun decode_map :: "'v field \<Rightarrow> 'v \<Rightarrow> 'v gomap field" where
  "decode_map f zero JNull m = Inr None"
| "decode_map f zero (JObj kvs) m =
     rbind (fold_result (\<lambda>(k, v) m. rbind (f v zero) (\<lambda>x. Inr (put_entry k x m))) kvs (elems m)) (\<lambda>m. Inr (Some m))"
| "decode_map f zero v m = Inl ''json: cannot unmarshal into map''"

text \<open>A value of type \<open>any\<close>.\<close>

definition decode_any :: "json field" where
  "decode_any v s = Inr v"

text \<open>The field of a struct that \<open>sel\<close> reads and \<open>upd\<close> writes.\<close>

definition at_field :: "('s \<Rightarrow> 'a) \<Rightarrow> ('a \<Rightarrow> 's \<Rightarrow> 's) \<Rightarrow> 'a field \<Rightarrow> 's field" where
  "at_field sel upd f v s = rbind (f v (sel s)) (\<lambda>x. Inr (upd x s))"

section \<open>The envelope (the json tags of model.go)\<close>

definition zero_party :: party where
  "zero_party = \<lparr>agent = [], party_version = []\<rparr>"

definition zero_approval :: approval where
  "zero_approval = \<lparr>condition = [], required_role = []\<rparr>"

definition zero_envelope :: envelope where
  "zero_envelope =
     \<lparr>env_id = [], env_version = [], issuer = zero_party, recipient = zero_party, purpose = [],
      resources = None, allowed_actions = None, denied_actions = None, data_classes = None,
      approvals = None, env_delegation = \<lparr>max_depth = 0, current_depth = 0, may_expand_authority = False\<rparr>,
      expires_at = utc 0, policy_version = [], parent_envelope = [], signature = []\<rparr>"

definition decode_party :: "bool \<Rightarrow> party field" where
  "decode_party strict = decode_struct strict
     [(''agent'', at_field agent (\<lambda>x. agent_update (\<lambda>_. x)) decode_string),
      (''version'', at_field party_version (\<lambda>x. party_version_update (\<lambda>_. x)) decode_string)]"

definition decode_approval :: "bool \<Rightarrow> approval field" where
  "decode_approval strict = decode_struct strict
     [(''condition'', at_field condition (\<lambda>x. condition_update (\<lambda>_. x)) decode_string),
      (''required_role'', at_field required_role (\<lambda>x. required_role_update (\<lambda>_. x)) decode_string)]"

definition decode_delegation :: "bool \<Rightarrow> delegation field" where
  "decode_delegation strict = decode_struct strict
     [(''max_depth'', at_field max_depth (\<lambda>x. max_depth_update (\<lambda>_. x)) decode_int),
      (''current_depth'', at_field current_depth (\<lambda>x. current_depth_update (\<lambda>_. x)) decode_int),
      (''may_expand_authority'', at_field may_expand_authority (\<lambda>x. may_expand_authority_update (\<lambda>_. x)) decode_bool)]"

definition decode_strings :: "string slice field" where
  "decode_strings = decode_slice decode_string []"

definition envelope_fields :: "codec \<Rightarrow> bool \<Rightarrow> (string \<times> envelope field) list" where
  "envelope_fields cd strict =
     [(''id'', at_field env_id (\<lambda>x. env_id_update (\<lambda>_. x)) decode_string),
      (''version'', at_field env_version (\<lambda>x. env_version_update (\<lambda>_. x)) decode_string),
      (''issuer'', at_field issuer (\<lambda>x. issuer_update (\<lambda>_. x)) (decode_party strict)),
      (''recipient'', at_field recipient (\<lambda>x. recipient_update (\<lambda>_. x)) (decode_party strict)),
      (''purpose'', at_field purpose (\<lambda>x. purpose_update (\<lambda>_. x)) decode_string),
      (''resources'', at_field resources (\<lambda>x. resources_update (\<lambda>_. x)) (decode_map decode_strings None)),
      (''allowed_actions'', at_field allowed_actions (\<lambda>x. allowed_actions_update (\<lambda>_. x)) decode_strings),
      (''denied_actions'', at_field denied_actions (\<lambda>x. denied_actions_update (\<lambda>_. x)) decode_strings),
      (''data_classes'', at_field data_classes (\<lambda>x. data_classes_update (\<lambda>_. x)) decode_strings),
      (''approvals'', at_field approvals (\<lambda>x. approvals_update (\<lambda>_. x))
          (decode_slice (decode_approval strict) zero_approval)),
      (''delegation'', at_field env_delegation (\<lambda>x. env_delegation_update (\<lambda>_. x)) (decode_delegation strict)),
      (''expires_at'', at_field expires_at (\<lambda>x. expires_at_update (\<lambda>_. x)) (decode_gtime cd)),
      (''policy_version'', at_field policy_version (\<lambda>x. policy_version_update (\<lambda>_. x)) decode_string),
      (''parent_envelope'', at_field parent_envelope (\<lambda>x. parent_envelope_update (\<lambda>_. x)) decode_string),
      (''signature'', at_field signature (\<lambda>x. signature_update (\<lambda>_. x)) decode_string)]"

definition decode_envelope :: "codec \<Rightarrow> bool \<Rightarrow> envelope field" where
  "decode_envelope cd strict = decode_struct strict (envelope_fields cd strict)"

text \<open>\<open>json.Unmarshal\<close> of an envelope: unknown fields are ignored, duplicates decode in turn.\<close>

definition unmarshal_envelope :: "codec \<Rightarrow> string \<Rightarrow> string + envelope" where
  "unmarshal_envelope cd raw =
     (case parse_document raw of
        None \<Rightarrow> Inl ''invalid JSON text''
      | Some v \<Rightarrow> decode_envelope cd False v zero_envelope)"

section \<open>What is encoded decodes\<close>

text \<open>\<open>UnmarshalJSON\<close> reads what \<open>MarshalJSON\<close> prints.\<close>

definition time_laws :: "codec \<Rightarrow> gtime \<Rightarrow> bool" where
  "time_laws cd t \<longleftrightarrow> cd_time cd (rfc3339_nano t) = Some t \<and> valid_utf8 (rfc3339_nano t)"

lemma find_field_exact: "map_of fs k = Some f \<Longrightarrow> find_field fs k = Some f"
  by (simp add: find_field_def)

lemma decode_known:
  "map_of fs k = Some f \<Longrightarrow> decode_member strict fs (k, v) s = f v s"
  by (simp add: decode_member_def find_field_exact)

lemma decode_members:
  "fold_result (decode_member strict fs) ((k, v) # ms) s
    = rbind (decode_member strict fs (k, v) s) (fold_result (decode_member strict fs) ms)"
  by simp

lemma decode_json_strings [simp]: "decode_strings (json_strings s) t = Inr s"
proof -
  have "decode_elems decode_string [] (map JStr xs) olds = Inr xs" for xs olds by (induction xs arbitrary: olds) auto
  then show ?thesis by (cases s) (simp_all add: decode_strings_def json_strings_def)
qed

lemma decode_json_int [simp]: "decode_int (json_int w) v = Inr w"
proof -
  have "- (2 ^ 63) \<le> sint w" "sint w < 2 ^ 63" using sint_range_size [of w] by (simp_all add: word_size)
  then show ?thesis by (simp add: json_int_def parse_sized_def)
qed

lemma decode_encoded_party [simp]: "decode_party strict (encode_party p) zero_party = Inr p"
  by (cases p) (simp add: decode_party_def encode_party_def omit_empty_def decode_known at_field_def zero_party_def)

lemma decode_encoded_approval [simp]: "decode_approval strict (encode_approval a) b = Inr a"
  by (cases a) (simp add: decode_approval_def encode_approval_def decode_known at_field_def)

lemma decode_encoded_delegation [simp]: "decode_delegation strict (encode_delegation d) d0 = Inr d"
  by (cases d) (simp add: decode_delegation_def encode_delegation_def decode_known at_field_def)

lemma decode_encoded_approvals [simp]:
  "decode_slice (decode_approval strict) zero_approval
     (case as of None \<Rightarrow> JNull | Some xs \<Rightarrow> JArr (map encode_approval xs)) t = Inr as"
proof -
  have "decode_elems (decode_approval strict) zero_approval (map encode_approval xs) olds = Inr xs" for xs olds
    by (induction xs arbitrary: olds) auto
  then show ?thesis by (cases as) simp_all
qed

lemma put_entry_fresh: "k \<notin> fst ` set m \<Longrightarrow> put_entry k v m = m @ [(k, v)]"
  by (simp add: put_entry_def)

lemma decode_encoded_resources:
  assumes "wf_map m" and "sorted (map fst (elems m))"
  shows "decode_map decode_strings None (encode_resources m) None = Inr m"
proof (cases m)
  case (Some kvs)
  let ?step = "\<lambda>(k, v) m. rbind (decode_strings v None) (\<lambda>x. Inr (put_entry k x m))"
  have "fold_result ?step (map (\<lambda>(k, v). (k, json_strings v)) xs) acc = Inr (acc @ xs)"
    if "distinct (map fst (acc @ xs))" for xs acc :: "(string \<times> string slice) list"
    using that
  proof (induction xs arbitrary: acc)
    case (Cons p xs)
    obtain k v where p: "p = (k, v)" by (cases p)
    have "k \<notin> fst ` set acc" using Cons.prems p by auto
    then show ?case using Cons.IH [of "acc @ [p]"] Cons.prems p by (simp add: put_entry_fresh)
  qed simp
  moreover have "sort_key fst (map (\<lambda>(k, v). (k, json_strings v)) kvs) = map (\<lambda>(k, v). (k, json_strings v)) kvs"
    using assms(2) Some by (intro sort_key_id_if_sorted) (simp add: comp_def split_beta)
  ultimately show ?thesis using assms Some by (simp add: encode_resources_def wf_map_def)
qed (simp add: encode_resources_def)

lemma decode_encoded_envelope:
  assumes "wf_map (resources e)" and "sorted (map fst (elems (resources e)))"
    and "cd_time cd (rfc3339_nano (expires_at e)) = Some (expires_at e)"
  shows "decode_envelope cd strict (encode_envelope e) zero_envelope = Inr e"
  unfolding decode_envelope_def encode_envelope_def decode_struct.simps append.simps omit_empty_def
  using decode_encoded_resources [OF assms(1,2)] assms(3)
  by (cases e) (simp add: envelope_fields_def decode_known at_field_def zero_envelope_def)

text \<open>The encoded envelope is a JSON text.\<close>

lemma utf8_ascii: "\<forall>c \<in> set s. byte c < 128 \<Longrightarrow> valid_utf8 s"
proof (induction s rule: runes.induct)
  case (2 c cs)
  have "rune_size (c # cs) = 1" using 2 by (simp add: rune_size_def)
  with 2 show ?case by (simp add: valid_utf8_def Let_def)
qed (simp add: valid_utf8_def)

lemma show_nat_zero: "show_nat n = CHR ''0'' # ds \<Longrightarrow> ds = []"
proof (induction n arbitrary: ds rule: show_nat.induct)
  case (1 n)
  show ?case
  proof (cases "n < 10")
    case False
    obtain c cs where c: "show_nat (n div 10) = c # cs" using show_nat_Cons by blast
    have s: "show_nat n = c # cs @ [digit_char (n mod 10)]" using False c by (subst show_nat.simps) simp
    with "1.prems" have "c = CHR ''0''" by simp
    with 1 False c have "show_nat (n div 10) = [CHR ''0'']" by simp
    then have "n div 10 = 0" using digits_value_show_nat [of "n div 10"] by (simp add: digits_value_def byte_def)
    with False show ?thesis by simp
  qed (use 1 in \<open>simp add: show_nat.simps [of n]\<close>)
qed

lemma digits_show_nat: "digits (show_nat n) = (show_nat n, [])"
  using show_nat_digits [of n] by (simp add: digits_def takeWhile_eq_all_conv [THEN iffD2] dropWhile_eq_Nil_conv [THEN iffD2])

lemma parse_integer_show_nat: "parse_integer (show_nat n) = Some (show_nat n, [])"
proof -
  obtain c cs where c: "show_nat n = c # cs" using show_nat_Cons by blast
  then show ?thesis using digits_show_nat [of n] show_nat_zero [of n cs] by (auto simp: parse_integer_def)
qed

lemma json_number_show_int: "json_number (show_int i)"
proof (cases "i < 0")
  case True
  then show ?thesis
    using parse_integer_show_nat [of "nat (- i)"]
    by (simp add: json_number_def parse_number_def show_int_def parse_fraction_def parse_exponent_def)
next
  case False
  obtain c cs where "show_nat (nat i) = c # cs" "is_digit c" using show_nat_Cons by blast
  then have "take 1 (show_nat (nat i)) \<noteq> ''-''" by (auto simp: is_digit_def byte_def)
  then show ?thesis
    using False parse_integer_show_nat [of "nat i"]
    by (simp add: json_number_def parse_number_def show_int_def parse_fraction_def parse_exponent_def)
qed

definition utf8_party :: "party \<Rightarrow> bool" where
  "utf8_party p \<longleftrightarrow> valid_utf8 (agent p) \<and> valid_utf8 (party_version p)"

definition utf8_slice :: "string slice \<Rightarrow> bool" where
  "utf8_slice s \<longleftrightarrow> (\<forall>t \<in> set (elems s). valid_utf8 t)"

text \<open>All text of the envelope is valid UTF-8.\<close>

definition utf8_envelope :: "envelope \<Rightarrow> bool" where
  "utf8_envelope e \<longleftrightarrow>
     valid_utf8 (env_id e) \<and> valid_utf8 (env_version e) \<and> utf8_party (issuer e) \<and> utf8_party (recipient e)
     \<and> valid_utf8 (purpose e) \<and> (\<forall>(k, v) \<in> set (elems (resources e)). valid_utf8 k \<and> utf8_slice v)
     \<and> utf8_slice (allowed_actions e) \<and> utf8_slice (denied_actions e) \<and> utf8_slice (data_classes e)
     \<and> (\<forall>a \<in> set (elems (approvals e)). valid_utf8 (condition a) \<and> valid_utf8 (required_role a))
     \<and> valid_utf8 (policy_version e) \<and> valid_utf8 (parent_envelope e) \<and> valid_utf8 (signature e)"

lemma field_names_utf8:
  "\<forall>n \<in> set [''id'', ''version'', ''issuer'', ''recipient'', ''purpose'', ''resources'', ''allowed_actions'',
     ''denied_actions'', ''data_classes'', ''approvals'', ''delegation'', ''expires_at'', ''policy_version'',
     ''parent_envelope'', ''signature'', ''agent'', ''condition'', ''required_role'', ''max_depth'',
     ''current_depth'', ''may_expand_authority'']. valid_utf8 n"
  by code_simp

lemma readable_json_strings [simp]: "utf8_slice s \<Longrightarrow> 0 < n \<Longrightarrow> readable n (json_strings s)"
  by (cases s) (simp_all add: json_strings_def utf8_slice_def)

lemma readable_json_int [simp]: "readable n (json_int w)"
  by (simp add: json_int_def json_number_show_int)

lemma readable_encoded:
  assumes "utf8_envelope e" and "valid_utf8 (rfc3339_nano (expires_at e))"
  shows "readable 10000 (encode_envelope e)"
proof -
  note names = field_names_utf8 [unfolded list.set ball_simps]
  have party: "utf8_party p \<Longrightarrow> readable 9999 (encode_party p)" for p
    using names by (auto simp: encode_party_def omit_empty_def utf8_party_def)
  have appr: "valid_utf8 (condition a) \<Longrightarrow> valid_utf8 (required_role a) \<Longrightarrow> readable 9998 (encode_approval a)" for a
    using names by (simp add: encode_approval_def)
  have deleg: "readable 9999 (encode_delegation d)" for d
    using names by (simp add: encode_delegation_def)
  have res: "readable 9999 (encode_resources (resources e))"
    using assms(1) by (cases "resources e") (auto simp: encode_resources_def utf8_envelope_def)
  have apps: "readable 9999 (case approvals e of None \<Rightarrow> JNull | Some xs \<Rightarrow> JArr (map encode_approval xs))"
    using assms(1) appr by (cases "approvals e") (auto simp: utf8_envelope_def)
  show ?thesis
    unfolding encode_envelope_def
    using names party res apps deleg assms by (auto simp: omit_empty_def utf8_envelope_def)
qed

lemma document_read:
  assumes "utf8_envelope e" and "wf_map (resources e)" and "sorted (map fst (elems (resources e)))"
    and "time_laws cd (expires_at e)"
  shows "unmarshal_envelope cd (print_json (encode_envelope e)) = Inr e"
proof -
  have "readable 10000 (encode_envelope e)" using assms(1,4) by (simp add: readable_encoded time_laws_def)
  then have "parse_document (print_json (encode_envelope e)) = Some (encode_envelope e)"
    using parse_value_printed [of 10000 "encode_envelope e" "[]"] by (simp add: parse_document_def skip_ws_def)
  with decode_encoded_envelope [OF assms(2,3)] assms(4) show ?thesis
    by (simp add: unmarshal_envelope_def time_laws_def)
qed

text \<open>
  C27: a stored document reads back as the envelope that was marshalled: for an envelope whose text is
  valid UTF-8 and whose resources are listed in key order (a Go map has no order), decoding the
  printed JSON gives the same envelope.
\<close>

theorem document_roundtrip:
  assumes "utf8_envelope e" and "wf_map (resources e)" and "sorted (map fst (elems (resources e)))"
    and "time_laws cd (expires_at e)"
  shows "unmarshal_envelope cd (print_json (encode_envelope e)) = Inr e"
  using assms by (rule document_read)

definition sorted_child :: envelope where
  "sorted_child = sample_child\<lparr>resources := Some [(''customers'', Some [''cus_8291'']), (''orders'', Some [''48319''])]\<rparr>"

definition sample_codec :: codec where
  "sample_codec = \<lparr>cd_lower = (\<lambda>r. r),
     cd_time = (\<lambda>s. if s = rfc3339_nano (utc 66174969600000000000) then Some (utc 66174969600000000000) else None)\<rparr>"

theorem document_roundtrip_witness:
  "unmarshal_envelope sample_codec (print_json (encode_envelope sorted_child)) = Inr sorted_child"
proof (rule document_roundtrip)
  show "utf8_envelope sorted_child" by code_simp
  show "wf_map (resources sorted_child)" "sorted (map fst (elems (resources sorted_child)))" by code_simp+
  have "expires_at sorted_child = utc 66174969600000000000" by (simp add: sorted_child_def sample_child_def)
  moreover have "valid_utf8 (rfc3339_nano (utc 66174969600000000000))" by code_simp
  ultimately show "time_laws sample_codec (expires_at sorted_child)" by (simp add: time_laws_def sample_codec_def)
qed

end
