(* ===== verification/Bodies.thy ===== *)
theory Bodies
  imports Api Decode
begin

text \<open>
  The request bodies of the control API (\<open>decode\<close> in \<open>internal/server/server.go\<close> and the request
  structs of the handlers): from the bytes of a body to the \<open>api_error + request\<close> the handlers take.
\<close>

section \<open>The bodies\<close>

definition body_limit :: nat where "body_limit = 1048576"

definition decode_body :: "codec \<Rightarrow> 'a field \<Rightarrow> 'a \<Rightarrow> string \<Rightarrow> api_error + 'a" where
  "decode_body cd f zero raw =
     (if length raw > body_limit then Inl (bad ''could not read request body (maximum 1 MiB)'')
      else (case unique_json (cd_lower cd) raw of
          Inl e \<Rightarrow> Inl (bad (''invalid JSON: '' @ e))
        | Inr v \<Rightarrow> (case f v zero of Inl e \<Rightarrow> Inl (bad (''invalid JSON: '' @ e)) | Inr x \<Rightarrow> Inr x)))"

definition create_fields :: "codec \<Rightarrow> create_request field" where
  "create_fields cd = decode_struct True
     [(''run_id'', at_field cr_run (\<lambda>x. cr_run_update (\<lambda>_. x)) decode_string),
      (''envelope'', at_field cr_envelope (\<lambda>x. cr_envelope_update (\<lambda>_. x)) (decode_envelope cd True))]"

definition delegate_fields :: "codec \<Rightarrow> envelope field" where
  "delegate_fields cd = decode_struct True [(''child'', decode_envelope cd True)]"

definition handoff_fields :: "codec \<Rightarrow> handoff_request field" where
  "handoff_fields cd = decode_struct True
     [(''parent_envelope_id'', at_field hr_parent (\<lambda>x. hr_parent_update (\<lambda>_. x)) decode_string),
      (''child'', at_field hr_child (\<lambda>x. hr_child_update (\<lambda>_. x)) (decode_envelope cd True))]"

definition diff_fields :: "codec \<Rightarrow> diff_request field" where
  "diff_fields cd = decode_struct True
     [(''parent'', at_field dr_parent (\<lambda>x. dr_parent_update (\<lambda>_. x)) (decode_envelope cd True)),
      (''child'', at_field dr_child (\<lambda>x. dr_child_update (\<lambda>_. x)) (decode_envelope cd True))]"

definition login_fields :: "login_request field" where
  "login_fields = decode_struct True
     [(''username'', at_field lr_username (\<lambda>x. lr_username_update (\<lambda>_. x)) decode_string),
      (''password'', at_field lr_password (\<lambda>x. lr_password_update (\<lambda>_. x)) decode_string)]"

definition approval_fields :: "codec \<Rightarrow> approval_request field" where
  "approval_fields cd = decode_struct True
     [(''envelope_id'', at_field aq_envelope (\<lambda>x. aq_envelope_update (\<lambda>_. x)) decode_string),
      (''action'', at_field aq_action (\<lambda>x. aq_action_update (\<lambda>_. x)) decode_string),
      (''resource'', at_field aq_resource (\<lambda>x. aq_resource_update (\<lambda>_. x)) decode_string),
      (''arguments'', at_field aq_arguments (\<lambda>x. aq_arguments_update (\<lambda>_. x)) (decode_map decode_any JNull)),
      (''approved_by'', at_field aq_approved_by (\<lambda>x. aq_approved_by_update (\<lambda>_. x)) decode_string),
      (''role'', at_field aq_role (\<lambda>x. aq_role_update (\<lambda>_. x)) decode_string),
      (''expires_at'', at_field aq_expires (\<lambda>x. aq_expires_update (\<lambda>_. x)) (decode_gtime cd))]"

definition action_fields :: "action_request field" where
  "action_fields = decode_struct True
     [(''envelope_id'', at_field ac_envelope (\<lambda>x. ac_envelope_update (\<lambda>_. x)) decode_string),
      (''agent_id'', at_field ac_agent (\<lambda>x. ac_agent_update (\<lambda>_. x)) decode_string),
      (''tool'', at_field ac_tool (\<lambda>x. ac_tool_update (\<lambda>_. x)) decode_string),
      (''resources'', at_field ac_resources (\<lambda>x. ac_resources_update (\<lambda>_. x)) (decode_map decode_strings None)),
      (''data_classes'', at_field ac_classes (\<lambda>x. ac_classes_update (\<lambda>_. x)) decode_strings),
      (''arguments'', at_field ac_arguments (\<lambda>x. ac_arguments_update (\<lambda>_. x)) (decode_map decode_any JNull))]"

definition zero_action :: action_request where
  "zero_action = \<lparr>ac_envelope = [], ac_agent = [], ac_tool = [], ac_resources = None, ac_classes = None, ac_arguments = None\<rparr>"

definition zero_create :: create_request where
  "zero_create = \<lparr>cr_run = [], cr_envelope = zero_envelope\<rparr>"

definition zero_approval_request :: approval_request where
  "zero_approval_request =
     \<lparr>aq_envelope = [], aq_action = [], aq_resource = [], aq_arguments = None, aq_approved_by = [], aq_role = [],
      aq_expires = utc 0\<rparr>"

text \<open>The request of a route from its path value and its body.\<close>

definition create_body :: "codec \<Rightarrow> string \<Rightarrow> request" where
  "create_body cd raw = PostEnvelopes (decode_body cd (create_fields cd) zero_create raw)"

definition delegate_body :: "codec \<Rightarrow> string \<Rightarrow> string \<Rightarrow> request" where
  "delegate_body cd i raw = PostDelegate i (decode_body cd (delegate_fields cd) zero_envelope raw)"

definition handoff_body :: "codec \<Rightarrow> string \<Rightarrow> request" where
  "handoff_body cd raw =
     PostHandoff (decode_body cd (handoff_fields cd) \<lparr>hr_parent = [], hr_child = zero_envelope\<rparr> raw)"

definition diff_body :: "codec \<Rightarrow> string \<Rightarrow> request" where
  "diff_body cd raw =
     PostDiff (decode_body cd (diff_fields cd) \<lparr>dr_parent = zero_envelope, dr_child = zero_envelope\<rparr> raw)"

definition login_body :: "codec \<Rightarrow> string \<Rightarrow> request" where
  "login_body cd raw = PostLogin (decode_body cd login_fields \<lparr>lr_username = [], lr_password = []\<rparr> raw)"

definition approval_body :: "codec \<Rightarrow> string \<Rightarrow> request" where
  "approval_body cd raw = PostApprovals (decode_body cd (approval_fields cd) zero_approval_request raw)"

definition action_body :: "codec \<Rightarrow> string \<Rightarrow> request" where
  "action_body cd raw = PostAction (decode_body cd action_fields zero_action raw)"

section \<open>What a body that is accepted says\<close>

lemma decode_body_Inr:
  "decode_body cd f zero raw = Inr x \<longleftrightarrow>
     length raw \<le> body_limit
     \<and> (\<exists>v. parse_document raw = Some v \<and> unambiguous (server_walker (cd_lower cd)) 0 v \<and> f v zero = Inr x)"
proof -
  have u: "unique_json (cd_lower cd) raw = Inr v \<longleftrightarrow>
      parse_document raw = Some v \<and> unambiguous (server_walker (cd_lower cd)) 0 v" for v
    unfolding unique_json_def by (rule checked_value_Inr)
  show ?thesis
    by (cases "unique_json (cd_lower cd) raw") (use u in \<open>auto simp: decode_body_def split: sum.splits\<close>)
qed

text \<open>Arguments decode to the members of their object.\<close>

lemma decode_any_members:
  assumes "distinct (map fst kvs)"
  shows "decode_map decode_any JNull (JObj kvs) None = Inr (Some kvs)"
proof -
  let ?step = "\<lambda>(k, v) m. rbind (decode_any v JNull) (\<lambda>x. Inr (put_entry k x m))"
  have "fold_result ?step xs acc = Inr (acc @ xs)" if "distinct (map fst (acc @ xs))" for xs acc :: "(string \<times> json) list"
    using that
  proof (induction xs arbitrary: acc)
    case (Cons p xs)
    obtain k v where p: "p = (k, v)" by (cases p)
    have "k \<notin> fst ` set acc" using Cons.prems p by auto
    then show ?case using Cons.IH [of "acc @ [p]"] Cons.prems p by (simp add: put_entry_fresh decode_any_def)
  qed simp
  with assms show ?thesis by simp
qed

section \<open>A key that is not seen as a duplicate\<close>

text \<open>
  The check for duplicate keys compares them in lower case, the decoder matches them by \<open>foldName\<close>.
  The two disagree on the long s (U+017F): it is its own lower case, and folds to S.
\<close>

text \<open>An ASCII string is its own runes, and prints as itself when no character is escaped.\<close>

lemma runes_ascii_append:
  "\<forall>c \<in> set a. byte c < 128 \<Longrightarrow> runes (a @ b) = map (\<lambda>c. [c]) a @ runes b"
proof (induction a)
  case (Cons c a)
  have "rune_size (c # a @ b) = 1" using Cons.prems by (simp add: rune_size_def)
  then show ?case using Cons by simp
qed simp

definition plain_text :: "string \<Rightarrow> bool" where
  "plain_text s \<longleftrightarrow> (\<forall>c \<in> set s. 32 \<le> byte c \<and> byte c < 128 \<and> c \<notin> {CHR 0x22, CHR 0x5C, CHR ''<'', CHR ''>'', CHR ''&''})"

lemma print_plain:
  assumes "plain_text s"
  shows "print_string s = CHR 0x22 # s @ [CHR 0x22]"
proof -
  have "escape_rune [c] = [c]" if "c \<in> set s" for c
  proof -
    have "32 \<le> byte c" "byte c < 128" "c \<notin> {CHR 0x22, CHR 0x5C, CHR ''<'', CHR ''>'', CHR ''&''}"
      using assms that unfolding plain_text_def by blast+
    moreover have "c \<notin> {CHR 0x08, CHR 0x0C, CHR 0x0A, CHR 0x0D, CHR 0x09}"
      using \<open>32 \<le> byte c\<close> by (auto simp: byte_def)
    ultimately show ?thesis by (simp add: escape_rune_def)
  qed
  then have "concat (map escape_rune (map (\<lambda>c. [c]) s)) = s" by (induction s) auto
  then show ?thesis
    using runes_ascii_append [of s "[]"] assms by (simp add: print_string_def plain_text_def)
qed

lemma fold_name_ascii:
  assumes "\<forall>c \<in> set s. byte c < 128"
  shows "fold_name (s @ t) = map ascii_upper s @ fold_name t"
proof -
  have "fold_rune [c] = [ascii_upper c]" for c by (simp add: fold_rune_def)
  then have "concat (map fold_rune (map (\<lambda>c. [c]) s)) = map ascii_upper s" by (induction s) auto
  then show ?thesis using runes_ascii_append [OF assms, of t] by (simp add: fold_name_def)
qed

definition long_s :: string where
  "long_s = [CHR 0xC5, CHR 0xBF]"

definition constraint_key :: string where "constraint_key = ''denied_actions''"
definition alias_key :: string where "alias_key = ''denied_action'' @ long_s"

definition alias_value :: json where
  "alias_value = JObj [(''envelope'', JObj
     [(constraint_key, JArr [JStr ''payments.export'']), (alias_key, JArr [])])]"

lemma alias_unambiguous:
  assumes "lower long_s = long_s"
  shows "unambiguous (server_walker lower) 0 alias_value"
proof -
  have "to_lower lower constraint_key = ''denied_actions''" unfolding constraint_key_def by code_simp
  moreover have "to_lower lower alias_key = ''denied_action'' @ lower long_s"
    unfolding alias_key_def long_s_def to_lower_def by code_simp simp
  moreover have "''denied_action'' @ lower long_s \<noteq> ''denied_actions''" using assms by (simp add: long_s_def)
  ultimately show ?thesis by (simp add: alias_value_def server_walker_def)
qed

text \<open>A key that is no field's name goes to the field whose name folds to the same.\<close>

lemma find_field_folded:
  assumes "k \<notin> set (map fst fs)" and "distinct (map fold_name (map fst fs))"
    and "(n, f) \<in> set fs" and "fold_name n = fold_name k"
  shows "find_field fs k = Some f"
proof -
  have "find (\<lambda>(n, f). fold_name n = fold_name k) fs = Some (n, f)"
    using assms(2-4) by (induction fs) (auto simp: image_iff)
  moreover have "map_of fs k = None" using assms(1) by (simp add: map_of_eq_None_iff)
  ultimately show ?thesis by (simp add: find_field_def)
qed

definition envelope_names :: "string list" where
  "envelope_names =
     [''id'', ''version'', ''issuer'', ''recipient'', ''purpose'', ''resources'', ''allowed_actions'',
      ''denied_actions'', ''data_classes'', ''approvals'', ''delegation'', ''expires_at'', ''policy_version'',
      ''parent_envelope'', ''signature'']"

lemma envelope_names: "map fst (envelope_fields cd strict) = envelope_names"
  by (simp only: envelope_fields_def envelope_names_def list.map fst_conv)

lemma envelope_names_folded: "distinct (map fold_name envelope_names)"
proof -
  have "\<forall>s \<in> set envelope_names. \<forall>c \<in> set s. byte c < 128" by (simp add: envelope_names_def byte_def)
  then have "map fold_name envelope_names = map (map ascii_upper) envelope_names"
    using fold_name_ascii [of _ "[]"] by (simp add: fold_name_def)
  moreover have "distinct (map (map ascii_upper) envelope_names)"
    by (simp add: envelope_names_def ascii_upper_def byte_def)
  ultimately show ?thesis by (simp only:)
qed

lemma denied_field:
  "(constraint_key, at_field denied_actions (\<lambda>x. denied_actions_update (\<lambda>_. x)) decode_strings)
    \<in> set (envelope_fields cd strict)"
  unfolding envelope_fields_def constraint_key_def
  by (rule list.set_intros(1) | rule list.set_intros(2))+

lemma alias_folds: "alias_key \<notin> set envelope_names" "fold_name constraint_key = fold_name alias_key"
  by code_simp+

lemma decode_denied:
  assumes "k = constraint_key \<or> k = alias_key"
  shows "decode_member strict (envelope_fields cd strict) (k, v) e
    = rbind (decode_strings v (denied_actions e)) (\<lambda>x. Inr (e\<lparr>denied_actions := x\<rparr>))"
proof -
  have "distinct (map fst (envelope_fields cd strict))"
    using envelope_names_folded by (simp add: envelope_names distinct_map)
  then have "find_field (envelope_fields cd strict) constraint_key
      = Some (at_field denied_actions (\<lambda>x. denied_actions_update (\<lambda>_. x)) decode_strings)"
    by (intro find_field_exact map_of_is_SomeI denied_field)
  moreover have "find_field (envelope_fields cd strict) alias_key
      = Some (at_field denied_actions (\<lambda>x. denied_actions_update (\<lambda>_. x)) decode_strings)"
    using envelope_names_folded alias_folds denied_field
    by (intro find_field_folded [where n = constraint_key]) (simp_all add: envelope_names)
  ultimately show ?thesis using assms by (auto simp: decode_member_def at_field_def)
qed

lemma alias_decodes:
  "create_fields cd alias_value zero_create
    = Inr (zero_create\<lparr>cr_envelope := zero_envelope\<lparr>denied_actions := Some []\<rparr>\<rparr>)"
proof -
  have "decode_envelope cd True (JObj [(constraint_key, JArr [JStr ''payments.export'']), (alias_key, JArr [])]) zero_envelope
      = Inr (zero_envelope\<lparr>denied_actions := Some []\<rparr>)"
    unfolding decode_envelope_def
    by (simp add: decode_denied decode_strings_def zero_envelope_def)
  then show ?thesis
    by (simp add: create_fields_def alias_value_def decode_known at_field_def zero_create_def)
qed

text \<open>The bytes of that body.\<close>

definition alias_raw :: string where
  "alias_raw =
     CHR ''{'' # CHR 0x22 # ''envelope'' @ [CHR 0x22, CHR '':'', CHR ''{'', CHR 0x22] @ constraint_key
       @ [CHR 0x22, CHR '':'', CHR ''['', CHR 0x22] @ ''payments.export'' @ [CHR 0x22, CHR '']'', CHR '','', CHR 0x22] @ alias_key
       @ [CHR 0x22, CHR '':'', CHR ''['', CHR '']'', CHR ''}'', CHR ''}'']"

lemma runes_long_s: "runes long_s = [long_s]"
  by (simp add: long_s_def rune_size_def byte_def second_ok_def cont_def)

lemma runes_alias_key: "runes alias_key = map (\<lambda>c. [c]) ''denied_action'' @ [long_s]"
proof -
  have "\<forall>c \<in> set ''denied_action''. byte c < 128" by (simp add: byte_def)
  then show ?thesis unfolding alias_key_def using runes_ascii_append runes_long_s by metis
qed

lemma print_alias: "print_json alias_value = alias_raw"
proof -
  have "escape_rune long_s = long_s" by (simp add: escape_rune_def long_s_def)
  moreover have "escape_rune [c] = [c]" if "c \<in> set ''denied_action''" for c
  proof -
    have "\<forall>c \<in> set ''denied_action''. escape_rune [c] = [c]" by (simp add: escape_rune_def byte_def)
    then show ?thesis using that by blast
  qed
  ultimately have "print_string alias_key = CHR 0x22 # alias_key @ [CHR 0x22]"
    unfolding print_string_def runes_alias_key by (simp add: alias_key_def)
  moreover have "plain_text ''envelope''" "plain_text constraint_key" "plain_text ''payments.export''"
    by (simp_all add: plain_text_def constraint_key_def byte_def)
  note this [THEN print_plain]
  ultimately show ?thesis by (simp add: alias_value_def alias_raw_def)
qed

lemma parse_alias: "parse_document alias_raw = Some alias_value"
proof -
  have "valid_utf8 alias_key" unfolding valid_utf8_def runes_alias_key by (simp add: long_s_def byte_def)
  moreover have "valid_utf8 ''envelope''" "valid_utf8 constraint_key" "valid_utf8 ''payments.export''"
    by (rule utf8_ascii, simp add: constraint_key_def byte_def)+
  ultimately have "readable 10000 alias_value" by (simp add: alias_value_def)
  then show ?thesis
    using parse_value_printed [of 10000 alias_value "[]"] by (simp add: parse_document_def skip_ws_def print_alias)
qed

text \<open>
  C29: the check for ambiguous keys can be passed with an alias.  The control API accepts the body
  \<open>alias_raw\<close>, whose envelope denies \<open>payments.export\<close> under the key \<open>denied_actions\<close> and then has a key
  that differs from it only in the long s (U+017F, its own lower case): the second key silently replaces
  the constraint, and the handler gets an envelope that denies nothing.
\<close>

theorem alias_replaces_constraint:
  assumes "cd_lower cd long_s = long_s"
  shows "create_body cd alias_raw
    = PostEnvelopes (Inr (zero_create\<lparr>cr_envelope := zero_envelope\<lparr>denied_actions := Some []\<rparr>\<rparr>))"
proof -
  have "length alias_raw \<le> body_limit"
    by (simp add: alias_raw_def alias_key_def constraint_key_def long_s_def body_limit_def)
  then have "decode_body cd (create_fields cd) zero_create alias_raw
      = Inr (zero_create\<lparr>cr_envelope := zero_envelope\<lparr>denied_actions := Some []\<rparr>\<rparr>)"
    unfolding decode_body_Inr using parse_alias alias_unambiguous [of "cd_lower cd", OF assms] alias_decodes by blast
  then show ?thesis by (simp add: create_body_def)
qed

theorem alias_replaces_constraint_witness:
  "create_body sample_codec alias_raw
    = PostEnvelopes (Inr (zero_create\<lparr>cr_envelope := zero_envelope\<lparr>denied_actions := Some []\<rparr>\<rparr>))"
  by (rule alias_replaces_constraint) (simp add: sample_codec_def)

end
