(* ===== verification/Concurrency.thy ===== *)
theory Concurrency
  imports Scenario
begin

text \<open>
  Many server processes on one database (\<open>internal/store/store.go\<close>): the calls of \<open>Transaction\<close> run
  side by side, statement by statement, under READ COMMITTED, and the advisory lock puts them in one order.
  Every interleaving has the effect and the answers of running the transactions one after the other with
  \<open>transaction\<close>, and the concurrent API those of \<open>api\<close>.
\<close>

section \<open>Bodies as statements\<close>

text \<open>
  What \<open>fn\<close> does inside a transaction: a statement sees the rows (\<open>Statement w k\<close>), writes (\<open>w\<close>) and goes on
  as its result tells (\<open>k\<close>); at the end \<open>fn\<close> answers an error or a value.
\<close>

datatype 'a body = Answer "api_error + 'a" | Statement "db \<Rightarrow> db \<Rightarrow> db" "db \<Rightarrow> 'a body"

primrec run_body :: "'a body \<Rightarrow> db \<Rightarrow> api_error + 'a \<times> db" where
  "run_body (Answer y) = (\<lambda>d. case y of Inl e \<Rightarrow> Inl e | Inr x \<Rightarrow> Inr (x, d))"
| "run_body (Statement w k) = (\<lambda>d. run_body (k d) (w d d))"

text \<open>Every operation is the body of one statement that does it all.\<close>

definition at_once :: "(db \<Rightarrow> api_error + 'a \<times> db) \<Rightarrow> 'a body" where
  "at_once fn = Statement (\<lambda>view d. case fn view of Inl e \<Rightarrow> d | Inr (x, d') \<Rightarrow> d')
     (\<lambda>view. Answer (case fn view of Inl e \<Rightarrow> Inl e | Inr (x, d') \<Rightarrow> Inr x))"

lemma run_at_once [simp]: "run_body (at_once fn) = fn"
  by (rule ext) (simp add: at_once_def split: sum.split prod.split)

section \<open>Transactions side by side\<close>

text \<open>
  Where a caller of \<open>Transaction\<close> is: before \<open>BeginTx\<close>, waiting for the lock, in \<open>fn\<close> (with its own
  uncommitted writes and the rest of the body), or returned.
\<close>

datatype 'a caller = Ready | Waiting | Running "db \<Rightarrow> db" "'a body" | Returned "api_error + 'a"

record 'a processes =
  committed :: db
  holder :: "nat option"
  callers :: "nat \<Rightarrow> 'a caller"

definition move :: "nat \<Rightarrow> 'a caller \<Rightarrow> 'a processes \<Rightarrow> 'a processes" where
  "move p x c = c\<lparr>callers := (callers c)(p := x)\<rparr>"

text \<open>The end of a transaction, committed or rolled back, gives up the lock it holds.\<close>

definition release :: "nat \<Rightarrow> 'a processes \<Rightarrow> 'a processes" where
  "release p c = c\<lparr>holder := (if holder c = Some p then None else holder c)\<rparr>"

inductive tx_step ::
  "(nat \<Rightarrow> faults) \<Rightarrow> (nat \<Rightarrow> 'a body) \<Rightarrow> 'a processes \<Rightarrow> 'a processes \<Rightarrow> bool" for f body where
  begin_fails: "callers c p = Ready \<Longrightarrow> f_begin (f p) = Some e \<Longrightarrow> tx_step f body c (move p (Returned (Inl e)) c)"
| begins: "callers c p = Ready \<Longrightarrow> f_begin (f p) = None \<Longrightarrow> tx_step f body c (move p Waiting c)"
| lock_fails:
    "callers c p = Waiting \<Longrightarrow> f_lock (f p) = Some e \<Longrightarrow> tx_step f body c (release p (move p (Returned (Inl e)) c))"
| locks:
    "callers c p = Waiting \<Longrightarrow> f_lock (f p) = None \<Longrightarrow> holder c = None
     \<Longrightarrow> tx_step f body c ((move p (Running (\<lambda>d. d) (body p)) c)\<lparr>holder := Some p\<rparr>)"
| statement:
    "callers c p = Running own (Statement w k) \<Longrightarrow> view = own (committed c)
     \<Longrightarrow> tx_step f body c (move p (Running (\<lambda>d. w view (own d)) (k view)) c)"
| fails:
    "callers c p = Running own (Answer (Inl e)) \<Longrightarrow> tx_step f body c (release p (move p (Returned (Inl e)) c))"
| commit_fails:
    "callers c p = Running own (Answer (Inr x)) \<Longrightarrow> f_commit (f p) = Some e
     \<Longrightarrow> tx_step f body c (release p (move p (Returned (Inl e)) c))"
| commits:
    "callers c p = Running own (Answer (Inr x)) \<Longrightarrow> f_commit (f p) = None
     \<Longrightarrow> tx_step f body c ((release p (move p (Returned (Inr x)) c))\<lparr>committed := own (committed c)\<rparr>)"

inductive_cases tx_stepE: "tx_step f body c c'"

definition all_ready :: "db \<Rightarrow> 'a processes" where
  "all_ready d = \<lparr>committed = d, holder = None, callers = (\<lambda>p. Ready)\<rparr>"

section \<open>One after the other\<close>

fun serial ::
  "(nat \<Rightarrow> faults) \<Rightarrow> (nat \<Rightarrow> db \<Rightarrow> api_error + 'a \<times> db) \<Rightarrow> nat list \<Rightarrow> db \<Rightarrow> (nat \<times> (api_error + 'a)) list \<times> db" where
  "serial f fn [] d = ([], d)"
| "serial f fn (p # ps) d =
     (case transaction (f p) (fn p) d of
        (y, d') \<Rightarrow> (case serial f fn ps d' of (ys, d'') \<Rightarrow> ((p, y) # ys, d'')))"

lemma serial_append:
  "serial f fn ps d = (ys, d') \<Longrightarrow> transaction (f p) (fn p) d' = (y, d'')
    \<Longrightarrow> serial f fn (ps @ [p]) d = (ys @ [(p, y)], d'')"
  by (induction ps arbitrary: d ys) (auto split: prod.splits)

lemma serial_callers: "serial f fn ps d = (ys, d') \<Longrightarrow> map fst ys = ps"
  by (induction ps arbitrary: d ys) (auto split: prod.splits)

text \<open>
  What holds between the steps: the callers that returned are those of the serial run, with its answers;
  only the holder of the lock is in its body, and the rest of it does on its view what the whole does on the
  committed database.
\<close>

fun placed :: "(nat \<Rightarrow> faults) \<Rightarrow> (nat \<Rightarrow> 'a body) \<Rightarrow> 'a processes \<Rightarrow> nat \<Rightarrow> 'a caller \<Rightarrow> bool" where
  "placed f body c p (Running own b) \<longleftrightarrow>
     holder c = Some p \<and> f_begin (f p) = None \<and> f_lock (f p) = None
     \<and> run_body b (own (committed c)) = run_body (body p) (committed c)"
| "placed f body c p Waiting \<longleftrightarrow> f_begin (f p) = None \<and> holder c \<noteq> Some p"
| "placed f body c p x \<longleftrightarrow> holder c \<noteq> Some p"

definition in_body :: "(nat \<Rightarrow> faults) \<Rightarrow> (nat \<Rightarrow> 'a body) \<Rightarrow> 'a processes \<Rightarrow> bool" where
  "in_body f body c \<longleftrightarrow> (\<forall>p. placed f body c p (callers c p))"

definition ordered :: "(nat \<Rightarrow> faults) \<Rightarrow> (nat \<Rightarrow> 'a body) \<Rightarrow> db \<Rightarrow> 'a processes \<Rightarrow> nat list \<Rightarrow> bool" where
  "ordered f body d c ps \<longleftrightarrow>
     distinct ps
     \<and> (\<exists>ys. serial f (\<lambda>p. run_body (body p)) ps d = (ys, committed c)
          \<and> (\<forall>p y. callers c p = Returned y \<longleftrightarrow> (p, y) \<in> set ys))"


lemma caller_simps [simp]:
  "callers (move p x c) = (callers c)(p := x)" "committed (move p x c) = committed c" "holder (move p x c) = holder c"
  "callers (release p c) = callers c" "committed (release p c) = committed c"
  "holder (release p c) = (if holder c = Some p then None else holder c)"
  by (simp_all add: move_def release_def)

lemma in_body_all_ready: "in_body f body (all_ready d)"
  by (simp add: in_body_def all_ready_def)

lemma in_body_at: "in_body f body c \<Longrightarrow> callers c p = x \<Longrightarrow> placed f body c p x"
  unfolding in_body_def by blast

text \<open>A step of one caller leaves the place of the others, and only the holder changes the database.\<close>

lemma in_body_other:
  assumes "in_body f body c" and "callers c' = (callers c)(p := x)" and "placed f body c' p x"
    and "\<And>q. q \<noteq> p \<Longrightarrow> (holder c' = Some q) = (holder c = Some q)"
    and "committed c' = committed c \<or> holder c = Some p"
  shows "in_body f body c'"
  unfolding in_body_def
proof
  fix q
  show "placed f body c' q (callers c' q)"
  proof (cases "q = p")
    case True
    then show ?thesis using assms(2,3) by simp
  next
    case False
    have "placed f body c q (callers c q)" using assms(1) unfolding in_body_def by blast
    then show ?thesis using False assms(2,4,5) by (cases "callers c q") auto
  qed
qed

lemma in_body_step:
  assumes "tx_step f body c c'" and "in_body f body c"
  shows "in_body f body c'"
  using assms(1)
proof (cases rule: tx_step.cases)
  case (begin_fails p e)
  with in_body_at [OF assms(2), of p] show ?thesis by (intro in_body_other [OF assms(2), of _ p "Returned (Inl e)"]) auto
next
  case (begins p)
  with in_body_at [OF assms(2), of p] show ?thesis by (intro in_body_other [OF assms(2), of _ p Waiting]) auto
next
  case (lock_fails p e)
  with in_body_at [OF assms(2), of p] show ?thesis by (intro in_body_other [OF assms(2), of _ p "Returned (Inl e)"]) auto
next
  case (locks p)
  with in_body_at [OF assms(2), of p] show ?thesis
    by (intro in_body_other [OF assms(2), of _ p "Running (\<lambda>d. d) (body p)"]) auto
next
  case (statement p own w k view)
  with in_body_at [OF assms(2) statement(2)] show ?thesis
    by (intro in_body_other [OF assms(2), of _ p "Running (\<lambda>d. w view (own d)) (k view)"]) auto
next
  case (fails p own e)
  with in_body_at [OF assms(2) fails(2)] show ?thesis
    by (intro in_body_other [OF assms(2), of _ p "Returned (Inl e)"]) auto
next
  case (commit_fails p own x e)
  with in_body_at [OF assms(2) commit_fails(2)] show ?thesis
    by (intro in_body_other [OF assms(2), of _ p "Returned (Inl e)"]) auto
next
  case (commits p own x)
  with in_body_at [OF assms(2) commits(2)] show ?thesis
    by (intro in_body_other [OF assms(2), of _ p "Returned (Inr x)"]) auto
qed

lemma ordered_all_ready: "ordered f body d (all_ready d) []"
  by (simp add: ordered_def all_ready_def)

lemma ordered_stays:
  assumes "ordered f body d c ps" and "callers c' = (callers c)(p := x)" and "committed c' = committed c"
    and "\<And>y. x \<noteq> Returned y" and "\<And>y. callers c p \<noteq> Returned y"
  shows "ordered f body d c' ps"
  using assms unfolding ordered_def by auto

lemma ordered_returns:
  assumes "ordered f body d c ps" and "callers c' = (callers c)(p := Returned y)" and "\<And>z. callers c p \<noteq> Returned z"
    and "transaction (f p) (run_body (body p)) (committed c) = (y, committed c')"
  shows "ordered f body d c' (ps @ [p])"
proof -
  obtain ys where ps: "distinct ps" and ys: "serial f (\<lambda>p. run_body (body p)) ps d = (ys, committed c)"
    and r: "\<And>p y. callers c p = Returned y \<longleftrightarrow> (p, y) \<in> set ys"
    using assms(1) unfolding ordered_def by blast
  have new: "(p, z) \<notin> set ys" for z using r assms(3) by blast
  then have "p \<notin> set ps" using serial_callers [OF ys] by force
  moreover have "serial f (\<lambda>p. run_body (body p)) (ps @ [p]) d = (ys @ [(p, y)], committed c')"
    by (rule serial_append [OF ys assms(4)])
  ultimately show ?thesis
    using ps r new unfolding ordered_def by (intro conjI exI [of _ "ys @ [(p, y)]"]) (auto simp: assms(2))
qed

lemma ordered_step:
  assumes "tx_step f body c c'" and "in_body f body c" and "ordered f body d c ps"
  shows "ordered f body d c' ps \<or> (\<exists>p. ordered f body d c' (ps @ [p]))"
  using assms(1)
proof (cases rule: tx_step.cases)
  case (begin_fails p e)
  then have "ordered f body d c' (ps @ [p])"
    by (intro ordered_returns [OF assms(3), of c' p "Inl e"]) (auto simp: transaction_def)
  then show ?thesis by blast
next
  case (begins p)
  then show ?thesis by (intro disjI1 ordered_stays [OF assms(3), of c' p Waiting]) auto
next
  case (lock_fails p e)
  with in_body_at [OF assms(2), of p] have "ordered f body d c' (ps @ [p])"
    by (intro ordered_returns [OF assms(3), of c' p "Inl e"]) (auto simp: transaction_def)
  then show ?thesis by blast
next
  case (locks p)
  then show ?thesis by (intro disjI1 ordered_stays [OF assms(3), of c' p "Running (\<lambda>d. d) (body p)"]) auto
next
  case (statement p own w k view)
  then show ?thesis
    by (intro disjI1 ordered_stays [OF assms(3), of c' p "Running (\<lambda>d. w view (own d)) (k view)"]) auto
next
  case (fails p own e)
  with in_body_at [OF assms(2) fails(2)] have "ordered f body d c' (ps @ [p])"
    by (intro ordered_returns [OF assms(3), of c' p "Inl e"]) (auto simp: transaction_def dest!: sym [of "Inl e"])
  then show ?thesis by blast
next
  case (commit_fails p own x e)
  with in_body_at [OF assms(2) commit_fails(2)] have "ordered f body d c' (ps @ [p])"
    by (intro ordered_returns [OF assms(3), of c' p "Inl e"]) (auto simp: transaction_def dest!: sym [of "Inr _"])
  then show ?thesis by blast
next
  case (commits p own x)
  with in_body_at [OF assms(2) commits(2)] have "ordered f body d c' (ps @ [p])"
    by (intro ordered_returns [OF assms(3), of c' p "Inr x"]) (auto simp: transaction_def dest!: sym [of "Inr _"])
  then show ?thesis by blast
qed

lemma transactions_ordered:
  assumes "(tx_step f body)\<^sup>*\<^sup>* (all_ready d) c"
  shows "in_body f body c \<and> (\<exists>ps. ordered f body d c ps)"
  using assms
proof (induction rule: rtranclp_induct)
  case base
  show ?case using in_body_all_ready ordered_all_ready by blast
next
  case (step c c')
  then show ?case using in_body_step ordered_step by metis
qed

text \<open>Nobody waits for ever: while a caller has not returned, somebody can go on.\<close>

lemma never_stuck:
  assumes "in_body f body c" and "\<And>y. callers c p \<noteq> Returned y"
  shows "\<exists>c'. tx_step f body c c'"
proof (cases "holder c")
  case (Some q)
  then obtain own b where q: "callers c q = Running own b"
    using in_body_at [OF assms(1) refl, of q] by (cases "callers c q") auto
  show ?thesis
  proof (cases b)
    case (Statement w k)
    with q show ?thesis by (blast intro: tx_step.statement)
  next
    case (Answer y)
    with q show ?thesis
      by (cases y; cases "f_commit (f q)") (blast intro: tx_step.fails tx_step.commit_fails tx_step.commits)+
  qed
next
  case None
  show ?thesis
  proof (cases "callers c p")
    case Ready
    then show ?thesis by (cases "f_begin (f p)") (blast intro: tx_step.begins tx_step.begin_fails)+
  next
    case Waiting
    with None show ?thesis by (cases "f_lock (f p)") (blast intro: tx_step.locks tx_step.lock_fails)+
  next
    case (Running own b)
    with in_body_at [OF assms(1) refl, of p] None show ?thesis by simp
  next
    case (Returned y)
    with assms(2) show ?thesis by blast
  qed
qed

section \<open>The API under concurrency\<close>

definition tx_reply :: "api_error + response \<times> nat \<Rightarrow> response \<times> nat" where
  "tx_reply y = (case y of Inl e \<Rightarrow> error_reply e | Inr z \<Rightarrow> z)"

text \<open>The calls \<open>ps\<close>, each answered whole before the next.\<close>

fun api_in_turn ::
  "activation server \<Rightarrow> (nat \<Rightarrow> draws) \<Rightarrow> (nat \<Rightarrow> faults) \<Rightarrow> (nat \<Rightarrow> string) \<Rightarrow> (nat \<Rightarrow> request) \<Rightarrow> nat list \<Rightarrow> db
    \<Rightarrow> (nat \<times> response \<times> nat) list \<times> db" where
  "api_in_turn s w f h r [] d = ([], d)"
| "api_in_turn s w f h r (p # ps) d =
     (case api s (w p) (f p) (h p) (r p) d of
        (z, d') \<Rightarrow> (case api_in_turn s w f h r ps d' of (zs, d'') \<Rightarrow> ((p, z) # zs, d'')))"

lemma serial_in_turn:
  assumes "\<And>p. is_public (r p) \<or> has_bearer (h p)"
    and "serial f (\<lambda>p. endpoint s (w p) (h p) (r p)) ps d = (ys, d')"
  shows "api_in_turn s w f h r ps d = (map (\<lambda>(p, y). (p, tx_reply y)) ys, d')"
  using assms(2)
proof (induction ps arbitrary: d ys)
  case (Cons p ps)
  obtain y d1 where t: "transaction (f p) (endpoint s (w p) (h p) (r p)) d = (y, d1)" by fastforce
  then have "api s (w p) (f p) (h p) (r p) d = (tx_reply y, d1)"
    using assms(1) [of p] by (auto simp: api_def tx_reply_def split: sum.split)
  with Cons t show ?case by (auto split: prod.splits)
qed simp

lemma in_turn_reachable: "reachable s d \<Longrightarrow> api_in_turn s w f h r ps d = (zs, d') \<Longrightarrow> reachable s d'"
proof (induction ps arbitrary: d zs)
  case (Cons p ps)
  obtain z d1 where a: "api s (w p) (f p) (h p) (r p) d = (z, d1)" by fastforce
  have "reachable s d1" by (rule reachable_steps [OF Cons.prems(1)]) (use api_step.call [OF a] in blast)
  with Cons a show ?case by (auto split: prod.splits)
qed simp

text \<open>
  C9: the store's transactions behave one after the other.  When any number of requests, at any number of
  server processes, run their transactions side by side, interleaved statement by statement, then at
  every moment the committed database and the answers given so far are those of some order of the finished requests,
  each handled whole by the API before the next; so the database is one of the reachable ones.  And no
  request is ever stuck on the lock: while one has not been answered, some transaction can go on.
\<close>

theorem concurrent_requests_serial:
  assumes "\<forall>p. is_public (r p) \<or> has_bearer (h p)"
    and "\<forall>p. run_body (body p) = endpoint s (w p) (h p) (r p)"
    and "reachable s d" and "(tx_step f body)\<^sup>*\<^sup>* (all_ready d) c"
  shows "(\<exists>ps zs. distinct ps \<and> api_in_turn s w f h r ps d = (zs, committed c)
      \<and> (\<forall>p z. (\<exists>y. callers c p = Returned y \<and> tx_reply y = z) \<longleftrightarrow> (p, z) \<in> set zs))
    \<and> reachable s (committed c)
    \<and> ((\<exists>p. \<forall>y. callers c p \<noteq> Returned y) \<longrightarrow> (\<exists>c'. tx_step f body c c'))"
proof -
  obtain ps ys where i: "in_body f body c" and ps: "distinct ps"
    and ys: "serial f (\<lambda>p. run_body (body p)) ps d = (ys, committed c)"
    and ret: "\<And>p y. callers c p = Returned y \<longleftrightarrow> (p, y) \<in> set ys"
    using transactions_ordered [OF assms(4)] unfolding ordered_def by blast
  have t: "api_in_turn s w f h r ps d = (map (\<lambda>(p, y). (p, tx_reply y)) ys, committed c)"
    by (rule serial_in_turn) (use assms(1,2) ys in auto)
  have "(\<exists>y. callers c p = Returned y \<and> tx_reply y = z) \<longleftrightarrow> (p, z) \<in> set (map (\<lambda>(p, y). (p, tx_reply y)) ys)" for p z
    unfolding ret by force
  with ps t in_turn_reachable [OF assms(3) t] never_stuck [OF i] show ?thesis by blast
qed

text \<open>Two requests race for the same approval: the first to get the lock is allowed, the other waits.\<close>

definition race_calls :: "nat \<Rightarrow> draws" where
  "race_calls p = (if p = 0 then draw4 else draw6)"

definition race_body :: "nat \<Rightarrow> (response \<times> nat) body" where
  "race_body p = at_once (endpoint demo_server (race_calls p) ''Bearer service'' (PostAction (Inr action_1)))"

lemma race_first:
  "endpoint demo_server draw4 ''Bearer service'' (PostAction (Inr action_1)) db_approved
     = Inr ((RAction (new_id ''action_'' (d_action draw4)) allow [pr_id approval_row_1], 200), db_acted)"
proof -
  have "is_service demo_server ''Bearer service''"
    by (simp add: is_service_def has_bearer_def bearer_def trim_prefix_def demo_server_def server_with_def)
  with step_action show ?thesis by (simp add: endpoint_def)
qed

lemma race_run:
  "\<exists>c. (tx_step (\<lambda>p. no_faults) race_body)\<^sup>*\<^sup>* (all_ready db_approved) c \<and> committed c = db_acted
     \<and> callers c 0 = Returned (Inr (RAction (new_id ''action_'' (d_action draw4)) allow [pr_id approval_row_1], 200))
     \<and> callers c 1 = Waiting"
proof -
  let ?S = "tx_step (\<lambda>p. no_faults) race_body" and ?fn = "endpoint demo_server draw4 ''Bearer service'' (PostAction (Inr action_1))"
  let ?w = "\<lambda>view d. case ?fn view of Inl e \<Rightarrow> d | Inr (x, d') \<Rightarrow> d'"
    and ?k = "\<lambda>view. Answer (case ?fn view of Inl e \<Rightarrow> Inl e | Inr (x, d') \<Rightarrow> Inr x)"
  let ?c1 = "move 0 Waiting (all_ready db_approved)"
  let ?c2 = "move 1 Waiting ?c1"
  let ?c3 = "(move 0 (Running (\<lambda>d. d) (race_body 0)) ?c2)\<lparr>holder := Some 0\<rparr>"
  let ?c4 = "move 0 (Running (\<lambda>d. ?w db_approved d) (?k db_approved)) ?c3"
  let ?y = "(RAction (new_id ''action_'' (d_action draw4)) allow [pr_id approval_row_1], 200::nat)"
  let ?c5 = "(release 0 (move 0 (Returned (Inr ?y)) ?c4))\<lparr>committed := ?w db_approved (committed ?c4)\<rparr>"
  have b: "race_body 0 = Statement ?w ?k" by (simp add: race_body_def at_once_def race_calls_def)
  have "?S (all_ready db_approved) ?c1" by (rule tx_step.begins) (simp_all add: all_ready_def no_faults_def)
  moreover have "?S ?c1 ?c2" by (rule tx_step.begins) (simp_all add: all_ready_def no_faults_def)
  moreover have "?S ?c2 ?c3" by (rule tx_step.locks) (simp_all add: all_ready_def no_faults_def)
  moreover have "?S ?c3 ?c4"
    by (rule tx_step.statement [where own = "\<lambda>d. d" and view = db_approved]) (simp_all add: all_ready_def b)
  moreover have "?S ?c4 ?c5"
    by (rule tx_step.commits) (simp_all add: race_first no_faults_def)
  ultimately have "?S\<^sup>*\<^sup>* (all_ready db_approved) ?c5" by (meson converse_rtranclp_into_rtranclp rtranclp.rtrancl_refl)
  moreover have "committed ?c5 = db_acted" by (simp add: race_first)
  ultimately show ?thesis by (intro exI [of _ ?c5]) simp
qed

theorem concurrent_requests_serial_witness:
  "\<exists>ps zs. distinct ps \<and> api_in_turn demo_server race_calls (\<lambda>p. no_faults) (\<lambda>p. ''Bearer service'')
       (\<lambda>p. PostAction (Inr action_1)) ps db_approved = (zs, db_acted)
     \<and> (0, RAction (new_id ''action_'' (d_action draw4)) allow [pr_id approval_row_1], 200) \<in> set zs"
proof -
  obtain c where c: "(tx_step (\<lambda>p. no_faults) race_body)\<^sup>*\<^sup>* (all_ready db_approved) c" "committed c = db_acted"
    "callers c 0 = Returned (Inr (RAction (new_id ''action_'' (d_action draw4)) allow [pr_id approval_row_1], 200))"
    using race_run by blast
  have b: "\<forall>p::nat. is_public (PostAction (Inr action_1)) \<or> has_bearer ''Bearer service''" by (simp add: has_bearer_def)
  have r: "\<forall>p. run_body (race_body p) = endpoint demo_server (race_calls p) ''Bearer service'' (PostAction (Inr action_1))"
    by (simp add: race_body_def)
  have "\<exists>y. callers c 0 = Returned y \<and> tx_reply y = (RAction (new_id ''action_'' (d_action draw4)) allow [pr_id approval_row_1], 200)"
    using c(3) by (simp add: tx_reply_def)
  moreover obtain ps zs where 1: "distinct ps" "api_in_turn demo_server race_calls (\<lambda>p. no_faults) (\<lambda>p. ''Bearer service'')
       (\<lambda>p. PostAction (Inr action_1)) ps db_approved = (zs, db_acted)"
      and zs: "\<And>p z. (\<exists>y. callers c p = Returned y \<and> tx_reply y = z) \<longleftrightarrow> (p, z) \<in> set zs"
    using concurrent_requests_serial [OF b r reachable_states(3) c(1)] unfolding c(2) by blast
  ultimately show ?thesis using 1 unfolding zs by blast
qed

end
