(* ===== verification/Gateway_Config.thy ===== *)
theory Gateway_Config
  imports Decode Actions
begin

text \<open>
  The gateway's configuration (\<open>internal/gateway/config.go\<close>): which upstream tools are mapped to which
  actions, the JSON pointers that select the resource ids in a call's arguments, and the extraction of
  those ids.  A Go map is a list of entries in some iteration order.
\<close>

section \<open>Mappings\<close>

record mapping =
  mp_action :: string
  mp_resources :: "string gomap"
  mp_classes :: "string slice"

record config =
  cf_tools :: "mapping gomap"

definition identifier_breaks :: string where
  "identifier_breaks = ''*?[]'' @ [CHR 0x0D, CHR 0x0A, CHR 0x00]"

definition is_identifier :: "string \<Rightarrow> bool" where
  "is_identifier value \<longleftrightarrow> value \<noteq> [] \<and> trim_space value = value \<and> \<not> contains_any value identifier_breaks"

section \<open>JSON pointers (pointerTokens)\<close>

fun pointer_token :: "string \<Rightarrow> string option" where
  "pointer_token [] = Some []"
| "pointer_token (c # r) =
     (if c \<noteq> CHR ''~'' then map_option ((#) c) (pointer_token r)
      else (case r of
          [] \<Rightarrow> None
        | d # r' \<Rightarrow>
            if d = CHR ''0'' then map_option ((#) (CHR ''~'')) (pointer_token r')
            else if d = CHR ''1'' then map_option ((#) (CHR ''/'')) (pointer_token r')
            else None))"

definition pointer_tokens :: "string \<Rightarrow> string + string list" where
  "pointer_tokens pointer =
     (if \<not> prefix ''/'' pointer then Inl ''resource argument must be a JSON pointer beginning with /''
      else map_result (\<lambda>t. case pointer_token t of None \<Rightarrow> Inl ''invalid JSON pointer escape'' | Some u \<Rightarrow> Inr u)
        (split_on (CHR ''/'') (drop 1 pointer)))"

text \<open>The pointer that \<open>pointer_tokens\<close> reads back.\<close>

definition escape_char :: "char \<Rightarrow> string" where
  "escape_char c = (if c = CHR ''~'' then ''~0'' else if c = CHR ''/'' then ''~1'' else [c])"

definition make_pointer :: "string list \<Rightarrow> string" where
  "make_pointer ts = concat (map (\<lambda>t. CHR ''/'' # concat (map escape_char t)) ts)"

section \<open>Validation (Config.Validate)\<close>

definition check_mapping_resource :: "string \<Rightarrow> string \<times> string \<Rightarrow> string + unit" where
  "check_mapping_resource name cp =
     (if \<not> is_identifier (fst cp) \<or> CHR '':'' \<in> set (fst cp) then Inl (''invalid resource category for '' @ name)
      else (case pointer_tokens (snd cp) of
          Inl e \<Rightarrow> Inl (''tool '' @ name @ '': '' @ e)
        | Inr ts \<Rightarrow> Inr ()))"

definition check_tool :: "string \<times> mapping \<Rightarrow> string + unit" where
  "check_tool nm =
     (let name = fst nm; m = snd nm
      in if \<not> is_identifier name \<or> \<not> is_identifier (mp_action m)
           then Inl ''tool names and actions must be exact nonblank identifiers''
         else if elems (mp_resources m) = [] then Inl (''tool '' @ name @ '' needs a resource mapping'')
         else rbind (map_result (check_mapping_resource name) (elems (mp_resources m))) (\<lambda>_.
              rbind (map_result
                  (\<lambda>c. if \<not> is_identifier c then Inl (''invalid data class for '' @ name) else Inr ()) (elems (mp_classes m)))
                (\<lambda>_. Inr ())))"

definition config_validate :: "config \<Rightarrow> string + unit" where
  "config_validate c =
     (if length (elems (cf_tools c)) = 0 \<or> length (elems (cf_tools c)) > 256
      then Inl ''configure between 1 and 256 tools''
      else rbind (map_result check_tool (elems (cf_tools c))) (\<lambda>_. Inr ()))"

section \<open>Loading (LoadConfig)\<close>

definition zero_mapping :: mapping where
  "zero_mapping = \<lparr>mp_action = [], mp_resources = None, mp_classes = None\<rparr>"

definition mapping_fields :: "(string \<times> mapping field) list" where
  "mapping_fields =
     [(''action'', at_field mp_action (\<lambda>x. mp_action_update (\<lambda>_. x)) decode_string),
      (''resources'', at_field mp_resources (\<lambda>x. mp_resources_update (\<lambda>_. x)) (decode_map decode_string [])),
      (''data_classes'', at_field mp_classes (\<lambda>x. mp_classes_update (\<lambda>_. x)) decode_strings)]"

definition decode_config :: "config field" where
  "decode_config = decode_struct True
     [(''tools'', at_field cf_tools (\<lambda>x. cf_tools_update (\<lambda>_. x))
        (decode_map (decode_struct True mapping_fields) zero_mapping))]"

text \<open>\<open>raw\<close> is what opening and reading the file gave.\<close>

definition load_config :: "(string \<Rightarrow> string) \<Rightarrow> string + string \<Rightarrow> string + config" where
  "load_config lower raw =
     rbind raw (\<lambda>raw.
       if length raw > 65536 then Inl ''gateway configuration exceeds 64 KiB''
       else rbind (wrap_error (\<lambda>e. ''invalid gateway config: '' @ e) (strict_decode lower raw)) (\<lambda>v.
         rbind (wrap_error (\<lambda>e. ''invalid gateway config: '' @ e) (decode_config v \<lparr>cf_tools = None\<rparr>)) (\<lambda>c.
         rbind (config_validate c) (\<lambda>_. Inr c))))"

section \<open>Extracting resource ids (extract)\<close>

text \<open>One step of the pointer; the value of a missing key is nil.\<close>

fun pointer_step :: "string \<Rightarrow> json \<Rightarrow> string + json" where
  "pointer_step t (JObj kvs) = Inr (case map_of kvs t of None \<Rightarrow> JNull | Some v \<Rightarrow> v)"
| "pointer_step t (JArr vs) =
     (case parse_sized 64 t of
        None \<Rightarrow> Inl ''resource argument is missing''
      | Some i \<Rightarrow>
          if i < 0 \<or> i \<ge> int (length vs) \<or> show_int i \<noteq> t then Inl ''resource argument is missing''
          else Inr (vs ! nat i))"
| "pointer_step t v = Inl ''resource argument is missing''"

fun json_id :: "json \<Rightarrow> string + string" where
  "json_id (JStr s) = Inr s"
| "json_id v = Inl ''resource IDs must be strings''"

fun resource_ids :: "json \<Rightarrow> string + string list" where
  "resource_ids (JStr s) = Inr [s]"
| "resource_ids (JArr vs) = map_result json_id vs"
| "resource_ids v = Inl ''resource argument must be a string ID or array of IDs''"

text \<open>The loop that keeps the first occurrence of every id.\<close>

definition id_step :: "string \<Rightarrow> string list \<Rightarrow> string + string list" where
  "id_step i acc =
     (if \<not> is_identifier i \<or> length i > 512
      then Inl ''resource IDs must be concrete strings of at most 512 bytes''
      else Inr (if i \<in> set acc then acc else acc @ [i]))"

definition extract_category :: "json \<Rightarrow> string \<Rightarrow> string + string list" where
  "extract_category arguments pointer =
     rbind (pointer_tokens pointer) (\<lambda>ts.
     rbind (fold_result pointer_step ts arguments) (\<lambda>v.
     rbind (resource_ids v) (\<lambda>ids.
       if ids = [] then Inl ''resource ID array must not be empty''
       else rbind (fold_result id_step ids []) (\<lambda>ids. Inr (sort ids)))))"

definition extract_resources :: "json \<Rightarrow> mapping \<Rightarrow> string + (string \<times> string list) list" where
  "extract_resources arguments m =
     map_result (\<lambda>(category, pointer). rbind (extract_category arguments pointer) (\<lambda>ids. Inr (category, ids)))
       (elems (mp_resources m))"

section \<open>Pointers: lemmas\<close>

lemma escape_char_not_Nil [simp]: "escape_char c \<noteq> []"
  by (simp add: escape_char_def)

lemma escape_no_slash: "CHR ''/'' \<notin> set (concat (map escape_char t))"
  by (induction t) (auto simp: escape_char_def)

lemma pointer_token_escaped: "pointer_token (concat (map escape_char t)) = Some t"
  by (induction t) (auto simp: escape_char_def)

lemma pointer_token_Some:
  "pointer_token t = Some u \<Longrightarrow> CHR ''/'' \<notin> set t \<Longrightarrow> t = concat (map escape_char u)"
proof (induction t arbitrary: u rule: pointer_token.induct)
  case (2 c r)
  show ?case
  proof (cases "c = CHR ''~''")
    case False
    with 2 show ?thesis by (auto simp: escape_char_def)
  next
    case True
    then obtain d r' where r: "r = d # r'" using 2(4) by (cases r) auto
    show ?thesis
      using 2(4,5) True r 2(2) [of d r'] 2(3) [of d r']
      by (auto simp: escape_char_def split: if_splits)
  qed
qed simp

lemma split_on_join:
  "\<forall>t \<in> set (t # ts). sep \<notin> set t \<Longrightarrow> split_on sep (t @ concat (map ((#) sep) ts)) = t # ts"
proof (induction ts arbitrary: t)
  case Nil
  then show ?case by (induction t) auto
next
  case (Cons u us)
  then have ih: "split_on sep (u @ concat (map ((#) sep) us)) = u # us" by simp
  have "sep \<notin> set t" using Cons.prems by simp
  then show ?case using ih by (induction t) auto
qed

lemma split_on_shape: "\<exists>t ts. split_on sep s = t # ts"
  by (induction s) (auto split: list.splits)

lemma join_split_on:
  "split_on sep s = t # ts \<Longrightarrow> s = t @ concat (map ((#) sep) ts) \<and> (\<forall>u \<in> set (t # ts). sep \<notin> set u)"
proof (induction s arbitrary: t ts)
  case (Cons c s)
  obtain u us where u: "split_on sep s = u # us" using split_on_shape by blast
  show ?case
  proof (cases "c = sep")
    case True
    then have "t = []" "ts = u # us" using Cons.prems u by simp_all
    with Cons.IH [OF u] True show ?thesis by simp
  next
    case False
    then have "t = c # u" "ts = us" using Cons.prems u by simp_all
    with Cons.IH [OF u] False show ?thesis by simp
  qed
qed simp

lemma pointer_tokens_iff:
  "pointer_tokens p = Inr ts \<longleftrightarrow> ts \<noteq> [] \<and> p = make_pointer ts"
proof
  let ?read = "\<lambda>t. case pointer_token t of None \<Rightarrow> Inl ''invalid JSON pointer escape'' | Some u \<Rightarrow> Inr u"
  assume "pointer_tokens p = Inr ts"
  then obtain r where p: "p = CHR ''/'' # r" and m: "map ?read (split_on (CHR ''/'') r) = map Inr ts"
    by (auto simp: pointer_tokens_def map_result_Inr prefix_def split: if_splits)
  obtain t us where s: "split_on (CHR ''/'') r = t # us" using split_on_shape by blast
  have j: "r = t @ concat (map ((#) (CHR ''/'')) us)" "\<forall>u \<in> set (t # us). CHR ''/'' \<notin> set u"
    using join_split_on [OF s] by auto
  have "vs = map (\<lambda>t. concat (map escape_char t)) ts"
    if "map ?read vs = map Inr ts" "\<forall>u \<in> set vs. CHR ''/'' \<notin> set u" for vs ts
    using that
  proof (induction vs arbitrary: ts)
    case (Cons v vs)
    then obtain w ws where ts: "ts = w # ws" by (cases ts) auto
    with Cons.prems(1) have "pointer_token v = Some w" by (auto split: option.splits)
    then have "v = concat (map escape_char w)" using Cons.prems(2) pointer_token_Some by simp
    then show ?case using Cons ts by simp
  qed simp
  from this [OF m [unfolded s] j(2)] have e: "t # us = map (\<lambda>t. concat (map escape_char t)) ts" .
  have "p = concat (map ((#) (CHR ''/'')) (t # us))" using p j(1) by simp
  then show "ts \<noteq> [] \<and> p = make_pointer ts" using e by (auto simp: make_pointer_def comp_def)
next
  let ?read = "\<lambda>t. case pointer_token t of None \<Rightarrow> Inl ''invalid JSON pointer escape'' | Some u \<Rightarrow> Inr u"
  assume "ts \<noteq> [] \<and> p = make_pointer ts"
  then obtain t us where ts: "ts = t # us" and p: "p = make_pointer (t # us)" by (cases ts) auto
  let ?e = "\<lambda>t. concat (map escape_char t)"
  have "split_on (CHR ''/'') (?e t @ concat (map ((#) (CHR ''/'')) (map ?e us))) = ?e t # map ?e us"
    by (rule split_on_join) (use escape_no_slash in auto)
  moreover have "map_result ?read (?e t # map ?e us) = Inr (t # us)"
    unfolding map_result_Inr by (simp add: pointer_token_escaped)
  moreover have "p = CHR ''/'' # ?e t @ concat (map ((#) (CHR ''/'')) (map ?e us))"
    using p by (simp add: make_pointer_def comp_def)
  ultimately show "pointer_tokens p = Inr ts" using ts by (simp only: pointer_tokens_def) simp
qed

text \<open>
  C30: the pointers the gateway accepts are exactly the encodings of non-empty lists of tokens (a
  slash before each token, with \<open>~\<close> written \<open>~0\<close> and \<open>/\<close> written \<open>~1\<close>), and it reads back the tokens.
\<close>

theorem pointer_tokens_exact:
  "pointer_tokens p = Inr ts \<longleftrightarrow> ts \<noteq> [] \<and> p = make_pointer ts"
  by (rule pointer_tokens_iff)

section \<open>Extraction: lemmas\<close>

lemma contains_any_mono: "contains_any s t \<Longrightarrow> set t \<subseteq> set u \<Longrightarrow> contains_any s u"
  by (auto simp: contains_any_def)

text \<open>What the gateway takes for an id, the control API takes for a concrete id.\<close>

lemma identifier_concrete: "is_identifier i \<Longrightarrow> concrete_id i"
  using contains_any_mono [of i "''*?[]''" identifier_breaks]
  by (auto simp: is_identifier_def concrete_id_def identifier_breaks_def)

lemma id_step_Inr:
  "id_step i acc = Inr out \<longleftrightarrow>
     is_identifier i \<and> length i \<le> 512 \<and> out = (if i \<in> set acc then acc else acc @ [i])"
  by (auto simp: id_step_def)

lemma id_steps:
  "fold_result id_step ids acc = Inr out \<Longrightarrow> distinct acc \<Longrightarrow>
     distinct out \<and> set out = set acc \<union> set ids \<and> (\<forall>i \<in> set ids. is_identifier i \<and> length i \<le> 512)"
proof (induction ids arbitrary: acc)
  case (Cons i ids)
  then have i: "is_identifier i \<and> length i \<le> 512"
    and f: "fold_result id_step ids (if i \<in> set acc then acc else acc @ [i]) = Inr out"
    by (auto simp: id_step_Inr rbind_eq_Inr)
  show ?case using Cons.IH [OF f] Cons.prems(2) i by (auto split: if_splits)
qed auto

lemma id_steps_ok:
  "\<forall>i \<in> set ids. is_identifier i \<and> length i \<le> 512 \<Longrightarrow> \<exists>out. fold_result id_step ids acc = Inr out"
  by (induction ids arbitrary: acc) (auto simp: id_step_def)

text \<open>What a pointer selects, with no order or repetition left: the meaning of a mapping entry.\<close>

definition selects :: "json \<Rightarrow> string \<Rightarrow> string set \<Rightarrow> bool" where
  "selects arguments pointer ids \<longleftrightarrow>
     (\<exists>ts v vs. pointer = make_pointer ts \<and> ts \<noteq> [] \<and> fold_result pointer_step ts arguments = Inr v
        \<and> resource_ids v = Inr vs \<and> ids = set vs)"

lemma extract_category_exact:
  "extract_category a p = Inr ids \<longleftrightarrow>
     (\<exists>S. selects a p S \<and> S \<noteq> {} \<and> (\<forall>i \<in> S. is_identifier i \<and> length i \<le> 512) \<and> ids = sorted_list_of_set S)"
proof
  assume "extract_category a p = Inr ids"
  then obtain ts v vs out where 1: "pointer_tokens p = Inr ts" "fold_result pointer_step ts a = Inr v"
      "resource_ids v = Inr vs" "vs \<noteq> []" "fold_result id_step vs [] = Inr out" "ids = sort out"
    by (auto simp: extract_category_def result_simps split: if_splits)
  have out: "distinct out" "set out = set vs" "\<forall>i \<in> set vs. is_identifier i \<and> length i \<le> 512"
    using id_steps [OF 1(5)] by auto
  have "ids = sorted_list_of_set (set vs)"
    using out(1,2) 1(6) by (simp add: sorted_list_of_set_sort_remdups distinct_remdups_id flip: out(2))
  moreover have "selects a p (set vs)" using 1(1-3) pointer_tokens_iff unfolding selects_def by blast
  ultimately show "\<exists>S. selects a p S \<and> S \<noteq> {} \<and> (\<forall>i \<in> S. is_identifier i \<and> length i \<le> 512) \<and> ids = sorted_list_of_set S"
    using out(3) 1(4) by auto
next
  assume "\<exists>S. selects a p S \<and> S \<noteq> {} \<and> (\<forall>i \<in> S. is_identifier i \<and> length i \<le> 512) \<and> ids = sorted_list_of_set S"
  then obtain ts v vs where 1: "pointer_tokens p = Inr ts" "fold_result pointer_step ts a = Inr v"
      "resource_ids v = Inr vs" "vs \<noteq> []" "\<forall>i \<in> set vs. is_identifier i \<and> length i \<le> 512"
      "ids = sorted_list_of_set (set vs)"
    unfolding selects_def using pointer_tokens_iff by blast
  obtain out where f: "fold_result id_step vs [] = Inr out" using id_steps_ok [OF 1(5)] by blast
  have out: "distinct out" "set out = set vs" using id_steps [OF f] by auto
  have "sort out = ids"
    using out 1(6) by (simp add: sorted_list_of_set_sort_remdups distinct_remdups_id flip: out(2))
  then show "extract_category a p = Inr ids" using 1(1-4) f by (simp add: extract_category_def)
qed

lemma extract_resources_Inr:
  "extract_resources a m = Inr rs \<longleftrightarrow>
     list_all2 (\<lambda>(category, p) (category', ids). category' = category
         \<and> (\<exists>S. selects a p S \<and> S \<noteq> {} \<and> (\<forall>i \<in> S. is_identifier i \<and> length i \<le> 512) \<and> ids = sorted_list_of_set S))
       (elems (mp_resources m)) rs"
proof -
  have "map (\<lambda>(c, p). rbind (extract_category a p) (\<lambda>ids. Inr (c, ids))) cps = map Inr rs \<longleftrightarrow>
      list_all2 (\<lambda>(c, p) (c', ids). c' = c \<and> extract_category a p = Inr ids) cps rs" for cps
  proof (induction cps arbitrary: rs)
    case (Cons cp cps)
    then show ?case by (cases rs; cases cp) (auto simp: rbind_eq_Inr)
  qed auto
  then show ?thesis unfolding extract_resources_def map_result_Inr by (simp add: extract_category_exact)
qed

text \<open>
  C31: the gateway asks for exactly the resources that its trusted mapping selects from the call's
  arguments: for each category the ids under its pointer, each a concrete id of at most 512 bytes,
  sorted and without repetition; and it extracts them whenever they are all of that form.
\<close>

theorem extract_exact:
  "extract_resources a m = Inr rs \<longleftrightarrow>
     list_all2 (\<lambda>(category, p) (category', ids). category' = category
         \<and> (\<exists>S. selects a p S \<and> S \<noteq> {} \<and> (\<forall>i \<in> S. is_identifier i \<and> length i \<le> 512) \<and> ids = sorted_list_of_set S))
       (elems (mp_resources m)) rs"
  by (rule extract_resources_Inr)

text \<open>The mapping of \<open>examples/gateway-tools.json\<close> for refunds.\<close>

definition refund_mapping :: mapping where
  "refund_mapping =
     \<lparr>mp_action = ''refunds.create'', mp_resources = Some [(''orders'', ''/order_id'')],
      mp_classes = Some [''payment_metadata'']\<rparr>"

lemma refund_names:
  "is_identifier ''48319''" "is_identifier ''refund.create''" "is_identifier ''refunds.create''" "is_identifier ''orders''"
  "is_identifier ''payment_metadata''"
  by code_simp+

lemma order_pointer: "make_pointer [''order_id''] = ''/order_id''"
  by code_simp

lemma refund_extracted:
  "extract_resources (JObj [(''order_id'', JStr ''48319''), (''amount'', JNum ''825'')]) refund_mapping
    = Inr [(''orders'', [''48319''])]"
proof -
  have "selects (JObj [(''order_id'', JStr ''48319''), (''amount'', JNum ''825'')]) ''/order_id'' {''48319''}"
    unfolding selects_def order_pointer [symmetric]
    by (intro exI [of _ "[''order_id'']"] exI [of _ "JStr ''48319''"] exI [of _ "[''48319'']"]) simp
  then show ?thesis
    unfolding extract_resources_Inr refund_mapping_def using refund_names(1)
    by (auto intro!: exI [of _ "{''48319''}"])
qed

theorem extract_exact_witness:
  "extract_resources (JObj [(''order_id'', JStr ''48319''), (''amount'', JNum ''825'')]) refund_mapping
    = Inr [(''orders'', [''48319''])]"
proof -
  have "selects (JObj [(''order_id'', JStr ''48319''), (''amount'', JNum ''825'')]) ''/order_id'' {''48319''}"
    unfolding selects_def order_pointer [symmetric]
    by (intro exI [of _ "[''order_id'']"] exI [of _ "JStr ''48319''"] exI [of _ "[''48319'']"]) simp
  then show ?thesis
    unfolding extract_exact refund_mapping_def using refund_names(1)
    by (auto intro!: exI [of _ "{''48319''}"])
qed

text \<open>What the control API will find in a request built from an extraction.\<close>

lemma extract_concrete:
  assumes "extract_resources a m = Inr rs" and "(category, ids) \<in> set rs"
  shows "ids \<noteq> []" and "\<forall>i \<in> set ids. concrete_id i" and "\<exists>p. (category, p) \<in> set (elems (mp_resources m))"
proof -
  obtain k where k: "k < length rs" "rs ! k = (category, ids)" using assms(2) by (metis in_set_conv_nth)
  from assms(1) have l: "length (elems (mp_resources m)) = length rs"
    and n: "\<And>k. k < length rs \<Longrightarrow> (\<lambda>(category, p) (category', ids). category' = category
         \<and> (\<exists>S. selects a p S \<and> S \<noteq> {} \<and> (\<forall>i \<in> S. is_identifier i \<and> length i \<le> 512) \<and> ids = sorted_list_of_set S))
       (elems (mp_resources m) ! k) (rs ! k)"
    unfolding extract_resources_Inr by (auto simp: list_all2_conv_all_nth)
  obtain c p where c: "elems (mp_resources m) ! k = (c, p)" by fastforce
  obtain S where S: "c = category" "selects a p S" "S \<noteq> {}" "\<forall>i \<in> S. is_identifier i" "ids = sorted_list_of_set S"
    using n [OF k(1)] k(2) c by auto
  have "finite S" using S(2) by (auto simp: selects_def)
  then show "ids \<noteq> []" "\<forall>i \<in> set ids. concrete_id i" using S by (auto simp: identifier_concrete)
  show "\<exists>p. (category, p) \<in> set (elems (mp_resources m))" using c S(1) k(1) l by (metis nth_mem)
qed

lemma check_all:
  "rbind (map_result f xs) (\<lambda>_. y) = Inr z \<longleftrightarrow> (\<forall>x \<in> set xs. f x = Inr ()) \<and> y = Inr z"
  by (induction xs) (auto simp: rbind_eq_Inr)

lemma if_error: "(if b then Inl e else Inr ()) = Inr () \<longleftrightarrow> \<not> b"
  by simp

lemma config_validate_iff:
  "config_validate c = Inr () \<longleftrightarrow>
     length (elems (cf_tools c)) \<in> {1..256}
     \<and> (\<forall>(name, m) \<in> set (elems (cf_tools c)). is_identifier name \<and> is_identifier (mp_action m)
          \<and> elems (mp_resources m) \<noteq> []
          \<and> (\<forall>(category, p) \<in> set (elems (mp_resources m)).
               is_identifier category \<and> CHR '':'' \<notin> set category \<and> (\<exists>ts. ts \<noteq> [] \<and> p = make_pointer ts))
          \<and> (\<forall>class \<in> set (elems (mp_classes m)). is_identifier class))"
proof -
  have res: "check_mapping_resource name cp = Inr () \<longleftrightarrow>
      (\<lambda>(category, p). is_identifier category \<and> CHR '':'' \<notin> set category \<and> (\<exists>ts. ts \<noteq> [] \<and> p = make_pointer ts)) cp"
    for name cp
    by (cases "pointer_tokens (snd cp)"; cases cp) (auto simp: check_mapping_resource_def pointer_tokens_iff [symmetric])
  have tool: "check_tool nm = Inr () \<longleftrightarrow>
      (\<lambda>(name, m). is_identifier name \<and> is_identifier (mp_action m) \<and> elems (mp_resources m) \<noteq> []
        \<and> (\<forall>cp \<in> set (elems (mp_resources m)). check_mapping_resource name cp = Inr ())
        \<and> (\<forall>class \<in> set (elems (mp_classes m)). is_identifier class)) nm" for nm
    by (cases nm) (auto simp: check_tool_def check_all if_error)
  show ?thesis
    by (auto simp: config_validate_def check_all tool [unfolded res] Suc_le_eq split: prod.splits)
qed

text \<open>
  C32: \<open>Validate\<close> accepts exactly the configurations with 1 to 256 tools, each under an exact name and
  action, with at least one resource, categories without a colon, well-formed pointers and exact data
  classes.
\<close>

theorem config_validate_exact:
  "config_validate c = Inr () \<longleftrightarrow>
     length (elems (cf_tools c)) \<in> {1..256}
     \<and> (\<forall>(name, m) \<in> set (elems (cf_tools c)). is_identifier name \<and> is_identifier (mp_action m)
          \<and> elems (mp_resources m) \<noteq> []
          \<and> (\<forall>(category, p) \<in> set (elems (mp_resources m)).
               is_identifier category \<and> CHR '':'' \<notin> set category \<and> (\<exists>ts. ts \<noteq> [] \<and> p = make_pointer ts))
          \<and> (\<forall>class \<in> set (elems (mp_classes m)). is_identifier class))"
  by (rule config_validate_iff)

lemma config_accepted: "config_validate \<lparr>cf_tools = Some [(''refund.create'', refund_mapping)]\<rparr> = Inr ()"
  unfolding config_validate_iff refund_mapping_def using refund_names order_pointer
  by (auto intro!: exI [of _ "[''order_id'']"])

theorem config_validate_exact_witness:
  "config_validate \<lparr>cf_tools = Some [(''refund.create'', refund_mapping)]\<rparr> = Inr ()"
  unfolding config_validate_exact refund_mapping_def using refund_names order_pointer
  by (auto intro!: exI [of _ "[''order_id'']"])

end
