(* ===== verification/Telemetry.thy ===== *)
theory Telemetry
  imports Json_Inject
begin

text \<open>
  Trace contexts (\<open>internal/telemetry/trace.go\<close>): parsing a \<open>traceparent\<close> header, starting a span
  below it, and the header of a span.  Random ids are arguments.
\<close>

record span =
  sp_trace :: string
  sp_id :: string
  sp_parent :: string
  sp_flags :: string

definition no_span :: span where
  "no_span = \<lparr>sp_trace = [], sp_id = [], sp_parent = [], sp_flags = []\<rparr>"

definition hex_lower :: "string \<Rightarrow> bool" where
  "hex_lower s \<longleftrightarrow> (\<forall>c \<in> set s. 48 \<le> byte c \<and> byte c \<le> 57 \<or> 97 \<le> byte c \<and> byte c \<le> 102)"

definition zeros :: "nat \<Rightarrow> string" where
  "zeros n = replicate n (CHR ''0'')"

text \<open>The regular expression \<open>^00-([0-9a-f]{32})-([0-9a-f]{16})-([0-9a-f]{2})$\<close>.\<close>

definition match_parent :: "string \<Rightarrow> (string \<times> string \<times> string) option" where
  "match_parent p =
     (case split_on (CHR ''-'') p of
        [v, t, i, f] \<Rightarrow>
          if v = ''00'' \<and> length t = 32 \<and> hex_lower t \<and> length i = 16 \<and> hex_lower i \<and> length f = 2 \<and> hex_lower f
          then Some (t, i, f) else None
      | _ \<Rightarrow> None)"

definition parse_parent :: "string \<Rightarrow> span option" where
  "parse_parent p =
     (case match_parent p of
        None \<Rightarrow> None
      | Some (t, i, f) \<Rightarrow>
          if t = zeros 32 \<or> i = zeros 16 then None
          else Some \<lparr>sp_trace = t, sp_id = i, sp_parent = [], sp_flags = f\<rparr>)"

text \<open>
  \<open>Start\<close>: the parent comes from the header or else from the context (\<open>current\<close>, \<open>no_span\<close> when there
  is none).  \<open>trace_rand\<close> and \<open>span_rand\<close> are the random bytes.
\<close>

definition start_span :: "string \<Rightarrow> string \<Rightarrow> span \<Rightarrow> string \<Rightarrow> span" where
  "start_span trace_rand span_rand current parent =
     (let p = (case parse_parent parent of None \<Rightarrow> current | Some p \<Rightarrow> p)
      in if sp_trace p = []
         then \<lparr>sp_trace = hex_encode trace_rand, sp_id = hex_encode span_rand, sp_parent = sp_id p, sp_flags = ''01''\<rparr>
         else \<lparr>sp_trace = sp_trace p, sp_id = hex_encode span_rand, sp_parent = sp_id p, sp_flags = sp_flags p\<rparr>)"

definition span_header :: "span \<Rightarrow> string" where
  "span_header s =
     (if sp_trace s = [] then []
      else ''00-'' @ sp_trace s @ ''-'' @ sp_id s @ ''-'' @ sp_flags s)"

text \<open>\<open>End\<close>: the log record of a span, when there is a logger; \<open>ms\<close> is the elapsed time.\<close>

definition end_span :: "bool \<Rightarrow> string \<Rightarrow> string \<Rightarrow> string \<Rightarrow> json \<Rightarrow> span \<Rightarrow> (string \<times> (string \<times> json) list) option" where
  "end_span logger service name outcome ms s =
     (if \<not> logger then None
      else Some (''trace.span'',
        [(''service'', JStr service), (''name'', JStr name), (''trace_id'', JStr (sp_trace s)), (''span_id'', JStr (sp_id s)),
         (''parent_span_id'', JStr (sp_parent s)), (''duration_ms'', ms), (''outcome'', JStr outcome)]))"

section \<open>Properties\<close>

text \<open>A span that can be sent to others: its header has the form that \<open>Parse\<close> accepts.\<close>

definition proper_span :: "span \<Rightarrow> bool" where
  "proper_span s \<longleftrightarrow>
     length (sp_trace s) = 32 \<and> hex_lower (sp_trace s) \<and> sp_trace s \<noteq> zeros 32
     \<and> length (sp_id s) = 16 \<and> hex_lower (sp_id s) \<and> sp_id s \<noteq> zeros 16
     \<and> length (sp_flags s) = 2 \<and> hex_lower (sp_flags s)"

lemma hex_lower_simps [simp]: "hex_lower ''01''" "hex_lower ''00''"
  by (simp_all add: hex_lower_def byte_def)

lemma hex_lower_no_dash: "hex_lower s \<Longrightarrow> CHR ''-'' \<notin> set s"
  by (auto simp: hex_lower_def byte_def)

lemma split_plain: "c \<notin> set a \<Longrightarrow> split_on c a = [a]"
  by (induction a) auto

lemma split_append: "c \<notin> set a \<Longrightarrow> split_on c (a @ c # r) = a # split_on c r"
  by (induction a) auto

lemma match_header:
  assumes "hex_lower t" "hex_lower i" "hex_lower f" "length t = 32" "length i = 16" "length f = 2"
  shows "match_parent (''00-'' @ t @ ''-'' @ i @ ''-'' @ f) = Some (t, i, f)"
proof -
  have "split_on (CHR ''-'') (''00'' @ CHR ''-'' # t @ CHR ''-'' # i @ CHR ''-'' # f) = [''00'', t, i, f]"
    using assms by (simp add: split_append split_plain hex_lower_no_dash del: append.simps)
  then show ?thesis using assms by (simp add: match_parent_def)
qed

lemma parse_parent_proper: "parse_parent p = Some s \<Longrightarrow> proper_span s \<and> sp_parent s = []"
  by (auto simp: parse_parent_def match_parent_def proper_span_def split: option.splits list.splits if_splits)

lemma parse_header:
  "proper_span s \<Longrightarrow> parse_parent (span_header s) = Some (s\<lparr>sp_parent := []\<rparr>)"
  using match_header [of "sp_trace s" "sp_id s" "sp_flags s"]
  by (cases s) (auto simp: proper_span_def parse_parent_def span_header_def)

lemma byte_hex_digit: "d < 16 \<Longrightarrow> byte (hex_digit d) = (if d < 10 then 48 + d else 87 + d)"
  by (simp add: hex_digit_def byte_def)

lemma hex_lower_encode: "hex_lower (hex_encode s)"
proof -
  have "hex_lower (hex_byte c)" for c
  proof -
    have "byte c div 16 < 16" using byte_less [of c] by (simp add: less_mult_imp_div_less)
    then show ?thesis by (auto simp: hex_lower_def hex_byte_def byte_hex_digit)
  qed
  then show ?thesis by (induction s) (auto simp: hex_encode_def hex_lower_def)
qed

lemma hex_encode_zeros:
  assumes "hex_encode s = zeros (2 * length s)"
  shows "\<forall>c \<in> set s. byte c = 0"
proof -
  have "hex_byte (CHR 0x00) = ''00''" by code_simp
  then have "hex_encode (replicate n (CHR 0x00)) = zeros (2 * n)" for n
    by (induction n) (simp_all add: hex_encode_def zeros_def)
  with assms have "s = replicate (length s) (CHR 0x00)" using hex_encode_inject by metis
  then have "\<forall>c \<in> set s. c = CHR 0x00" by (metis in_set_replicate)
  moreover have "byte (CHR 0x00) = 0" by (simp add: byte_def)
  ultimately show ?thesis by metis
qed

text \<open>
  Whatever the caller sends as \<open>traceparent\<close>, the span that is started has a well-formed header, which
  parses to that span; a malformed header is replaced, never propagated.
\<close>

theorem started_spans_parse:
  assumes "current = no_span \<or> proper_span current"
    and "length trace_rand = 16" and "length span_rand = 8"
    and "\<exists>c \<in> set trace_rand. byte c \<noteq> 0" and "\<exists>c \<in> set span_rand. byte c \<noteq> 0"
  shows "parse_parent (span_header (start_span trace_rand span_rand current parent))
    = Some ((start_span trace_rand span_rand current parent)\<lparr>sp_parent := []\<rparr>)"
proof (rule parse_header)
  have "hex_encode span_rand \<noteq> zeros 16" "hex_encode trace_rand \<noteq> zeros 32"
    using hex_encode_zeros [of span_rand] hex_encode_zeros [of trace_rand] assms(2-5) by auto
  moreover have "sp_trace p \<noteq> []" if "proper_span p" for p using that by (auto simp: proper_span_def)
  ultimately show "proper_span (start_span trace_rand span_rand current parent)"
    using assms(1-3) parse_parent_proper [of parent] length_hex_encode hex_lower_encode
    by (cases "parse_parent parent") (auto simp: start_span_def Let_def proper_span_def no_span_def)
qed

theorem started_spans_parse_witness:
  "\<exists>h. parse_parent h \<noteq> None
    \<and> h = span_header (start_span (replicate 16 (CHR ''t'')) (replicate 8 (CHR ''s'')) no_span ''not a traceparent'')"
proof -
  let ?s = "start_span (replicate 16 (CHR ''t'')) (replicate 8 (CHR ''s'')) no_span ''not a traceparent''"
  have "parse_parent (span_header ?s) = Some (?s\<lparr>sp_parent := []\<rparr>)"
    by (rule started_spans_parse) (simp_all add: byte_def)
  then show ?thesis by (intro exI [of _ "span_header ?s"]) simp
qed

text \<open>A caller's trace is continued exactly when its header is well-formed.\<close>

lemma start_continues:
  "parse_parent parent = Some p \<Longrightarrow>
     sp_trace (start_span tr sr current parent) = sp_trace p \<and> sp_parent (start_span tr sr current parent) = sp_id p"
  using parse_parent_proper [of parent p] by (auto simp: start_span_def proper_span_def)

end
