(* ===== verification/Authorize.thy ===== *)
theory Authorize
  imports Gateway_Config Bodies Telemetry
begin

text \<open>
  The gateway's client of the control API (\<open>internal/gateway/authorize.go\<close>) and the credentials it
  gives to upstream servers (\<open>transport.go\<close>).  \<open>url.Parse\<close> and \<open>net.ParseIP\<close> are arguments; an HTTP
  exchange is a function of the request and the state of the world.
\<close>

section \<open>Requests for authorization\<close>

record gw_action =
  ga_envelope :: string
  ga_agent :: string
  ga_tool :: string
  ga_resources :: "string slice gomap"
  ga_classes :: "string slice"
  ga_arguments :: "json gomap"

definition encode_gw_action :: "gw_action \<Rightarrow> json" where
  "encode_gw_action a =
     JObj [(''envelope_id'', JStr (ga_envelope a)), (''agent_id'', JStr (ga_agent a)), (''tool'', JStr (ga_tool a)),
           (''resources'', encode_resources (ga_resources a)), (''data_classes'', json_strings (ga_classes a)),
           (''arguments'', case ga_arguments a of None \<Rightarrow> JNull | Some kvs \<Rightarrow> sort_keys (JObj kvs))]"

definition marshal_gw_action :: "gw_action \<Rightarrow> string" where
  "marshal_gw_action a = print_json (encode_gw_action a)"

record http_request =
  hq_url :: string
  hq_headers :: "(string \<times> string) list"
  hq_body :: string

section \<open>Receipts\<close>

record authorization =
  au_action :: string
  au_result :: result
  au_consumed :: "string slice"

definition zero_authorization :: authorization where
  "zero_authorization = \<lparr>au_action = [], au_result = \<lparr>decision = [], violations = []\<rparr>, au_consumed = None\<rparr>"

definition decode_violation :: "violation field" where
  "decode_violation = decode_struct True
     [(''code'', at_field v_code (\<lambda>x v. Violation x (v_field v) (v_message v)) decode_string),
      (''field'', at_field v_field (\<lambda>x v. Violation (v_code v) x (v_message v)) decode_string),
      (''message'', at_field v_message (\<lambda>x v. Violation (v_code v) (v_field v) x) decode_string)]"

text \<open>The slice of violations: only its elements matter, nil and empty are the same.\<close>

definition decode_result :: "result field" where
  "decode_result = decode_struct True
     [(''decision'', at_field decision (\<lambda>x. decision_update (\<lambda>_. x)) decode_string),
      (''violations'', at_field (\<lambda>r. Some (violations r)) (\<lambda>x. violations_update (\<lambda>_. elems x))
         (decode_slice decode_violation (Violation [] [] [])))]"

definition authorization_fields :: "(string \<times> authorization field) list" where
  "authorization_fields =
     [(''action_id'', at_field au_action (\<lambda>x. au_action_update (\<lambda>_. x)) decode_string),
      (''result'', at_field au_result (\<lambda>x. au_result_update (\<lambda>_. x)) decode_result),
      (''consumed_approval_ids'', at_field au_consumed (\<lambda>x. au_consumed_update (\<lambda>_. x)) decode_strings)]"

definition decode_authorization :: "authorization field" where
  "decode_authorization = decode_struct True authorization_fields"

text \<open>What \<open>Authorize\<close> makes of a response; \<open>None\<close> is a failed exchange.\<close>

definition read_receipt :: "(string \<Rightarrow> string) \<Rightarrow> (nat \<times> string) option \<Rightarrow> string + authorization" where
  "read_receipt lower response =
     (case response of
        None \<Rightarrow> Inl ''authorization service unavailable''
      | Some (status, body) \<Rightarrow>
          if status \<noteq> 200 \<and> status \<noteq> 403
          then Inl (''authorization service returned HTTP '' @ show_nat status)
          else if length body > 1048576 then Inl ''invalid authorization response''
          else (case rbind (strict_decode lower body) (\<lambda>v. decode_authorization v zero_authorization) of
              Inl e \<Rightarrow> Inl ''invalid authorization response''
            | Inr a \<Rightarrow>
                if au_action a = [] then Inl ''authorization response missing action receipt''
                else if status = 200 \<and> decision (au_result a) = ALLOW \<and> violations (au_result a) = [] then Inr a
                else if status = 403 \<and> decision (au_result a) = DENY then Inr a
                else Inl ''inconsistent authorization response''))"

section \<open>The client\<close>

record url =
  u_scheme :: string
  u_host :: string
  u_hostname :: string
  u_user :: bool
  u_query :: string
  u_fragment :: string

record net =
  net_parse :: "string \<Rightarrow> url option"
  net_loopback :: "string \<Rightarrow> bool"

definition validate_url :: "net \<Rightarrow> string \<Rightarrow> string + unit" where
  "validate_url n raw =
     (case net_parse n raw of
        None \<Rightarrow> Inl ''invalid server URL''
      | Some u \<Rightarrow>
          if u_host u = [] \<or> u_user u \<or> u_fragment u \<noteq> [] then Inl ''invalid server URL''
          else if u_scheme u = ''https'' then Inr ()
          else if u_scheme u = ''http'' \<and> (u_hostname u = ''localhost'' \<or> net_loopback n (u_hostname u)) then Inr ()
          else Inl ''use HTTPS, or HTTP on loopback for local development'')"

definition trim_right_slashes :: "string \<Rightarrow> string" where
  "trim_right_slashes s = rev (dropWhile (\<lambda>c. c = CHR ''/'') (rev s))"

record authorizer =
  az_endpoint :: string
  az_token :: string

definition new_authorizer :: "net \<Rightarrow> string \<Rightarrow> string \<Rightarrow> string + authorizer" where
  "new_authorizer n base token =
     rbind (validate_url n base) (\<lambda>_.
       if (case net_parse n base of None \<Rightarrow> False | Some u \<Rightarrow> u_query u \<noteq> [])
       then Inl ''control API base URL must not contain a query''
       else if length token < 32 then Inl ''HANDOFFGUARD_API_TOKEN must be at least 32 bytes''
       else Inr \<lparr>az_endpoint = trim_right_slashes base @ ''/v1/evaluate/action'', az_token = token\<rparr>)"

definition authorize_request :: "authorizer \<Rightarrow> string \<Rightarrow> gw_action \<Rightarrow> http_request" where
  "authorize_request az traceparent a =
     \<lparr>hq_url = az_endpoint az,
      hq_headers = [(''Authorization'', ''Bearer '' @ az_token az), (''Content-Type'', ''application/json'')]
        @ (if traceparent \<noteq> [] then [(''traceparent'', traceparent)] else []),
      hq_body = marshal_gw_action a\<rparr>"

definition authorize ::
  "(string \<Rightarrow> string) \<Rightarrow> (http_request \<Rightarrow> 'w \<Rightarrow> (nat \<times> string) option \<times> 'w) \<Rightarrow> authorizer \<Rightarrow> string
    \<Rightarrow> gw_action \<Rightarrow> 'w \<Rightarrow> (string + authorization) \<times> 'w" where
  "authorize lower send az traceparent a w =
     (case send (authorize_request az traceparent a) w of (response, w) \<Rightarrow> (read_receipt lower response, w))"

section \<open>Credentials of the upstream (transport.go)\<close>

text \<open>
  \<open>lookup\<close> is \<open>os.LookupEnv\<close>.  \<open>strings.ToUpper\<close> changes no rune outside ASCII into a letter of the
  reserved prefix, so only ASCII letters are raised for its test.
\<close>

definition allowed_names :: "string list" where
  "allowed_names =
     [''PATH'', ''HOME'', ''TMPDIR'', ''TEMP'', ''TMP'', ''LANG'', ''LC_ALL'', ''SYSTEMROOT'', ''USERPROFILE'']"

definition reserved_name :: "string \<Rightarrow> bool" where
  "reserved_name name \<longleftrightarrow> prefix ''HANDOFFGUARD_'' (map ascii_upper name)"

definition name_step :: "string \<Rightarrow> string list \<Rightarrow> string + string list" where
  "name_step name names =
     (if name = [] \<or> contains_any name [CHR ''='', CHR 0x00] \<or> reserved_name name
      then Inl ''invalid or reserved upstream environment variable''
      else Inr (if name \<in> set names then names else names @ [name]))"

definition upstream_environment :: "(string \<Rightarrow> string option) \<Rightarrow> string list \<Rightarrow> string + string list" where
  "upstream_environment lookup extra =
     rbind (fold_result name_step extra allowed_names) (\<lambda>names.
       Inr (sort (concat (map (\<lambda>name. case lookup name of None \<Rightarrow> [] | Some v \<Rightarrow> [name @ ''='' @ v]) names))))"

text \<open>\<open>bearerTransport.RoundTrip\<close>: header names are in canonical form.\<close>

definition bearer_headers :: "string \<Rightarrow> (string \<times> string) list \<Rightarrow> (string \<times> string) list" where
  "bearer_headers token hs =
     filter (\<lambda>h. fst h \<noteq> ''Authorization'') hs
     @ (if token \<noteq> [] then [(''Authorization'', ''Bearer '' @ token)] else [])"

section \<open>What arrives at the control API\<close>

text \<open>A value that passes the gateway's check also passes the control API's, sorted or not.\<close>

lemma server_walker_simps [simp]:
  "wk_limit (server_walker lower) = None" "wk_fold (server_walker lower) = to_lower lower"
  by (simp_all add: server_walker_def)

lemma unambiguous_weaken:
  "unambiguous (strict_walker lower) d v \<Longrightarrow> unambiguous (server_walker lower) e v"
proof (induction v arbitrary: d e)
  case (JArr vs)
  then show ?case by (auto simp: strict_walker_def)
next
  case (JObj kvs)
  have "unambiguous (server_walker lower) (e + 1) v" if "(k, v) \<in> set kvs" for k v
    using JObj.IH [OF that, of v "d + 1" "e + 1"] JObj.prems that by auto
  with JObj.prems show ?case by (auto simp: strict_walker_def)
qed simp_all

lemma distinct_sorted_entries:
  fixes kvs :: "(string \<times> 'a) list"
  shows "distinct (map (f \<circ> fst) (sort_key fst (map (\<lambda>(k, v). (k, g v)) kvs))) \<longleftrightarrow> distinct (map (f \<circ> fst) kvs)"
proof -
  have e: "mset (map (f \<circ> fst) (map (\<lambda>(k, v). (k, g v)) kvs)) = mset (map (f \<circ> fst) kvs)"
    by (rule arg_cong [of _ _ mset]) auto
  then have "mset (map (f \<circ> fst) (sort_key fst (map (\<lambda>(k, v). (k, g v)) kvs))) = mset (map (f \<circ> fst) kvs)"
    unfolding e [symmetric] by (simp only: mset_map mset_sort)
  then show ?thesis by (rule mset_eq_imp_distinct_iff)
qed

lemma unambiguous_sort_keys:
  "unambiguous (server_walker lower) d v \<Longrightarrow> unambiguous (server_walker lower) e (sort_keys v)"
proof (induction v arbitrary: d e)
  case (JArr vs)
  then show ?case by auto
next
  case (JObj kvs)
  let ?s = "sort_key fst (map (\<lambda>(k, v). (k, sort_keys v)) kvs)" and ?f = "wk_fold (server_walker lower) \<circ> fst"
  have "distinct (map ?f kvs)" using JObj.prems by simp
  then have "distinct (map ?f ?s)" by (simp only: distinct_sorted_entries)
  moreover have "unambiguous (server_walker lower) (e + 1) (sort_keys v)" if "(k, v) \<in> set kvs" for k v
    using JObj.IH [OF that, of v "d + 1" "e + 1"] JObj.prems that by auto
  ultimately show ?case by auto
qed simp_all

lemma readable_sort_keys: "readable n v \<Longrightarrow> readable n (sort_keys v)"
proof (induction v arbitrary: n)
  case (JObj kvs)
  have "readable (n - 1) (sort_keys v)" if "(k, v) \<in> set kvs" for k v
    using JObj.IH [OF that, of v "n - 1"] JObj.prems that by auto
  with JObj.prems show ?case by auto
qed auto

text \<open>An action with valid text, resources under distinct categories and arguments that were decoded strictly.\<close>

definition sendable :: "(string \<Rightarrow> string) \<Rightarrow> gw_action \<Rightarrow> bool" where
  "sendable lower a \<longleftrightarrow>
     valid_utf8 (ga_envelope a) \<and> valid_utf8 (ga_agent a) \<and> valid_utf8 (ga_tool a)
     \<and> distinct (map (to_lower lower \<circ> fst) (elems (ga_resources a)))
     \<and> (\<forall>(k, v) \<in> set (elems (ga_resources a)). valid_utf8 k \<and> utf8_slice v)
     \<and> utf8_slice (ga_classes a)
     \<and> (\<exists>kvs. ga_arguments a = Some kvs \<and> readable 9999 (JObj kvs) \<and> unambiguous (strict_walker lower) 0 (JObj kvs))"

definition sorted_members :: "(string \<times> json) list \<Rightarrow> (string \<times> json) list" where
  "sorted_members kvs = sort_key fst (map (\<lambda>(k, v). (k, sort_keys v)) kvs)"

text \<open>The request the control API decodes from it.\<close>

definition received :: "gw_action \<Rightarrow> action_request" where
  "received a =
     \<lparr>ac_envelope = ga_envelope a, ac_agent = ga_agent a, ac_tool = ga_tool a,
      ac_resources = map_option (sort_key fst) (ga_resources a), ac_classes = ga_classes a,
      ac_arguments = map_option sorted_members (ga_arguments a)\<rparr>"

lemma unambiguous_leaf:
  "unambiguous (server_walker lower) d (JStr s)" "unambiguous (server_walker lower) d (json_strings x)"
  "unambiguous (server_walker lower) d JNull"
  by (auto simp: json_strings_def split: option.split)

lemma unambiguous_resources:
  assumes "distinct (map (to_lower lower \<circ> fst) (elems m))"
  shows "unambiguous (server_walker lower) d (encode_resources m)"
proof (cases m)
  case (Some kvs)
  let ?s = "sort_key fst (map (\<lambda>(k, v). (k, json_strings v)) kvs)"
  have "distinct (map (to_lower lower \<circ> fst) ?s)"
    using assms Some by (simp only: distinct_sorted_entries elems.simps)
  then show ?thesis
    using Some unambiguous_leaf(2) [of lower] by (auto simp: encode_resources_def)
qed (simp add: encode_resources_def)

lemma sendable_unambiguous:
  assumes "sendable lower a"
  shows "unambiguous (server_walker lower) 0 (encode_gw_action a)"
proof -
  have names: "distinct (map (to_lower lower) [''envelope_id'', ''agent_id'', ''tool'', ''resources'', ''data_classes'', ''arguments''])"
    by code_simp
  obtain kvs where "ga_arguments a = Some kvs" "unambiguous (strict_walker lower) 0 (JObj kvs)"
    using assms by (auto simp: sendable_def)
  then have "unambiguous (server_walker lower) 1 (case ga_arguments a of None \<Rightarrow> JNull | Some kvs \<Rightarrow> sort_keys (JObj kvs))"
    using unambiguous_sort_keys [OF unambiguous_weaken] by (simp del: sort_keys.simps unambiguous.simps)
  then show ?thesis
    using names unambiguous_resources [of lower "ga_resources a" 1] assms
    by (simp add: encode_gw_action_def unambiguous_leaf sendable_def del: sort_keys.simps)
qed

lemma sendable_readable:
  assumes "sendable lower a"
  shows "readable 10000 (encode_gw_action a)"
proof -
  have "\<forall>n \<in> set [''envelope_id'', ''agent_id'', ''tool'', ''resources'', ''data_classes'', ''arguments'']. valid_utf8 n"
    by code_simp
  note names = this [unfolded list.set ball_simps]
  obtain kvs where "ga_arguments a = Some kvs" "readable 9999 (JObj kvs)" using assms by (auto simp: sendable_def)
  then have "readable 9999 (case ga_arguments a of None \<Rightarrow> JNull | Some kvs \<Rightarrow> sort_keys (JObj kvs))"
    using readable_sort_keys [of 9999 "JObj kvs"] by (simp only: option.case)
  moreover have "readable 9999 (encode_resources (ga_resources a))"
    using assms by (cases "ga_resources a") (auto simp: encode_resources_def sendable_def)
  ultimately show ?thesis
    using assms names by (simp add: encode_gw_action_def sendable_def del: sort_keys.simps)
qed

lemma decode_sent_resources:
  assumes "distinct (map fst (elems m))"
  shows "decode_map decode_strings None (encode_resources m) None = Inr (map_option (sort_key fst) m)"
proof (cases m)
  case (Some kvs)
  have "encode_resources m = encode_resources (Some (sort_key fst kvs))"
    using assms Some encode_resources_order [of kvs "sort_key fst kvs"] by simp
  moreover have "distinct (map fst (sort_key fst kvs))"
    using assms Some by (simp add: distinct_map)
  ultimately show ?thesis
    using decode_encoded_resources [of "Some (sort_key fst kvs)"] Some by (simp add: wf_map_def)
qed (simp add: encode_resources_def)

lemma distinct_keys: "distinct (map (f \<circ> fst) kvs) \<Longrightarrow> distinct (map fst kvs)"
  by (metis distinct_map list.map_comp)

lemma sendable_decodes:
  assumes "sendable (cd_lower cd) a"
  shows "action_fields (encode_gw_action a) zero_action = Inr (received a)"
proof -
  obtain kvs where k: "ga_arguments a = Some kvs" "distinct (map (wk_fold (strict_walker (cd_lower cd)) \<circ> fst) kvs)"
    using assms by (auto simp: sendable_def)
  have "distinct (map fst (sorted_members kvs))"
    using distinct_keys [OF k(2)] distinct_sorted_entries [of id sort_keys kvs] by (simp add: sorted_members_def)
  then have "decode_map decode_any JNull (sort_keys (JObj kvs)) None = Inr (Some (sorted_members kvs))"
    using decode_any_members [of "sorted_members kvs"] by (simp add: sorted_members_def)
  moreover have "decode_map decode_strings None (encode_resources (ga_resources a)) None
      = Inr (map_option (sort_key fst) (ga_resources a))"
    by (rule decode_sent_resources) (use assms distinct_keys in \<open>auto simp: sendable_def\<close>)
  ultimately show ?thesis
    using k(1) by (simp add: action_fields_def encode_gw_action_def decode_known at_field_def zero_action_def
        received_def del: sort_keys.simps decode_map.simps)
qed

lemma transmitted:
  assumes "sendable (cd_lower cd) a" and "length (marshal_gw_action a) \<le> 1048576"
  shows "action_body cd (marshal_gw_action a) = PostAction (Inr (received a))"
proof -
  have "parse_document (marshal_gw_action a) = Some (encode_gw_action a)"
    unfolding marshal_gw_action_def by (rule document_printed) (rule sendable_readable [OF assms(1)])
  then have "decode_body cd action_fields zero_action (marshal_gw_action a) = Inr (received a)"
    unfolding decode_body_Inr body_limit_def
    using sendable_unambiguous [OF assms(1)] sendable_decodes [OF assms(1)] assms(2) by blast
  then show ?thesis by (simp add: action_body_def)
qed

text \<open>
  C36: the control API decides on the very action the gateway sends: an action whose arguments the gateway
  decoded strictly and whose text is valid UTF-8 is marshalled to a body that the API accepts and decodes
  to the same envelope, agent, tool, resources, data classes and arguments (maps in key order), as long as
  the body keeps to 1 MiB.
\<close>

theorem action_transmitted:
  assumes "sendable (cd_lower cd) a" and "length (marshal_gw_action a) \<le> 1048576"
  shows "action_body cd (marshal_gw_action a) = PostAction (Inr (received a))"
  using assms by (rule transmitted)

section \<open>What comes back\<close>

text \<open>The bodies \<open>writeJSON\<close> sends for an action: a map, so its keys are sorted.\<close>

definition write_json :: "json \<Rightarrow> string" where
  "write_json v = print_json v @ [CHR 0x0A]"

definition encode_action_response :: "string \<Rightarrow> result \<Rightarrow> string list \<Rightarrow> json" where
  "encode_action_response i res ids =
     JObj [(''action_id'', JStr i), (''consumed_approval_ids'', json_names ids), (''result'', encode_result res)]"

definition encode_error :: "string \<Rightarrow> json" where
  "encode_error message = JObj [(''error'', JStr message)]"

text \<open>An error is never taken for a receipt: its status is not 200, and its body has no receipt.\<close>

lemma read_receipt_Inr:
  assumes "read_receipt lower response = Inr a"
  obtains status body where "response = Some (status, body)" and "au_action a \<noteq> []"
    and "status = 200 \<and> decision (au_result a) = ALLOW \<and> violations (au_result a) = []
      \<or> status = 403 \<and> decision (au_result a) = DENY"
  using assms by (auto simp: read_receipt_def Let_def split: option.splits sum.splits if_splits)

lemma decode_encoded_violation: "decode_violation (encode_violation v) w = Inr v"
  by (cases v) (simp add: decode_violation_def encode_violation_def decode_known at_field_def)

lemma decode_encoded_result: "decode_result (encode_result r) s = Inr r"
proof -
  have "decode_elems decode_violation (Violation [] [] []) (map encode_violation vs) olds = Inr vs" for vs olds
    by (induction vs arbitrary: olds) (auto simp: decode_encoded_violation)
  then show ?thesis
    by (cases r; cases s) (simp add: decode_result_def encode_result_def decode_known at_field_def)
qed

lemma decode_json_names: "decode_strings (json_names ids) t = Inr (Some ids)"
  using decode_json_strings [of "Some ids" t] by (simp add: json_strings_def json_names_def)

definition utf8_result :: "result \<Rightarrow> bool" where
  "utf8_result r \<longleftrightarrow> valid_utf8 (decision r)
     \<and> (\<forall>v \<in> set (violations r). valid_utf8 (v_code v) \<and> valid_utf8 (v_field v) \<and> valid_utf8 (v_message v))"

lemma receipt_parses:
  assumes "valid_utf8 i" and "\<forall>x \<in> set ids. valid_utf8 x" and "utf8_result res"
  shows "strict_decode lower (write_json (encode_action_response i res ids)) = Inr (encode_action_response i res ids)"
proof -
  have "\<forall>n \<in> set [''action_id'', ''consumed_approval_ids'', ''result'', ''decision'', ''violations'', ''code'', ''field'', ''message'']. valid_utf8 n"
    by code_simp
  note names = this [unfolded list.set ball_simps]
  have "readable 10000 (encode_action_response i res ids)"
    using assms names
    by (simp add: encode_action_response_def json_names_def encode_result_def encode_violation_def utf8_result_def)
  then have p: "parse_document (write_json (encode_action_response i res ids)) = Some (encode_action_response i res ids)"
    unfolding write_json_def encode_action_response_def by (rule line_printed)
  have "distinct (map (to_lower lower) [''action_id'', ''consumed_approval_ids'', ''result''])"
    "distinct (map (to_lower lower) [''decision'', ''violations''])"
    "distinct (map (to_lower lower) [''code'', ''field'', ''message''])"
    by code_simp+
  moreover have "wk_limit (strict_walker lower) = Some 64" "wk_fold (strict_walker lower) = to_lower lower"
    by (simp_all add: strict_walker_def)
  ultimately have "unambiguous (strict_walker lower) 0 (encode_action_response i res ids)"
    by (simp add: encode_action_response_def json_names_def encode_result_def encode_violation_def)
  with p show ?thesis unfolding strict_decode_def checked_value_Inr by blast
qed

lemma receipt_read:
  assumes "valid_utf8 i" and "i \<noteq> []" and "\<forall>x \<in> set ids. valid_utf8 x" and "utf8_result res"
    and "length (write_json (encode_action_response i res ids)) \<le> 1048576"
    and "(status, decision res, violations res = []) = (200, ALLOW, True) \<or> (status, decision res) = (403, DENY)"
  shows "read_receipt lower (Some (status, write_json (encode_action_response i res ids)))
    = Inr \<lparr>au_action = i, au_result = res, au_consumed = Some ids\<rparr>"
proof -
  have "decode_authorization (encode_action_response i res ids) zero_authorization
      = Inr \<lparr>au_action = i, au_result = res, au_consumed = Some ids\<rparr>"
    by (simp add: decode_authorization_def authorization_fields_def encode_action_response_def decode_known at_field_def zero_authorization_def
        decode_encoded_result decode_json_names)
  then show ?thesis
    using receipt_parses [OF assms(1,3,4)] assms(2,5,6) by (auto simp: read_receipt_def)
qed

text \<open>
  The gateway reads the control API's verdict as it was given: the body of an action response decodes
  to exactly its action id, result and consumed approvals, and an ALLOW with status 200 or a DENY with
  status 403 is accepted as the receipt.
\<close>

theorem receipt_transmitted:
  assumes "valid_utf8 i" and "i \<noteq> []" and "\<forall>x \<in> set ids. valid_utf8 x" and "utf8_result res"
    and "length (write_json (encode_action_response i res ids)) \<le> 1048576"
    and "(status, decision res, violations res = []) = (200, ALLOW, True) \<or> (status, decision res) = (403, DENY)"
  shows "read_receipt lower (Some (status, write_json (encode_action_response i res ids)))
    = Inr \<lparr>au_action = i, au_result = res, au_consumed = Some ids\<rparr>"
  using assms by (rule receipt_read)

section \<open>Credentials\<close>

lemma name_steps:
  "fold_result name_step extra names = Inr out \<longleftrightarrow>
     (\<forall>n \<in> set extra. n \<noteq> [] \<and> \<not> contains_any n [CHR ''='', CHR 0x00] \<and> \<not> reserved_name n)
     \<and> out = fold (\<lambda>n ns. if n \<in> set ns then ns else ns @ [n]) extra names"
  by (induction extra arbitrary: names) (auto simp: name_step_def)

lemma added_names: "set (fold (\<lambda>n ns. if n \<in> set ns then ns else ns @ [n]) extra names) = set names \<union> set extra"
  by (induction extra arbitrary: names) auto

lemma allowed_not_reserved: "\<forall>n \<in> set allowed_names. \<not> reserved_name n"
  by (simp add: allowed_names_def reserved_name_def ascii_upper_def byte_def)

text \<open>
  C33: an upstream process gets exactly the variables that are allowed or named by the administrator and
  set in the gateway's environment, and none of the gateway's own: no name with the prefix HANDOFFGUARD_ in
  any case is ever passed on, so the control token stays in the gateway.
\<close>

theorem environment_separated:
  assumes "upstream_environment lookup extra = Inr env"
  shows "set env = {name @ ''='' @ v | name v. lookup name = Some v \<and> name \<in> set allowed_names \<union> set extra
    \<and> \<not> reserved_name name}"
proof -
  let ?add = "\<lambda>n ns. if n \<in> set ns then ns else ns @ [n]"
  have extra: "\<forall>n \<in> set extra. \<not> reserved_name n"
    and env: "env = sort (concat (map (\<lambda>name. case lookup name of None \<Rightarrow> [] | Some v \<Rightarrow> [name @ ''='' @ v])
      (fold ?add extra allowed_names)))"
    using assms by (auto simp: upstream_environment_def rbind_eq_Inr name_steps)
  have "set env = (\<Union>name \<in> set allowed_names \<union> set extra.
      set (case lookup name of None \<Rightarrow> [] | Some v \<Rightarrow> [name @ ''='' @ v]))"
    unfolding env by (simp add: added_names)
  moreover have "e \<in> set (case lookup n of None \<Rightarrow> [] | Some v \<Rightarrow> [n @ ''='' @ v]) \<longleftrightarrow>
      (\<exists>v. lookup n = Some v \<and> e = n @ ''='' @ v)" for e n
    by (cases "lookup n") simp_all
  ultimately have "e \<in> set env \<longleftrightarrow>
      (\<exists>name v. e = name @ ''='' @ v \<and> lookup name = Some v \<and> name \<in> set allowed_names \<union> set extra)" for e
    by (simp only: UN_iff) blast
  then show ?thesis using extra allowed_not_reserved by (intro set_eqI) (simp only: mem_Collect_eq, blast)
qed

theorem environment_separated_witness:
  "\<exists>name v. ''TOKEN=x'' = name @ ''='' @ v \<and> \<not> reserved_name name"
proof -
  let ?look = "\<lambda>n. if n = ''TOKEN'' then Some ''x'' else None"
  have "upstream_environment ?look [''TOKEN''] = Inr [''TOKEN=x'']" by code_simp
  note eq = environment_separated [OF this]
  have "''TOKEN=x'' \<in> set [''TOKEN=x'']" by (rule list.set_intros)
  from this [unfolded eq] show ?thesis by (elim CollectE exE conjE) (intro exI conjI)
qed

end
