(* ===== verification/Gateway.thy ===== *)
theory Gateway
  imports Authorize
begin

text \<open>
  The MCP gateway (\<open>internal/gateway/gateway.go\<close>): discovery of the upstream's tools and the handler of
  one tool call.  The JSON Schema compiler, the MCP library's results, the authorizer and the upstream
  are arguments; the last two change a state \<open>'w\<close> of the world.
\<close>

section \<open>Bounded numbers and schemas\<close>

text \<open>The text after the first \<open>e\<close> or \<open>E\<close>.\<close>

definition exponent_text :: "string \<Rightarrow> string option" where
  "exponent_text s =
     (case dropWhile (\<lambda>c. c \<noteq> CHR ''e'' \<and> c \<noteq> CHR ''E'') s of [] \<Rightarrow> None | c # r \<Rightarrow> Some r)"

definition bounded_literal :: "string \<Rightarrow> bool" where
  "bounded_literal s \<longleftrightarrow>
     \<not> length s > 128
     \<and> (case exponent_text s of
          None \<Rightarrow> True
        | Some t \<Rightarrow> (case parse_sized 32 t of None \<Rightarrow> False | Some e \<Rightarrow> \<not> (e < -308 \<or> e > 308)))"

fun bounded_numbers :: "json \<Rightarrow> bool" where
  "bounded_numbers (JNum s) = bounded_literal s"
| "bounded_numbers (JObj kvs) = (\<forall>(k, v) \<in> set kvs. bounded_numbers v)"
| "bounded_numbers (JArr vs) = (\<forall>v \<in> set vs. bounded_numbers v)"
| "bounded_numbers v = True"

text \<open>The JSON Schema compiler gets a loader for external references; the gateway's refuses them all.\<close>

record 'schema schemas =
  sch_compile :: "(string \<Rightarrow> string + json) \<Rightarrow> (string \<times> json) list \<Rightarrow> string + 'schema"
  sch_validate :: "'schema \<Rightarrow> json \<Rightarrow> bool"

definition deny_schema_loader :: "string \<Rightarrow> string + json" where
  "deny_schema_loader url = Inl ''external schema references are unsupported''"

definition compile_schema :: "(string \<Rightarrow> string) \<Rightarrow> 'schema schemas \<Rightarrow> string \<Rightarrow> string + 'schema" where
  "compile_schema lower sc raw =
     (if length raw > 262144 then Inl ''tool schema exceeds 256 KiB''
      else rbind (strict_decode lower raw) (\<lambda>v.
           rbind (decode_map decode_any JNull v None) (\<lambda>document.
             if \<not> bounded_numbers (JObj (elems document)) then Inl ''schema numeric limits exceeded''
             else if map_of (elems document) ''type'' \<noteq> Some (JStr ''object'')
               then Inl ''tool input schema must be an object''
             else sch_compile sc deny_schema_loader (elems document))))"

section \<open>Discovery (New)\<close>

record tool =
  tl_name :: string
  tl_title :: string
  tl_description :: string
  tl_input :: json
  tl_output :: json

record page =
  pg_tools :: "tool option list"
  pg_next :: string

record options =
  op_agent :: string
  op_envelope :: string
  op_timeout :: int

text \<open>A tool the gateway offers: what it shows of it, and what its handler closes over.\<close>

record 'schema offered =
  of_name :: string
  of_title :: string
  of_description :: string
  of_input :: string
  of_output :: json
  of_mapping :: mapping
  of_schema :: 'schema

definition encode_mapping :: "mapping \<Rightarrow> json" where
  "encode_mapping m =
     JObj [(''action'', JStr (mp_action m)),
           (''resources'', case mp_resources m of None \<Rightarrow> JNull
              | Some kvs \<Rightarrow> JObj (sort_key fst (map (\<lambda>(k, v). (k, JStr v)) kvs))),
           (''data_classes'', json_strings (mp_classes m))]"

definition pin_mapping :: "mapping \<Rightarrow> string + mapping" where
  "pin_mapping m =
     (case parse_document (print_json (encode_mapping m)) of
        None \<Rightarrow> Inl ''invalid JSON text''
      | Some v \<Rightarrow> decode_struct False mapping_fields v zero_mapping)"

record 'schema discovery =
  di_total :: nat
  di_seen :: "string list"
  di_offered :: "'schema offered list"

definition tool_step ::
  "(string \<Rightarrow> string) \<Rightarrow> 'schema schemas \<Rightarrow> config \<Rightarrow> tool option \<Rightarrow> 'schema discovery \<Rightarrow> string + 'schema discovery" where
  "tool_step lower sc c item st =
     (if Suc (di_total st) > 4096 then Inl ''upstream tool count exceeds 4096''
      else (case item of
          None \<Rightarrow> Inl ''invalid or duplicate upstream tool''
        | Some t \<Rightarrow>
            if tl_name t = [] \<or> tl_name t \<in> set (di_seen st) then Inl ''invalid or duplicate upstream tool''
            else let st = st\<lparr>di_total := Suc (di_total st), di_seen := di_seen st @ [tl_name t]\<rparr>
              in (case map_of (elems (cf_tools c)) (tl_name t) of
                    None \<Rightarrow> Inr st
                  | Some m \<Rightarrow>
                      rbind (pin_mapping m) (\<lambda>pinned.
                      rbind (wrap_error (\<lambda>e. ''unsupported input schema for '' @ tl_name t @ '': '' @ e)
                          (compile_schema lower sc (marshal_any (tl_input t)))) (\<lambda>schema.
                        Inr (st\<lparr>di_offered := di_offered st @
                          [\<lparr>of_name = tl_name t, of_title = tl_title t, of_description = tl_description t,
                            of_input = marshal_any (tl_input t), of_output = tl_output t,
                            of_mapping = pinned, of_schema = schema\<rparr>]\<rparr>))))))"

text \<open>The loop over pages; \<open>list_tools\<close> answers a cursor.  Every round but the last adds a cursor, at most 100.\<close>

function discover ::
  "(string \<Rightarrow> 'u \<Rightarrow> (string + page option) \<times> 'u) \<Rightarrow> (string \<Rightarrow> string) \<Rightarrow> 'schema schemas \<Rightarrow> config
    \<Rightarrow> string list \<Rightarrow> string \<Rightarrow> 'schema discovery \<Rightarrow> 'u \<Rightarrow> string + 'schema discovery" where
  "discover list_tools lower sc c cursors cursor st u =
     (case list_tools cursor u of
        (Inl e, u) \<Rightarrow> Inl (''upstream discovery failed: '' @ e)
      | (Inr None, u) \<Rightarrow> Inl ''upstream returned an empty discovery response''
      | (Inr (Some p), u) \<Rightarrow>
          (case fold_result (tool_step lower sc c) (pg_tools p) st of
             Inl e \<Rightarrow> Inl e
           | Inr st \<Rightarrow>
               if pg_next p = [] then Inr st
               else if pg_next p \<in> set cursors \<or> length cursors \<ge> 100 then Inl ''invalid upstream pagination''
               else discover list_tools lower sc c (cursors @ [pg_next p]) (pg_next p) st u))"
  by pat_completeness auto
termination
  by (relation "measure (\<lambda>(l, w, sc, c, cursors, r). 100 - length cursors)") auto

declare discover.simps [simp del]

definition new_gateway ::
  "(string \<Rightarrow> 'u \<Rightarrow> (string + page option) \<times> 'u) \<Rightarrow> (string \<Rightarrow> string) \<Rightarrow> 'schema schemas \<Rightarrow> config
    \<Rightarrow> options \<Rightarrow> 'u \<Rightarrow> string + 'schema offered list" where
  "new_gateway list_tools lower sc c opts u =
     rbind (config_validate c) (\<lambda>_.
       if \<not> is_identifier (op_agent opts) \<or> \<not> is_identifier (op_envelope opts)
       then Inl ''a fixed agent and envelope are required''
       else if op_timeout opts < 0 then Inl ''timeout must be positive''
       else rbind (discover list_tools lower sc c [] [] \<lparr>di_total = 0, di_seen = [], di_offered = []\<rparr> u) (\<lambda>st.
         (case find (\<lambda>(name, m). name \<notin> of_name ` set (di_offered st)) (elems (cf_tools c)) of
            Some (name, m) \<Rightarrow> Inl (''configured tool '' @ name @ '' was not discovered'')
          | None \<Rightarrow> Inr (di_offered st))))"

section \<open>One call (handler)\<close>

record call_params =
  cp_traceparent :: string
  cp_state :: string
  cp_inputs :: nat
  cp_arguments :: string

text \<open>What the gateway looks at in an upstream result; \<open>mr_json\<close> is its encoding, \<open>None\<close> if that fails.\<close>

record mcp_result =
  mr_error :: bool
  mr_needs_input :: bool
  mr_input_requests :: bool
  mr_state :: string
  mr_json :: "string option"

datatype reply = ToolError string | Passed mcp_result

text \<open>The checks before authorization, in their order: a code and a message, or the action.\<close>

definition admit ::
  "(string \<Rightarrow> string) \<Rightarrow> 'schema schemas \<Rightarrow> options \<Rightarrow> 'schema offered \<Rightarrow> call_params \<Rightarrow> (string \<times> string) + gw_action" where
  "admit lower sc opts t q =
     (if cp_state q \<noteq> [] \<or> cp_inputs q > 0
      then Inl (''UNSUPPORTED_CONTINUATION'', ''Multi-round-trip calls are not supported.'')
      else let raw = (if length (cp_arguments q) = 0 then ''{}'' else cp_arguments q)
        in if length raw > 262144 then Inl (''INVALID_ARGUMENTS'', ''Arguments exceed 256 KiB.'')
        else (case rbind (strict_decode lower raw) (\<lambda>v. decode_map decode_any JNull v None) of
            Inl e \<Rightarrow> Inl (''INVALID_ARGUMENTS'', ''Provide one JSON object without duplicate keys.'')
          | Inr None \<Rightarrow> Inl (''INVALID_ARGUMENTS'', ''Provide one JSON object without duplicate keys.'')
          | Inr (Some arguments) \<Rightarrow>
              if \<not> bounded_numbers (JObj arguments)
              then Inl (''INVALID_ARGUMENTS'', ''Numeric literals exceed supported precision or exponent limits.'')
              else if \<not> sch_validate sc (of_schema t) (JObj arguments)
              then Inl (''INVALID_ARGUMENTS'', ''Arguments do not match the advertised tool schema.'')
              else (case extract_resources (JObj arguments) (of_mapping t) of
                  Inl e \<Rightarrow> Inl (''RESOURCE_MAPPING_FAILED'', e)
                | Inr rs \<Rightarrow>
                    Inr \<lparr>ga_envelope = op_envelope opts, ga_agent = op_agent opts, ga_tool = mp_action (of_mapping t),
                         ga_resources = Some (map (\<lambda>(category, ids). (category, Some ids)) rs),
                         ga_classes = mp_classes (of_mapping t), ga_arguments = Some arguments\<rparr>)))"

definition reject_outcome :: "string \<Rightarrow> string" where
  "reject_outcome code =
     (if code = ''AUTHORIZATION_DENIED'' then ''deny''
      else if code = ''INVALID_ARGUMENTS'' \<or> code = ''RESOURCE_MAPPING_FAILED'' \<or> code = ''UNSUPPORTED_CONTINUATION''
      then ''rejected'' else ''error'')"

definition reject :: "string \<Rightarrow> string \<Rightarrow> 'w \<Rightarrow> (reply \<times> string) \<times> 'w" where
  "reject code message w = ((ToolError (code @ '': '' @ message), reject_outcome code), w)"

definition denial_message :: "violation list \<Rightarrow> string" where
  "denial_message vs =
     join '', '' (sort (map v_code vs)) @ ''. Request the required scope or approval from the operator.''"

definition unknown_outcome :: "string \<Rightarrow> string \<Rightarrow> string \<Rightarrow> reply" where
  "unknown_outcome reason i advice =
     ToolError (''UPSTREAM_OUTCOME_UNKNOWN: '' @ reason @ i @ advice)"

text \<open>What the upstream's answer becomes, with the outcome of the span.\<close>

definition upstream_reply :: "string \<Rightarrow> string + mcp_result option \<Rightarrow> reply \<times> string" where
  "upstream_reply i answer =
     (case answer of
        Inr (Some r) \<Rightarrow>
          if mr_needs_input r \<or> mr_input_requests r \<or> mr_state r \<noteq> []
          then (unknown_outcome ''Interactive continuation is unsupported; reconcile action '' i '' before retrying.'', ''error'')
          else if mr_json r = None
          then (unknown_outcome ''Invalid upstream result; reconcile action '' i '' before retrying.'', ''error'')
          else (Passed r, if mr_error r then ''error'' else ''ok'')
      | _ \<Rightarrow> (unknown_outcome ''The call was authorized but its result was not received. It may have executed; reconcile action '' i
                '' before retrying.'', ''error''))"

text \<open>
  \<open>auth\<close> is the authorizer, \<open>call\<close> the upstream, \<open>late\<close> whether the deadline has passed when the
  verdict is there; \<open>tr\<close> and \<open>sr\<close> are the random bytes of the span.
\<close>

definition handler ::
  "(string \<Rightarrow> string) \<Rightarrow> 'schema schemas \<Rightarrow> options
    \<Rightarrow> (string \<Rightarrow> gw_action \<Rightarrow> 'w \<Rightarrow> (string + authorization) \<times> 'w)
    \<Rightarrow> (string \<Rightarrow> (string \<times> json) list \<Rightarrow> 'w \<Rightarrow> (string + mcp_result option) \<times> 'w)
    \<Rightarrow> 'schema offered \<Rightarrow> call_params \<Rightarrow> string \<Rightarrow> string \<Rightarrow> bool \<Rightarrow> 'w \<Rightarrow> (reply \<times> string) \<times> 'w" where
  "handler lower sc opts auth call t q tr sr late w =
     (let parent = span_header (start_span tr sr no_span (cp_traceparent q))
      in (case admit lower sc opts t q of
            Inl (code, message) \<Rightarrow> reject code message w
          | Inr a \<Rightarrow>
              (case auth parent a w of
                 (Inl e, w) \<Rightarrow> reject ''AUTHORIZATION_UNAVAILABLE''
                   ''No tool was forwarded. Ask the operator to check the authorization service; an approval may have been consumed if its response was lost.'' w
               | (Inr d, w) \<Rightarrow>
                   if decision (au_result d) \<noteq> ALLOW \<or> violations (au_result d) \<noteq> [] \<or> au_action d = []
                   then reject ''AUTHORIZATION_DENIED'' (denial_message (violations (au_result d))) w
                   else if late
                   then reject ''AUTHORIZATION_EXPIRED''
                     ''Authorization completed after the call deadline. No tool was forwarded; an approval may have been consumed.'' w
                   else (case call (of_name t) (elems (ga_arguments a)) w of
                       (answer, w) \<Rightarrow> (upstream_reply (au_action d) answer, w)))))"

section \<open>Nothing is forwarded without a receipt\<close>

lemma admit_Inr:
  assumes "admit lower sc opts t q = Inr a"
  obtains raw kvs rs where "raw = (if cp_arguments q = [] then ''{}'' else cp_arguments q)" and "length raw \<le> 262144"
    and "strict_decode lower raw = Inr (JObj kvs)" and "bounded_numbers (JObj kvs)" and "sch_validate sc (of_schema t) (JObj kvs)"
    and "extract_resources (JObj kvs) (of_mapping t) = Inr rs"
    and "a = \<lparr>ga_envelope = op_envelope opts, ga_agent = op_agent opts, ga_tool = mp_action (of_mapping t),
             ga_resources = Some (map (\<lambda>(category, ids). (category, Some ids)) rs),
             ga_classes = mp_classes (of_mapping t), ga_arguments = Some kvs\<rparr>"
proof -
  let ?raw = "if cp_arguments q = [] then ''{}'' else cp_arguments q"
  from assms have c: "\<not> (cp_state q \<noteq> [] \<or> cp_inputs q > 0)" "\<not> length ?raw > 262144"
    by (auto simp: admit_def Let_def split: if_splits)
  from assms c obtain m where d: "rbind (strict_decode lower ?raw) (\<lambda>v. decode_map decode_any JNull v None) = Inr m"
    by (cases "rbind (strict_decode lower ?raw) (\<lambda>v. decode_map decode_any JNull v None)") (simp_all add: admit_def Let_def)
  from assms c d obtain kvs where k: "m = Some kvs" by (cases m) (simp_all add: admit_def Let_def)
  from d k obtain v where v: "strict_decode lower ?raw = Inr v" "decode_map decode_any JNull v None = Inr (Some kvs)"
    by (auto simp: rbind_eq_Inr)
  then obtain ms where ms: "v = JObj ms" by (cases v) auto
  have "distinct (map fst ms)"
    using v(1) distinct_keys unfolding ms strict_decode_def checked_value_Inr by auto
  then have "ms = kvs" using v(2) decode_any_members [of ms] unfolding ms by simp
  then have s: "strict_decode lower ?raw = Inr (JObj kvs)" using v(1) ms by simp
  from assms c d k have b: "bounded_numbers (JObj kvs)" "sch_validate sc (of_schema t) (JObj kvs)"
    by (simp_all add: admit_def Let_def del: bounded_numbers.simps split: if_splits)
  from assms c d k b obtain rs where r: "extract_resources (JObj kvs) (of_mapping t) = Inr rs"
    by (cases "extract_resources (JObj kvs) (of_mapping t)") (simp_all add: admit_def Let_def del: bounded_numbers.simps)
  show thesis
    using assms c d k b r s by (intro that [of ?raw kvs rs]) (simp_all add: admit_def Let_def del: bounded_numbers.simps)
qed

text \<open>The three ends of a call: stopped before authorization, after it, or at the upstream.\<close>

lemma handler_cases:
  assumes "handler lower sc opts auth call t q tr sr late w = ((rep, out), w')"
  obtains (rejected) code m where "admit lower sc opts t q = Inl (code, m)" and "rep = ToolError (code @ '': '' @ m)" and "w' = w"
  | (refused) a answer m where "admit lower sc opts t q = Inr a"
      and "auth (span_header (start_span tr sr no_span (cp_traceparent q))) a w = (answer, w')" and "rep = ToolError m"
  | (forwarded) a d w1 answer where "admit lower sc opts t q = Inr a"
      and "auth (span_header (start_span tr sr no_span (cp_traceparent q))) a w = (Inr d, w1)"
      and "decision (au_result d) = ALLOW" and "violations (au_result d) = []" and "au_action d \<noteq> []" and "\<not> late"
      and "call (of_name t) (elems (ga_arguments a)) w1 = (answer, w')" and "(rep, out) = upstream_reply (au_action d) answer"
proof (cases "admit lower sc opts t q")
  case (Inl e)
  then show thesis using assms rejected by (cases e) (auto simp: handler_def reject_def)
next
  case (Inr a)
  obtain answer w1 where auth: "auth (span_header (start_span tr sr no_span (cp_traceparent q))) a w = (answer, w1)"
    by fastforce
  show thesis
  proof (cases answer)
    case (Inl e)
    with assms Inr auth refused [of a answer] show thesis by (auto simp: handler_def reject_def)
  next
    case d: (Inr d)
    show thesis
    proof (cases "decision (au_result d) \<noteq> ALLOW \<or> violations (au_result d) \<noteq> [] \<or> au_action d = [] \<or> late")
      case True
      with assms Inr auth d refused [of a answer] show thesis by (auto simp: handler_def reject_def split: if_splits)
    next
      case False
      obtain ans w2 where "call (of_name t) (elems (ga_arguments a)) w1 = (ans, w2)" by fastforce
      with False assms Inr auth d show thesis by (intro forwarded) (auto simp: handler_def)
    qed
  qed
qed

section \<open>The interface of the authorizer\<close>

text \<open>
  What the handler needs of its authorizer (the Go interface \<open>Authorizer\<close>): a receipt with an ALLOW
  is only given for an action that was granted in that exchange.  \<open>fit\<close> are the actions the promise is
  about.
\<close>

locale authorization_service =
  fixes auth :: "string \<Rightarrow> gw_action \<Rightarrow> 'w \<Rightarrow> (string + authorization) \<times> 'w"
    and fit :: "gw_action \<Rightarrow> bool"
    and granted :: "gw_action \<Rightarrow> 'w \<Rightarrow> 'w \<Rightarrow> bool"
  assumes receipt_granted:
    "fit a \<Longrightarrow> auth parent a w = (Inr d, w') \<Longrightarrow> decision (au_result d) = ALLOW \<Longrightarrow> granted a w w'"
begin

text \<open>An upstream result is passed on only for a granted action, and from a call made after the grant.\<close>

lemma passed_granted:
  assumes "handler lower sc opts auth call t q tr sr late w = ((Passed r, out), w')"
    and "\<And>a. admit lower sc opts t q = Inr a \<Longrightarrow> fit a"
  obtains a w1 where "admit lower sc opts t q = Inr a" and "granted a w w1"
    and "call (of_name t) (elems (ga_arguments a)) w1 = (Inr (Some r), w')"
  using assms(1)
proof (cases rule: handler_cases)
  case (forwarded a d w1 answer)
  have "answer = Inr (Some r)"
    using forwarded(8) by (auto simp: upstream_reply_def unknown_outcome_def split: sum.splits option.splits if_splits)
  then show thesis using that forwarded receipt_granted assms(2) by blast
qed simp_all

text \<open>The upstream's state changes only through a call for a granted action.\<close>

lemma touched_granted:
  assumes "handler lower sc opts auth call t q tr sr late w = ((rep, out), w')"
    and "\<And>a. admit lower sc opts t q = Inr a \<Longrightarrow> fit a"
    and "\<And>parent a w. view (snd (auth parent a w)) = view w" and "view w' \<noteq> view w"
  obtains a w1 answer where "admit lower sc opts t q = Inr a" and "granted a w w1"
    and "call (of_name t) (elems (ga_arguments a)) w1 = (answer, w')"
  using assms(1)
proof (cases rule: handler_cases)
  case (refused a answer m)
  with assms(3,4) show thesis by (metis snd_conv)
next
  case (forwarded a d w1 answer)
  then show thesis using that receipt_granted assms(2) by blast
qed (use assms(4) in simp)

end

section \<open>Discovery\<close>

lemma tool_step_Inr:
  assumes "tool_step lower sc c item st = Inr st'"
  obtains t where "item = Some t" and "tl_name t \<noteq> []" and "tl_name t \<notin> set (di_seen st)"
    and "di_seen st' = di_seen st @ [tl_name t]" and "di_total st' = Suc (di_total st)" and "di_total st' \<le> 4096"
    and "(map_of (elems (cf_tools c)) (tl_name t) = None \<and> di_offered st' = di_offered st)
      \<or> (\<exists>m o'. map_of (elems (cf_tools c)) (tl_name t) = Some m \<and> pin_mapping m = Inr (of_mapping o')
           \<and> compile_schema lower sc (of_input o') = Inr (of_schema o') \<and> of_name o' = tl_name t
           \<and> di_offered st' = di_offered st @ [o'])"
proof (cases item)
  case None
  with assms show thesis by (simp add: tool_step_def split: if_splits)
next
  case (Some t)
  have ok: "\<not> Suc (di_total st) > 4096" "tl_name t \<noteq> []" "tl_name t \<notin> set (di_seen st)"
    using assms Some by (auto simp: tool_step_def split: if_splits)
  show thesis
  proof (cases "map_of (elems (cf_tools c)) (tl_name t)")
    case None
    with assms Some ok show thesis by (intro that [of t]) (auto simp: tool_step_def)
  next
    case m: (Some m)
    with assms Some ok show thesis
      by (intro that [of t]) (auto simp: tool_step_def rbind_eq_Inr wrap_error_def split: sum.splits)
  qed
qed

text \<open>What holds of the tools seen so far: no name twice, and exactly the configured ones are offered, pinned.\<close>

definition discovered :: "(string \<Rightarrow> string) \<Rightarrow> 'schema schemas \<Rightarrow> config \<Rightarrow> 'schema discovery \<Rightarrow> bool" where
  "discovered lower sc c st \<longleftrightarrow>
     distinct (di_seen st) \<and> di_total st = length (di_seen st) \<and> di_total st \<le> 4096
     \<and> map of_name (di_offered st) = filter (\<lambda>n. map_of (elems (cf_tools c)) n \<noteq> None) (di_seen st)
     \<and> (\<forall>o' \<in> set (di_offered st). \<exists>m. map_of (elems (cf_tools c)) (of_name o') = Some m
          \<and> pin_mapping m = Inr (of_mapping o') \<and> compile_schema lower sc (of_input o') = Inr (of_schema o'))"

lemma discovered_offered:
  assumes "discovered lower sc c st" and "o' \<in> set (di_offered st)"
  obtains m where "map_of (elems (cf_tools c)) (of_name o') = Some m" and "pin_mapping m = Inr (of_mapping o')"
    and "compile_schema lower sc (of_input o') = Inr (of_schema o')"
proof -
  have "\<forall>o' \<in> set (di_offered st). \<exists>m. map_of (elems (cf_tools c)) (of_name o') = Some m
      \<and> pin_mapping m = Inr (of_mapping o') \<and> compile_schema lower sc (of_input o') = Inr (of_schema o')"
    using assms(1) unfolding discovered_def by (elim conjE)
  from bspec [OF this assms(2)] that show thesis by (elim exE conjE)
qed

lemma discovered_step:
  "tool_step lower sc c item st = Inr st' \<Longrightarrow> discovered lower sc c st \<Longrightarrow> discovered lower sc c st'"
  by (erule tool_step_Inr) (auto simp: discovered_def)

lemma discovered_loop:
  "discover list_tools lower sc c cursors cursor st u = Inr st' \<Longrightarrow> discovered lower sc c st \<Longrightarrow> discovered lower sc c st'"
proof (induction list_tools lower sc c cursors cursor st u rule: discover.induct)
  case (1 list_tools lower sc c cursors cursor st u)
  obtain answer u1 where l: "list_tools cursor u = (answer, u1)" by fastforce
  from "1.prems"(1) l obtain p where p: "answer = Inr (Some p)"
    by (auto simp: discover.simps split: sum.splits option.splits)
  from "1.prems"(1) l p obtain st1 where f: "fold_result (tool_step lower sc c) (pg_tools p) st = Inr st1"
    by (auto simp: discover.simps split: sum.splits)
  have inv: "discovered lower sc c st1"
    by (rule fold_result_invariant [where P = "discovered lower sc c", OF f "1.prems"(2)]) (rule discovered_step)
  show ?case
  proof (cases "pg_next p = []")
    case True
    with "1.prems"(1) l p f inv show ?thesis by (simp add: discover.simps)
  next
    case False
    from "1.prems"(1) l p f False have g: "\<not> (pg_next p \<in> set cursors \<or> length cursors \<ge> 100)"
      by (auto simp: discover.simps split: if_splits)
    from "1.prems"(1) l p f False g
    have "discover list_tools lower sc c (cursors @ [pg_next p]) (pg_next p) st1 u1 = Inr st'"
      by (simp add: discover.simps [of list_tools lower sc c cursors])
    with l p f False g inv show ?thesis by (intro "1.IH") auto
  qed
qed

lemma new_gateway_Inr:
  assumes "new_gateway list_tools lower sc c opts u = Inr ts"
  obtains st where "discover list_tools lower sc c [] [] \<lparr>di_total = 0, di_seen = [], di_offered = []\<rparr> u = Inr st"
    and "\<forall>(name, m) \<in> set (elems (cf_tools c)). name \<in> of_name ` set (di_offered st)" and "ts = di_offered st"
proof -
  let ?missing = "\<lambda>st. find (\<lambda>(name, m). name \<notin> of_name ` set (di_offered st)) (elems (cf_tools c))"
  from assms obtain st where st: "discover list_tools lower sc c [] [] \<lparr>di_total = 0, di_seen = [], di_offered = []\<rparr> u = Inr st"
    "(case ?missing st of Some (name, m) \<Rightarrow> Inl (''configured tool '' @ name @ '' was not discovered'') | None \<Rightarrow> Inr (di_offered st)) = Inr ts"
    unfolding new_gateway_def by (auto simp: rbind_eq_Inr split: if_split_asm)
  then have none: "?missing st = None" by (cases "?missing st") auto
  then have "\<forall>(name, m) \<in> set (elems (cf_tools c)). name \<in> of_name ` set (di_offered st)"
    unfolding find_None_iff by fast
  then show thesis using st none by (intro that [of st]) simp_all
qed

definition utf8_mapping :: "mapping \<Rightarrow> bool" where
  "utf8_mapping m \<longleftrightarrow>
     valid_utf8 (mp_action m) \<and> (\<forall>(k, v) \<in> set (elems (mp_resources m)). valid_utf8 k \<and> valid_utf8 v)
     \<and> wf_map (mp_resources m) \<and> utf8_slice (mp_classes m)"

lemma decode_string_map:
  assumes "distinct (map fst kvs)"
  shows "decode_map decode_string [] (JObj (map (\<lambda>(k, v). (k, JStr v)) kvs)) None = Inr (Some kvs)"
proof -
  let ?step = "\<lambda>(k, v) m. rbind (decode_string v []) (\<lambda>x. Inr (put_entry k x m))"
  have "fold_result ?step (map (\<lambda>(k, v). (k, JStr v)) xs) acc = Inr (acc @ xs)"
    if "distinct (map fst (acc @ xs))" for xs acc :: "(string \<times> string) list"
    using that
  proof (induction xs arbitrary: acc)
    case (Cons p xs)
    obtain k v where p: "p = (k, v)" by (cases p)
    have "k \<notin> fst ` set acc" using Cons.prems p by auto
    then show ?case using Cons.IH [of "acc @ [p]"] Cons.prems p by (simp add: put_entry_fresh)
  qed simp
  with assms show ?thesis by simp
qed

text \<open>The pinned copy is the mapping itself, its resources in key order.\<close>

lemma pin_mapping_copies:
  assumes "utf8_mapping m"
  shows "pin_mapping m = Inr (m\<lparr>mp_resources := map_option (sort_key fst) (mp_resources m)\<rparr>)"
proof -
  have "\<forall>n \<in> set [''action'', ''resources'', ''data_classes'']. valid_utf8 n" by code_simp
  then have "readable 10000 (encode_mapping m)"
    using assms by (cases "mp_resources m") (auto simp: encode_mapping_def utf8_mapping_def)
  then have p: "parse_document (print_json (encode_mapping m)) = Some (encode_mapping m)" by (rule document_printed)
  have sorted: "sort_key fst (map (\<lambda>(k, v). (k, JStr v)) kvs) = map (\<lambda>(k, v). (k, JStr v)) (sort_key fst kvs)"
    if "distinct (map fst kvs)" for kvs :: "(string \<times> string) list"
  proof -
    have "sort_key fst (map (\<lambda>(k, v). (k, JStr v)) kvs) = sort_key fst (map (\<lambda>(k, v). (k, JStr v)) (sort_key fst kvs))"
      by (rule sort_entries_cong) (simp_all add: that)
    also have "\<dots> = map (\<lambda>(k, v). (k, JStr v)) (sort_key fst kvs)"
      by (rule sort_key_id_if_sorted) (simp add: comp_def split_beta)
    finally show ?thesis .
  qed
  have "decode_struct False mapping_fields (encode_mapping m) zero_mapping
      = Inr (m\<lparr>mp_resources := map_option (sort_key fst) (mp_resources m)\<rparr>)"
  proof (cases "mp_resources m")
    case None
    then show ?thesis
      by (cases m) (simp add: encode_mapping_def mapping_fields_def decode_known at_field_def zero_mapping_def)
  next
    case (Some kvs)
    then have d: "distinct (map fst kvs)" using assms by (simp add: utf8_mapping_def wf_map_def)
    then have "distinct (map fst (sort_key fst kvs))" by (simp add: distinct_map)
    from decode_string_map [OF this] show ?thesis
      using Some sorted [OF d]
      by (cases m) (simp add: encode_mapping_def mapping_fields_def decode_known at_field_def zero_mapping_def
          del: decode_map.simps)
  qed
  with p show ?thesis by (simp add: pin_mapping_def)
qed

text \<open>
  C35: a gateway that starts offers exactly the configured tools, each once, and enforces on each the very
  mapping of the configuration: whatever the upstream lists, no unmapped tool is exposed, no configured one
  is missing, and at most 4096 tools were looked at.
\<close>

theorem offers_exactly_configured:
  assumes "new_gateway list_tools lower sc c opts u = Inr ts"
    and "distinct (map fst (elems (cf_tools c)))" and "\<forall>(name, m) \<in> set (elems (cf_tools c)). utf8_mapping m"
  shows "mset (map (\<lambda>t. (of_name t, of_mapping t)) ts)
    = mset (map (\<lambda>(name, m). (name, m\<lparr>mp_resources := map_option (sort_key fst) (mp_resources m)\<rparr>)) (elems (cf_tools c)))"
proof -
  let ?pin = "\<lambda>m. m\<lparr>mp_resources := map_option (sort_key fst) (mp_resources m)\<rparr>"
  obtain st where d: "discover list_tools lower sc c [] [] \<lparr>di_total = 0, di_seen = [], di_offered = []\<rparr> u = Inr st"
    and found: "\<forall>(name, m) \<in> set (elems (cf_tools c)). name \<in> of_name ` set (di_offered st)" and ts: "ts = di_offered st"
    by (rule new_gateway_Inr [OF assms(1)])
  have inv: "discovered lower sc c st" by (rule discovered_loop [OF d]) (simp add: discovered_def)
  then have names: "distinct (map of_name ts)" unfolding ts discovered_def by (metis distinct_filter)
  have "(of_name t, of_mapping t) \<in> set (map (\<lambda>(name, m). (name, ?pin m)) (elems (cf_tools c)))" if "t \<in> set ts" for t
  proof -
    obtain m where m: "map_of (elems (cf_tools c)) (of_name t) = Some m" "pin_mapping m = Inr (of_mapping t)"
      using discovered_offered [OF inv] \<open>t \<in> set ts\<close> ts by metis
    have "utf8_mapping m" using assms(3) map_of_SomeD [OF m(1)] by auto
    from pin_mapping_copies [OF this] have "of_mapping t = ?pin m" using m(2) by simp
    then show ?thesis
      unfolding set_map using map_of_SomeD [OF m(1)] by (intro image_eqI [where x = "(of_name t, m)"]) simp_all
  qed
  moreover have "(name, ?pin m) \<in> set (map (\<lambda>t. (of_name t, of_mapping t)) ts)" if "(name, m) \<in> set (elems (cf_tools c))" for name m
  proof -
    have "name \<in> of_name ` set ts" using bspec [OF found that] ts by simp
    then obtain t where t: "t \<in> set ts" "of_name t = name" by auto
    then obtain m' where m: "map_of (elems (cf_tools c)) name = Some m'" "pin_mapping m' = Inr (of_mapping t)"
      using discovered_offered [OF inv] ts by metis
    have "m' = m" using m(1) that assms(2) by simp
    have "utf8_mapping m" using assms(3) that by auto
    from pin_mapping_copies [OF this] have "of_mapping t = ?pin m" using m(2) \<open>m' = m\<close> by simp
    then show ?thesis using t unfolding set_map by (intro image_eqI [where x = t]) simp_all
  qed
  ultimately have "set (map (\<lambda>t. (of_name t, of_mapping t)) ts) = set (map (\<lambda>(name, m). (name, ?pin m)) (elems (cf_tools c)))"
    by auto
  moreover have "distinct (map (\<lambda>t. (of_name t, of_mapping t)) ts)"
    using names by (auto simp: distinct_map inj_on_def)
  moreover have "distinct (map (\<lambda>(name, m). (name, ?pin m)) (elems (cf_tools c)))"
  proof -
    have "map fst (map (\<lambda>(name, m). (name, ?pin m)) (elems (cf_tools c))) = map fst (elems (cf_tools c))"
      by auto
    then have "distinct (map fst (map (\<lambda>(name, m). (name, ?pin m)) (elems (cf_tools c))))"
      using assms(2) by (simp only:)
    then show ?thesis by (rule distinct_map [THEN iffD1, THEN conjunct1])
  qed
  ultimately show ?thesis using set_eq_iff_mset_eq_distinct by blast
qed

text \<open>An upstream with one tool, on one page.\<close>

definition demo_config :: config where
  "demo_config = \<lparr>cf_tools = Some [(''refund.create'', refund_mapping)]\<rparr>"

definition demo_options :: options where
  "demo_options = \<lparr>op_agent = ''notification-agent'', op_envelope = ''env_child'', op_timeout = 0\<rparr>"

definition demo_schema :: json where
  "demo_schema = JObj [(''type'', JStr ''object'')]"

definition demo_tool :: tool where
  "demo_tool = \<lparr>tl_name = ''refund.create'', tl_title = [], tl_description = [], tl_input = demo_schema, tl_output = JNull\<rparr>"

definition demo_schemas :: "unit schemas" where
  "demo_schemas = \<lparr>sch_compile = (\<lambda>_ _. Inr ()), sch_validate = (\<lambda>_ _. True)\<rparr>"

definition demo_offered :: "unit offered" where
  "demo_offered =
     \<lparr>of_name = ''refund.create'', of_title = [], of_description = [], of_input = marshal_any demo_schema,
      of_output = JNull, of_mapping = refund_mapping, of_schema = ()\<rparr>"

lemma refund_utf8: "utf8_mapping refund_mapping"
  unfolding utf8_mapping_def utf8_slice_def wf_map_def by (simp add: refund_mapping_def) code_simp

lemma refund_pinned: "pin_mapping refund_mapping = Inr refund_mapping"
  using pin_mapping_copies [OF refund_utf8] by (simp add: refund_mapping_def)

lemma demo_schema_compiles: "compile_schema (\<lambda>r. r) demo_schemas (marshal_any demo_schema) = Inr ()"
proof -
  have "length (marshal_any demo_schema) = 17" by code_simp
  moreover have "strict_decode (\<lambda>r. r) (marshal_any demo_schema) = Inr demo_schema" by code_simp
  ultimately show ?thesis
    by (simp add: compile_schema_def) (simp add: demo_schema_def demo_schemas_def decode_any_def put_entry_def)
qed

lemma demo_starts:
  "new_gateway (\<lambda>cursor u. (Inr (Some \<lparr>pg_tools = [Some demo_tool], pg_next = []\<rparr>), u)) (\<lambda>r. r) demo_schemas
     demo_config demo_options () = Inr [demo_offered]"
proof -
  have v: "config_validate demo_config = Inr ()"
    unfolding demo_config_def by (rule config_accepted)
  have i: "is_identifier (op_agent demo_options)" "is_identifier (op_envelope demo_options)" by code_simp+
  have "tool_step (\<lambda>r. r) demo_schemas demo_config (Some demo_tool) \<lparr>di_total = 0, di_seen = [], di_offered = []\<rparr>
      = Inr \<lparr>di_total = 1, di_seen = [''refund.create''], di_offered = [demo_offered]\<rparr>"
    using refund_pinned demo_schema_compiles
    by (simp add: tool_step_def demo_tool_def demo_config_def demo_offered_def wrap_error_def)
  then show ?thesis
    using v i by (simp add: new_gateway_def discover.simps)
      (simp add: demo_options_def demo_config_def demo_offered_def)
qed

theorem offers_exactly_configured_witness:
  "mset [(of_name demo_offered, of_mapping demo_offered)] = mset [(''refund.create'', refund_mapping)]"
proof -
  have "distinct (map fst (elems (cf_tools demo_config)))"
    "\<forall>(name, m) \<in> set (elems (cf_tools demo_config)). utf8_mapping m"
    by (simp_all add: demo_config_def refund_utf8)
  from offers_exactly_configured [OF demo_starts this] show ?thesis
    by (simp add: demo_config_def) (simp add: refund_mapping_def)
qed

end
