(* ===== verification/Exchange.thy ===== *)
theory Exchange
  imports Gateway Api
begin

text \<open>
  One HTTP exchange between the gateway's client (\<open>HTTPAuthorizer.Authorize\<close>) and the control API
  (\<open>wrapEndpoint\<close> around \<open>action\<close>): the request's header and bytes go in, the status and the bytes of
  \<open>writeJSON\<close> come out, and either message can be lost.  The state is the database and whatever the
  upstream keeps.
\<close>

datatype link = Delivered | Request_Lost | Response_Lost

text \<open>The two kinds of response \<open>POST /v1/evaluate/action\<close> gives.\<close>

fun response_json :: "response \<Rightarrow> json option" where
  "response_json (RAction i res ids) = Some (encode_action_response i res ids)"
| "response_json (RError m) = Some (encode_error m)"
| "response_json _ = None"

definition response_body :: "response \<Rightarrow> string" where
  "response_body resp = (case response_json resp of None \<Rightarrow> [] | Some v \<Rightarrow> write_json v)"

definition authorization_header :: "http_request \<Rightarrow> string" where
  "authorization_header r = (case map_of (hq_headers r) ''Authorization'' of None \<Rightarrow> [] | Some h \<Rightarrow> h)"

definition service_send ::
  "codec \<Rightarrow> activation server \<Rightarrow> draws \<Rightarrow> faults \<Rightarrow> link \<Rightarrow> http_request \<Rightarrow> db \<times> 'u
    \<Rightarrow> (nat \<times> string) option \<times> db \<times> 'u" where
  "service_send cd s w f l r du =
     (if l = Request_Lost then (None, du)
      else (case api s w f (authorization_header r) (action_body cd (hq_body r)) (fst du) of
          ((resp, status), d') \<Rightarrow>
            (if l = Response_Lost then None else Some (status, response_body resp), (d', snd du))))"

text \<open>The gateway's authorizer over this exchange.\<close>

definition service_authorize ::
  "codec \<Rightarrow> activation server \<Rightarrow> draws \<Rightarrow> faults \<Rightarrow> link \<Rightarrow> authorizer \<Rightarrow> string \<Rightarrow> gw_action \<Rightarrow> db \<times> 'u
    \<Rightarrow> (string + authorization) \<times> db \<times> 'u" where
  "service_authorize cd s w f l az parent a du =
     authorize (cd_lower cd) (service_send cd s w f l) az parent a du"

section \<open>Errors are no receipts\<close>

lemma parse_first_key:
  assumes "parse_document (CHR ''{'' # print_string k @ r) = Some v" and "valid_utf8 k"
  obtains x kvs where "v = JObj ((k, x) # kvs)"
proof -
  let ?r = "print_string k @ r"
  have "parse_value 10000 (CHR ''{'' # ?r) = map_option (\<lambda>(kvs, x). (JObj kvs, x)) (parse_members (10000 - 1) ?r)"
    by (subst parse_value.simps) (simp add: print_string_def)
  then obtain kvs x where m: "parse_members (10000 - 1) ?r = Some (kvs, x)" "v = JObj kvs"
    using assms(1) by (auto simp: parse_document_def split: option.splits if_splits)
  from m(1) show thesis
  proof (rule parse_members_Some)
    fix u k' y z w a d b
    assume 1: "skip_ws ?r = CHR 0x22 # u" "parse_chars u = Some (k', y)"
      and 2: "kvs = [(k', w)] \<and> x = b
        \<or> (\<exists>ks. kvs = (k', w) # ks \<and> d = CHR '','' \<and> length b < length ?r \<and> parse_members (10000 - 1) b = Some (ks, x))"
    have "u = concat (map escape_rune (runes k)) @ CHR 0x22 # r" using 1(1) by (simp add: print_string_def)
    then have "k' = k" using 1(2) parse_chars_printed [OF assms(2), of r] by simp
    then show thesis using 2 m(2) that by blast
  qed
qed

lemma empty_no_receipt: "read_receipt lower (Some (status, [])) \<noteq> Inr a"
proof -
  have "strict_decode lower [] \<noteq> Inr v" for v
    unfolding strict_decode_def checked_value_Inr by (simp add: parse_document_def parse_value.simps skip_ws_def)
  then show ?thesis by (auto simp: read_receipt_def rbind_eq_Inr split: sum.splits if_splits)
qed

lemma error_no_receipt: "read_receipt lower (Some (status, write_json (encode_error m))) \<noteq> Inr a"
proof
  let ?body = "write_json (encode_error m)"
  assume r: "read_receipt lower (Some (status, ?body)) = Inr a"
  then obtain v where v: "strict_decode lower ?body = Inr v" "decode_authorization v zero_authorization = Inr a"
    by (auto simp: read_receipt_def rbind_eq_Inr split: sum.splits if_splits)
  have "valid_utf8 ''error''" by code_simp
  moreover have "?body = CHR ''{'' # print_string ''error'' @ CHR '':'' # print_json (JStr m) @ ''}'' @ [CHR 0x0A]"
    by (simp add: write_json_def encode_error_def)
  ultimately obtain x kvs where "v = JObj ((''error'', x) # kvs)"
    using v(1) parse_first_key unfolding strict_decode_def checked_value_Inr by metis
  moreover have "find_field authorization_fields ''error'' = None"
  proof -
    have "fold_name ''error'' \<notin> fold_name ` {''action_id'', ''result'', ''consumed_approval_ids''}" by code_simp
    then show ?thesis by (simp add: authorization_fields_def find_field_def) metis
  qed
  ultimately show False using v(2) by (simp add: decode_authorization_def decode_member_def)
qed

lemma receipt_response:
  assumes "read_receipt lower (Some (status, response_body resp)) = Inr a"
  obtains i res ids where "resp = RAction i res ids"
proof (cases resp)
  case (RError m)
  with assms error_no_receipt show thesis by (simp add: response_body_def)
next
  case (RAction i res ids)
  then show thesis by (rule that)
qed (use assms empty_no_receipt in \<open>simp_all add: response_body_def\<close>)

end
