(* ===== verification/Gateway_Guarantees.thy ===== *)
theory Gateway_Guarantees
  imports Exchange Guarantees
begin

text \<open>
  The whole path of a tool call: from the MCP request at the gateway, through the HTTP exchange with the
  control API and its check of the delegation chain, to the upstream.  The law of the authorizer's
  interface (\<open>authorization_service\<close>) is proved for the control API, and the properties below rest on it.
\<close>

section \<open>What the gateway sends\<close>

text \<open>An offered tool and the fixed options whose text can be sent as it is.\<close>

definition sendable_tool :: "(string \<Rightarrow> string) \<Rightarrow> options \<Rightarrow> 'schema offered \<Rightarrow> bool" where
  "sendable_tool lower opts t \<longleftrightarrow>
     valid_utf8 (op_envelope opts) \<and> valid_utf8 (op_agent opts) \<and> utf8_mapping (of_mapping t)
     \<and> distinct (map (to_lower lower \<circ> fst) (elems (mp_resources (of_mapping t))))"

text \<open>Every string in a decoded value is valid UTF-8.\<close>

fun text_ok :: "json \<Rightarrow> bool" where
  "text_ok (JStr s) \<longleftrightarrow> valid_utf8 s"
| "text_ok (JArr vs) \<longleftrightarrow> (\<forall>v \<in> set vs. text_ok v)"
| "text_ok (JObj kvs) \<longleftrightarrow> (\<forall>(k, v) \<in> set kvs. text_ok v)"
| "text_ok v \<longleftrightarrow> True"

lemma readable_text: "readable n v \<Longrightarrow> text_ok v"
proof (induction v arbitrary: n)
  case (JObj kvs)
  have "text_ok v" if "(k, v) \<in> set kvs" for k v
    using JObj.IH [OF that, of v "n - 1"] JObj.prems that by auto
  then show ?case by auto
qed auto

lemma pointer_step_text: "text_ok v \<Longrightarrow> pointer_step t v = Inr w \<Longrightarrow> text_ok w"
proof (induction t v rule: pointer_step.induct)
  case (1 t kvs)
  then show ?case by (auto split: option.splits dest!: map_of_SomeD)
next
  case (2 t vs)
  then obtain i where i: "parse_sized 64 t = Some i" by (cases "parse_sized 64 t") auto
  with 2 have "0 \<le> i" "i < int (length vs)" "w = vs ! nat i" by (simp_all split: if_splits)
  then have "w \<in> set vs" by (metis nat_less_iff nth_mem)
  with 2 show ?case by simp
qed simp_all

lemma resource_ids_text:
  assumes "text_ok v" and "resource_ids v = Inr vs"
  shows "\<forall>i \<in> set vs. valid_utf8 i"
proof (cases v)
  case (JArr us)
  have "map json_id us = map Inr vs" using assms(2) JArr by (simp add: map_result_Inr)
  then have "us = map JStr vs"
  proof (induction us arbitrary: vs)
    case (Cons u us)
    then obtain w ws where "vs = w # ws" by (cases vs) auto
    with Cons show ?case by (cases u) auto
  qed simp
  with assms(1) JArr show ?thesis by simp
qed (use assms in auto)

lemma selects_text: "selects a p S \<Longrightarrow> text_ok a \<Longrightarrow> \<forall>i \<in> S. valid_utf8 i"
proof -
  assume "selects a p S" "text_ok a"
  then obtain ts v vs where 1: "fold_result pointer_step ts a = Inr v" "resource_ids v = Inr vs" "S = set vs"
    by (auto simp: selects_def)
  have "text_ok v" by (rule fold_result_invariant [where P = text_ok, OF 1(1) \<open>text_ok a\<close>]) (rule pointer_step_text)
  then show ?thesis using resource_ids_text 1 by blast
qed

lemma extracted_text:
  assumes "extract_resources a m = Inr rs" and "text_ok a"
  shows "map fst rs = map fst (elems (mp_resources m))" and "\<forall>(k, ids) \<in> set rs. \<forall>i \<in> set ids. valid_utf8 i"
proof -
  have "list_all2 (\<lambda>(category, p) (category', ids). category' = category \<and> (\<forall>i \<in> set ids. valid_utf8 i)) cps rs"
    if "list_all2 (\<lambda>(category, p) (category', ids). category' = category
         \<and> (\<exists>S. selects a p S \<and> S \<noteq> {} \<and> (\<forall>i \<in> S. is_identifier i \<and> length i \<le> 512) \<and> ids = sorted_list_of_set S)) cps rs"
    for cps
    using that
  proof (rule list_all2_mono)
    fix cp cids
    assume "(\<lambda>(category, p) (category', ids). category' = category
         \<and> (\<exists>S. selects a p S \<and> S \<noteq> {} \<and> (\<forall>i \<in> S. is_identifier i \<and> length i \<le> 512) \<and> ids = sorted_list_of_set S)) cp cids"
    then obtain c p ids S where 1: "cp = (c, p)" "cids = (c, ids)" "selects a p S" "ids = sorted_list_of_set S"
      by (cases cp; cases cids) auto
    have "finite S" using 1(3) by (auto simp: selects_def)
    then show "(\<lambda>(category, p) (category', ids). category' = category \<and> (\<forall>i \<in> set ids. valid_utf8 i)) cp cids"
      using 1 selects_text assms(2) by auto
  qed
  from this [OF assms(1) [unfolded extract_resources_Inr]]
  have l: "list_all2 (\<lambda>(category, p) (category', ids). category' = category \<and> (\<forall>i \<in> set ids. valid_utf8 i))
      (elems (mp_resources m)) rs" .
  then show "map fst rs = map fst (elems (mp_resources m))"
    by (induction rule: list_all2_induct) auto
  from l show "\<forall>(k, ids) \<in> set rs. \<forall>i \<in> set ids. valid_utf8 i"
    by (induction rule: list_all2_induct) auto
qed

lemma strict_depth: "unambiguous (strict_walker lower) d v \<Longrightarrow> d \<le> 64"
  by (cases v) (simp_all add: strict_walker_def)

text \<open>What was decoded strictly is nested at most 65 deep.\<close>

lemma readable_nesting: "readable n v \<Longrightarrow> unambiguous (strict_walker lower) d v \<Longrightarrow> readable (65 - d) v"
proof (induction v arbitrary: n d)
  case (JArr vs)
  have "readable (65 - (d + 1)) v" if "v \<in> set vs" for v
    using JArr.IH [OF that, of "n - 1" "d + 1"] JArr.prems that by auto
  with JArr.prems strict_depth [OF JArr.prems(2)] show ?case by (simp add: diff_diff_eq)
next
  case (JObj kvs)
  have "readable (65 - (d + 1)) v" if "(k, v) \<in> set kvs" for k v
    using JObj.IH [OF that, of v "n - 1" "d + 1"] JObj.prems that by auto
  with JObj.prems strict_depth [OF JObj.prems(2)] show ?case by (auto simp: diff_diff_eq)
qed auto

lemma readable_mono: "readable n v \<Longrightarrow> n \<le> m \<Longrightarrow> readable m v"
proof (induction v arbitrary: n m)
  case (JArr vs)
  have "readable (m - 1) v" if "v \<in> set vs" for v
    using JArr.IH [OF that, of "n - 1" "m - 1"] JArr.prems that by auto
  with JArr.prems show ?case by auto
next
  case (JObj kvs)
  have "readable (m - 1) v" if "(k, v) \<in> set kvs" for k v
    using JObj.IH [OF that, of v "n - 1" "m - 1"] JObj.prems that by auto
  with JObj.prems show ?case by auto
qed auto

lemma admitted_sendable:
  assumes "admit lower sc opts t q = Inr a" and "sendable_tool lower opts t"
  shows "sendable lower a"
  using assms(1)
proof (rule admit_Inr)
  fix raw kvs rs
  assume 1: "strict_decode lower raw = Inr (JObj kvs)" "extract_resources (JObj kvs) (of_mapping t) = Inr rs"
    "a = \<lparr>ga_envelope = op_envelope opts, ga_agent = op_agent opts, ga_tool = mp_action (of_mapping t),
             ga_resources = Some (map (\<lambda>(category, ids). (category, Some ids)) rs),
             ga_classes = mp_classes (of_mapping t), ga_arguments = Some kvs\<rparr>"
  have d: "parse_document raw = Some (JObj kvs)" "unambiguous (strict_walker lower) 0 (JObj kvs)"
    using 1(1) unfolding strict_decode_def checked_value_Inr by auto
  have r: "readable 10000 (JObj kvs)" by (rule document_readable [OF d(1)])
  note ex = extracted_text [OF 1(2) readable_text [OF r]]
  have m: "map (to_lower lower \<circ> fst) (map (\<lambda>(category, ids). (category, Some ids)) rs)
      = map (to_lower lower \<circ> fst) (elems (mp_resources (of_mapping t)))"
  proof -
    have "map (to_lower lower \<circ> fst) (map (\<lambda>(category, ids). (category, Some ids)) rs) = map (to_lower lower) (map fst rs)"
      by auto
    also have "\<dots> = map (to_lower lower \<circ> fst) (elems (mp_resources (of_mapping t)))" unfolding ex(1) by simp
    finally show ?thesis .
  qed
  have "valid_utf8 k" if "(k, ids) \<in> set rs" for k ids
  proof -
    have "k \<in> set (map fst rs)" using that by force
    then show ?thesis unfolding ex(1) using assms(2) by (auto simp: sendable_tool_def utf8_mapping_def)
  qed
  moreover have "readable 9999 (JObj kvs)" by (rule readable_mono [OF readable_nesting [OF r d(2)]]) simp
  ultimately show ?thesis
    using 1(3) assms(2) ex(2) d(2) m by (auto simp: sendable_def sendable_tool_def utf8_mapping_def utf8_slice_def)
qed

section \<open>The control API keeps the authorizer's promise\<close>

text \<open>An action was granted: the API evaluated exactly this action, allowed it, and committed.\<close>

definition granted_by :: "activation server \<Rightarrow> draws \<Rightarrow> gw_action \<Rightarrow> db \<times> 'u \<Rightarrow> db \<times> 'u \<Rightarrow> bool" where
  "granted_by s w a du du' \<longleftrightarrow>
     snd du' = snd du
     \<and> (\<exists>i res ids. action s w (Inr (received a)) (fst du) = Inr ((RAction i res ids, 200), fst du') \<and> decision res = ALLOW)"

lemma oversized_refused:
  assumes "length raw > body_limit"
  shows "action_body cd raw = PostAction (Inl (bad ''could not read request body (maximum 1 MiB)''))"
  using assms by (simp add: action_body_def decode_body_def)

lemma api_action:
  assumes "api s w f h (PostAction body) d = ((RAction i res ids, status), d')"
  shows "action s w body d = Inr ((RAction i res ids, status), d')"
  using assms
proof (cases rule: api_cases)
  case answered
  then show ?thesis by (cases rule: endpoint_dispatch) (simp_all only: dispatch.simps)
qed auto

lemma service_receipt:
  assumes "service_authorize cd s w f l az parent a du = (Inr d, du')" and "sendable (cd_lower cd) a"
  obtains i res ids status where "action s w (Inr (received a)) (fst du) = Inr ((RAction i res ids, status), fst du')"
    and "snd du' = snd du" and "status = 200 \<longleftrightarrow> decision (au_result d) = ALLOW"
proof -
  let ?r = "authorize_request az parent a"
  obtain resp status d' where api: "api s w f (authorization_header ?r) (action_body cd (hq_body ?r)) (fst du) = ((resp, status), d')"
    by (metis prod.collapse)
  have l: "l = Delivered" and rec: "read_receipt (cd_lower cd) (Some (status, response_body resp)) = Inr d"
    and du': "du' = (d', snd du)"
    using assms(1) api by (cases l; auto simp: service_authorize_def authorize_def service_send_def read_receipt_def)+
  from rec obtain i res ids where resp: "resp = RAction i res ids" by (rule receipt_response)
  have st: "status = 200 \<longleftrightarrow> decision (au_result d) = ALLOW"
    using rec by (rule read_receipt_Inr) auto
  have hq: "hq_body ?r = marshal_gw_action a" by (simp add: authorize_request_def)
  show thesis
  proof (cases "length (marshal_gw_action a) \<le> 1048576")
    case True
    have "action s w (Inr (received a)) (fst du) = Inr ((RAction i res ids, status), d')"
      using api_action api unfolding hq transmitted [OF assms(2) True] resp by blast
    then show thesis using that st du' by simp
  next
    case False
    then have "action_body cd (hq_body ?r) = PostAction (Inl (bad ''could not read request body (maximum 1 MiB)''))"
      unfolding hq by (intro oversized_refused) (simp add: body_limit_def)
    then have "action s w (Inl (bad ''could not read request body (maximum 1 MiB)'')) (fst du) = Inr ((RAction i res ids, status), d')"
      using api_action api resp by metis
    then show thesis by (simp add: action_def)
  qed
qed

interpretation control_api: authorization_service "service_authorize cd s w f l az" "sendable (cd_lower cd)" "granted_by s w"
  for cd s w f l az
proof
  fix a parent du d du'
  assume 1: "sendable (cd_lower cd) a" "service_authorize cd s w f l az parent a du = (Inr d, du')"
    "decision (au_result d) = ALLOW"
  from 1(2,1) obtain i res ids status where 2: "action s w (Inr (received a)) (fst du) = Inr ((RAction i res ids, status), fst du')"
    "snd du' = snd du" "status = 200 \<longleftrightarrow> decision (au_result d) = ALLOW"
    by (rule service_receipt)
  then show "granted_by s w a du du'" using 1(3) action_status [OF 2(1)] by (auto simp: granted_by_def split: if_splits)
qed

text \<open>The upstream only sees and changes its own part of the state.\<close>

definition upstream_call ::
  "(string \<Rightarrow> (string \<times> json) list \<Rightarrow> 'u \<Rightarrow> (string + mcp_result option) \<times> 'u)
    \<Rightarrow> string \<Rightarrow> (string \<times> json) list \<Rightarrow> db \<times> 'u \<Rightarrow> (string + mcp_result option) \<times> db \<times> 'u" where
  "upstream_call call name args du = (case call name args (snd du) of (answer, u) \<Rightarrow> (answer, fst du, u))"

lemma authorize_keeps_upstream: "snd (snd (service_authorize cd s w f l az parent a du)) = snd du"
  by (auto simp: service_authorize_def authorize_def service_send_def split: prod.splits)

section \<open>A call that reaches the upstream\<close>

text \<open>
  C3: an upstream tool is only reached through the chain of envelopes.  When a gateway call changes the
  upstream's state or returns an upstream result, whatever messages were lost, then the arguments were
  admitted, the control API evaluated exactly that action for the gateway's agent and envelope and
  committed an ALLOW, the upstream got exactly those arguments under the mapped tool's name, and the
  envelope and every ancestor up to the root was unrevoked, signed and valid and permits all that the
  action demands.
\<close>

theorem forwarded_within_ancestors:
  assumes "server_ok s" and "reachable s d" and "sendable_tool (cd_lower cd) opts t"
    and "handler (cd_lower cd) sc opts (service_authorize cd s w f l az) (upstream_call call) t q tr sr late (d, u)
      = ((rep, out), (d', u'))"
    and "u' \<noteq> u \<or> rep = Passed r"
  shows "\<exists>a i res ids v vs. admit (cd_lower cd) sc opts t q = Inr a
    \<and> action s w (Inr (received a)) d = Inr ((RAction i res ids, 200), d') \<and> decision res = ALLOW
    \<and> u' = snd (call (of_name t) (elems (ga_arguments a)) u)
    \<and> load d (op_envelope opts) = Inr v \<and> agent (recipient (st_env v)) = op_agent opts \<and> ancestry d v vs
    \<and> (\<forall>x \<in> set vs. st_revoked x = None \<and> verify (srv_crypto s) (st_env x) (srv_pub s) = Inr ()
         \<and> policy_ok (srv_cel s) (st_env x) (d_now w) \<and> (\<forall>y \<in> demands (received a). permits (st_env x) y))"
proof -
  have fit: "sendable (cd_lower cd) a" if "admit (cd_lower cd) sc opts t q = Inr a" for a
    using that assms(3) by (rule admitted_sendable)
  obtain a du answer where a: "admit (cd_lower cd) sc opts t q = Inr a" and g: "granted_by s w a (d, u) du"
    and c: "upstream_call call (of_name t) (elems (ga_arguments a)) du = (answer, (d', u'))"
  proof (cases "u' = u")
    case True
    with assms(4,5) have "handler (cd_lower cd) sc opts (service_authorize cd s w f l az) (upstream_call call) t q tr sr late (d, u)
        = ((Passed r, out), (d', u'))" by simp
    from control_api.passed_granted [OF this fit] that show thesis by metis
  next
    case False
    then have "snd (d', u') \<noteq> snd (d, u)" by simp
    from control_api.touched_granted [where view = snd, OF assms(4) fit authorize_keeps_upstream this] that
    show thesis by metis
  qed
  obtain i res ids where act: "action s w (Inr (received a)) d = Inr ((RAction i res ids, 200), fst du)" "decision res = ALLOW"
    and u: "snd du = u"
    using g by (auto simp: granted_by_def)
  have d': "d' = fst du" "u' = snd (call (of_name t) (elems (ga_arguments a)) u)"
    using c u by (auto simp: upstream_call_def split: prod.splits)
  have ids: "ac_envelope (received a) = op_envelope opts" "ac_agent (received a) = op_agent opts"
    using a by (auto elim!: admit_Inr simp: received_def)
  from allowed_chain [OF assms(1,2) act] obtain v vs where v: "load d (op_envelope opts) = Inr v" "ancestry d v vs"
    "\<forall>x \<in> set vs. st_revoked x = None \<and> verify (srv_crypto s) (st_env x) (srv_pub s) = Inr ()
         \<and> policy_ok (srv_cel s) (st_env x) (d_now w) \<and> (\<forall>y \<in> demands (received a). permits (st_env x) y)"
    unfolding ids by blast
  moreover have "agent (recipient (st_env v)) = op_agent opts"
    using act(2) action_ALLOW [OF act(1)] v(1) ids by auto
  ultimately show ?thesis using a act d' by blast
qed

text \<open>And the other way round: what the API allows reaches the upstream.\<close>

lemma allowed_no_violations:
  assumes "action s w (Inr q) d = Inr ((RAction i res ids, status), d')" and "decision res = ALLOW"
  shows "violations res = []"
  using assms(1)
proof (cases rule: action_Inr)
  case (1 v args res' ids')
  then show ?thesis using assms(2) by (auto simp: decide_def Let_def split_beta split: if_splits)
qed

lemma allowed_receipt:
  assumes "sendable (cd_lower cd) a" and "length (marshal_gw_action a) \<le> 1048576"
    and "is_service s (''Bearer '' @ az_token az)" and "f = \<lparr>f_begin = None, f_lock = None, f_commit = None\<rparr>"
    and "action s w (Inr (received a)) d = Inr ((RAction i res ids, status), d')" and "decision res = ALLOW"
    and "valid_utf8 i" and "i \<noteq> []" and "\<forall>x \<in> set ids. valid_utf8 x"
    and "length (write_json (encode_action_response i res ids)) \<le> 1048576"
  shows "service_authorize cd s w f Delivered az parent a (d, u)
    = (Inr \<lparr>au_action = i, au_result = res, au_consumed = Some ids\<rparr>, (d', u))"
proof -
  let ?r = "authorize_request az parent a"
  have st: "status = 200" using action_status [OF assms(5)] assms(6) by simp
  have vs: "violations res = []" by (rule allowed_no_violations [OF assms(5,6)])
  have h: "authorization_header ?r = ''Bearer '' @ az_token az" "hq_body ?r = marshal_gw_action a"
    by (simp_all add: authorize_request_def authorization_header_def)
  have "api s w f (authorization_header ?r) (action_body cd (hq_body ?r)) d = ((RAction i res ids, 200), d')"
    unfolding h transmitted [OF assms(1,2)]
    using assms(3-5) st by (simp add: api_def endpoint_def transaction_def is_service_def)
  then have send: "service_send cd s w f Delivered ?r (d, u) = (Some (200, write_json (encode_action_response i res ids)), (d', u))"
    by (simp add: service_send_def response_body_def)
  have "valid_utf8 ALLOW" unfolding ALLOW_def by code_simp
  then have "read_receipt (cd_lower cd) (Some (200, write_json (encode_action_response i res ids)))
      = Inr \<lparr>au_action = i, au_result = res, au_consumed = Some ids\<rparr>"
    by (intro receipt_read) (use assms(6-10) vs in \<open>simp_all add: utf8_result_def\<close>)
  then show ?thesis by (simp add: service_authorize_def authorize_def send)
qed

lemma allowed_forwarded:
  assumes "admit (cd_lower cd) sc opts t q = Inr a" and "sendable_tool (cd_lower cd) opts t"
    and "length (marshal_gw_action a) \<le> 1048576"
    and "is_service s (''Bearer '' @ az_token az)" and "f = \<lparr>f_begin = None, f_lock = None, f_commit = None\<rparr>"
    and "action s w (Inr (received a)) d = Inr ((RAction i res ids, status), d')" and "decision res = ALLOW"
    and "valid_utf8 i" and "i \<noteq> []" and "\<forall>x \<in> set ids. valid_utf8 x"
    and "length (write_json (encode_action_response i res ids)) \<le> 1048576"
    and "call (of_name t) (elems (ga_arguments a)) u = (answer, u')"
  shows "handler (cd_lower cd) sc opts (service_authorize cd s w f Delivered az) (upstream_call call) t q tr sr False (d, u)
    = (upstream_reply i answer, (d', u'))"
proof -
  have "service_authorize cd s w f Delivered az parent a (d, u)
      = (Inr \<lparr>au_action = i, au_result = res, au_consumed = Some ids\<rparr>, (d', u))" for parent
    by (rule allowed_receipt [OF admitted_sendable [OF assms(1,2)] assms(3-11)])
  moreover have "upstream_call call (of_name t) (elems (ga_arguments a)) (d', u) = (answer, (d', u'))"
    using assms(12) by (simp add: upstream_call_def)
  ultimately show ?thesis
    using assms(1,7,9) allowed_no_violations [OF assms(6,7)] by (simp add: handler_def)
qed

text \<open>
  C34: an admitted call that the control API allows is executed: with the service's token and no fault,
  loss or missed deadline, the handler calls the upstream exactly once, with the arguments of the request,
  and returns its answer under the action id of the decision.
\<close>

theorem allowed_call_forwarded:
  assumes "admit (cd_lower cd) sc opts t q = Inr a" and "sendable_tool (cd_lower cd) opts t"
    and "length (marshal_gw_action a) \<le> 1048576"
    and "is_service s (''Bearer '' @ az_token az)" and "f = \<lparr>f_begin = None, f_lock = None, f_commit = None\<rparr>"
    and "action s w (Inr (received a)) d = Inr ((RAction i res ids, status), d')" and "decision res = ALLOW"
    and "valid_utf8 i" and "i \<noteq> []" and "\<forall>x \<in> set ids. valid_utf8 x"
    and "length (write_json (encode_action_response i res ids)) \<le> 1048576"
    and "call (of_name t) (elems (ga_arguments a)) u = (answer, u')"
  shows "handler (cd_lower cd) sc opts (service_authorize cd s w f Delivered az) (upstream_call call) t q tr sr False (d, u)
    = (upstream_reply i answer, (d', u'))"
  using assms by (rule allowed_forwarded)

section \<open>The refund of the scenario, through the gateway\<close>

text \<open>The upstream counts its refunds.\<close>

definition demo_arguments :: "(string \<times> json) list" where
  "demo_arguments = [(''order_id'', JStr ''48319''), (''amount'', JNum ''825'')]"

definition demo_params :: call_params where
  "demo_params = \<lparr>cp_traceparent = [], cp_state = [], cp_inputs = 0, cp_arguments = print_json (JObj demo_arguments)\<rparr>"

definition demo_action :: gw_action where
  "demo_action =
     \<lparr>ga_envelope = ''env_child'', ga_agent = ''notification-agent'', ga_tool = ''refunds.create'',
      ga_resources = Some [(''orders'', Some [''48319''])], ga_classes = Some [''payment_metadata''],
      ga_arguments = Some demo_arguments\<rparr>"

definition demo_answer :: mcp_result where
  "demo_answer =
     \<lparr>mr_error = False, mr_needs_input = False, mr_input_requests = False, mr_state = [], mr_json = Some ''{}''\<rparr>"

definition demo_call :: "string \<Rightarrow> (string \<times> json) list \<Rightarrow> nat \<Rightarrow> (string + mcp_result option) \<times> nat" where
  "demo_call name args n = (Inr (Some demo_answer), Suc n)"

definition demo_az :: authorizer where
  "demo_az = \<lparr>az_endpoint = ''http://127.0.0.1:8080/v1/evaluate/action'', az_token = ''service''\<rparr>"

lemma demo_sendable: "sendable_tool (cd_lower sample_codec) demo_options demo_offered"
proof -
  have "valid_utf8 ''env_child''" "valid_utf8 ''notification-agent''" by code_simp+
  then show ?thesis
    using refund_utf8 by (simp add: sendable_tool_def demo_options_def demo_offered_def) (simp add: refund_mapping_def)
qed

lemma demo_admitted:
  "admit (cd_lower sample_codec) demo_schemas demo_options demo_offered demo_params = Inr demo_action"
proof -
  have l: "length (print_json (JObj demo_arguments)) = 33" by code_simp
  have s: "strict_decode (\<lambda>r. r) (print_json (JObj demo_arguments)) = Inr (JObj demo_arguments)" by code_simp
  have b: "bounded_numbers (JObj demo_arguments)"
    by (simp add: demo_arguments_def bounded_literal_def exponent_text_def)
  have e: "extract_resources (JObj demo_arguments) refund_mapping = Inr [(''orders'', [''48319''])]"
    unfolding demo_arguments_def by (rule refund_extracted)
  have m: "decode_map decode_any JNull (JObj demo_arguments) None = Inr (Some demo_arguments)"
    by (rule decode_any_members) (simp add: demo_arguments_def)
  show ?thesis
    using l s b e m
    by (simp add: admit_def demo_params_def sample_codec_def demo_offered_def demo_options_def demo_schemas_def
        demo_action_def del: bounded_numbers.simps decode_map.simps print_json.simps) (simp add: refund_mapping_def)
qed

lemma demo_received: "received demo_action = action_1"
  by (simp add: received_def demo_action_def action_1_def refund_arguments_def) code_simp

lemma demo_token_ok: "is_service demo_server (''Bearer '' @ az_token demo_az)"
  by (simp add: demo_az_def is_service_def has_bearer_def bearer_def trim_prefix_def demo_server_def server_with_def)

lemma demo_size: "length (marshal_gw_action demo_action) \<le> 1048576"
proof -
  have "length (marshal_gw_action demo_action) = 198" by code_simp
  then show ?thesis by simp
qed

definition demo_id :: string where
  "demo_id = new_id ''action_'' (d_action draw4)"

lemma demo_receipt:
  "valid_utf8 demo_id" "demo_id \<noteq> []" "\<forall>x \<in> set [pr_id approval_row_1]. valid_utf8 x" "decision allow = ALLOW"
  "violations allow = []" "utf8_result allow"
  "length (write_json (encode_action_response demo_id allow [pr_id approval_row_1])) \<le> 1048576"
proof -
  show a: "decision allow = ALLOW" and v: "violations allow = []" by (simp_all add: allow_def)
  have "valid_utf8 ALLOW" unfolding ALLOW_def by code_simp
  with a v show "utf8_result allow" by (simp add: utf8_result_def)
  show "valid_utf8 demo_id" "demo_id \<noteq> []" by code_simp+
  have "valid_utf8 (pr_id approval_row_1)" by code_simp
  then show "\<forall>x \<in> set [pr_id approval_row_1]. valid_utf8 x" by simp
  have "length (write_json (encode_action_response demo_id allow [pr_id approval_row_1])) = 116" by code_simp
  then show "length (write_json (encode_action_response demo_id allow [pr_id approval_row_1])) \<le> 1048576" by simp
qed

lemma demo_step:
  "action demo_server draw4 (Inr (received demo_action)) db_approved
     = Inr ((RAction demo_id allow [pr_id approval_row_1], 200), db_acted)"
  unfolding demo_received demo_id_def by (rule step_action)

lemma demo_called: "demo_call (of_name demo_offered) (elems (ga_arguments demo_action)) 0 = (Inr (Some demo_answer), 1)"
  by (simp add: demo_call_def)

lemma demo_reply: "upstream_reply demo_id (Inr (Some demo_answer)) = (Passed demo_answer, ''ok'')"
  by (simp add: upstream_reply_def demo_answer_def)

definition demo_handled :: "nat \<Rightarrow> (reply \<times> string) \<times> db \<times> nat" where
  "demo_handled n = handler (cd_lower sample_codec) demo_schemas demo_options
      (service_authorize sample_codec demo_server draw4 \<lparr>f_begin = None, f_lock = None, f_commit = None\<rparr> Delivered demo_az)
      (upstream_call demo_call) demo_offered demo_params (replicate 16 (CHR ''t'')) (replicate 8 (CHR ''s'')) False (db_approved, n)"

lemma demo_forwarded: "demo_handled 0 = ((Passed demo_answer, ''ok''), (db_acted, 1))"
  unfolding demo_handled_def demo_reply [symmetric]
  by (rule allowed_forwarded [where call = demo_call, OF demo_admitted demo_sendable demo_size demo_token_ok refl
        demo_step demo_receipt(4,1-3,7) demo_called])

theorem allowed_call_forwarded_witness: "demo_handled 0 = ((Passed demo_answer, ''ok''), (db_acted, 1))"
  unfolding demo_handled_def demo_reply [symmetric]
  by (rule allowed_call_forwarded [where call = demo_call, OF demo_admitted demo_sendable demo_size demo_token_ok refl
        demo_step demo_receipt(4,1-3,7) demo_called])

theorem forwarded_within_ancestors_witness:
  "(\<exists>i res ids. action demo_server draw4 (Inr action_1) db_approved = Inr ((RAction i res ids, 200), db_acted)
      \<and> decision res = ALLOW)
    \<and> permits root_env (OnResource ''orders'' ''48319'')"
proof -
  have "(1::nat) \<noteq> 0 \<or> Passed demo_answer = Passed demo_answer" by simp
  from forwarded_within_ancestors [OF demo_ok reachable_states(3) demo_sendable demo_forwarded [unfolded demo_handled_def] this]
  obtain a i res ids v vs where 1: "admit (cd_lower sample_codec) demo_schemas demo_options demo_offered demo_params = Inr a"
    "action demo_server draw4 (Inr (received a)) db_approved = Inr ((RAction i res ids, 200), db_acted)"
    "decision res = ALLOW" "load db_approved (op_envelope demo_options) = Inr v" "ancestry db_approved v vs"
    and all: "\<forall>x \<in> set vs. \<forall>y \<in> demands (received a). permits (st_env x) y" by blast
  have a: "received a = action_1" using 1(1) demo_admitted demo_received by simp
  have "ancestry db_approved child_stored [child_stored, root_stored]"
    by (rule child_ancestry) (simp_all add: loaded_both root_stored_def)
  moreover have "v = child_stored" using 1(4) by (simp add: loaded_both demo_options_def)
  ultimately have "root_stored \<in> set vs" using 1(5) ancestry_deterministic by fastforce
  moreover have "OnResource ''orders'' ''48319'' \<in> demands action_1" by (simp add: demands_def)
  moreover have "st_env root_stored = root_env" by (simp add: root_stored_def)
  ultimately show ?thesis using 1(2,3) all unfolding a by metis
qed

theorem action_transmitted_witness:
  "action_body sample_codec (marshal_gw_action demo_action) = PostAction (Inr action_1)"
  using action_transmitted [OF admitted_sendable [OF demo_admitted demo_sendable] demo_size] by (simp only: demo_received)

theorem receipt_transmitted_witness:
  "read_receipt (\<lambda>r. r) (Some (200, write_json (encode_action_response demo_id allow [pr_id approval_row_1])))
    = Inr \<lparr>au_action = demo_id, au_result = allow, au_consumed = Some [pr_id approval_row_1]\<rparr>"
  by (rule receipt_transmitted [OF demo_receipt(1-3,6,7)]) (simp add: demo_receipt)

end
