(* ===== verification/Accountability.thy ===== *)
theory Accountability
  imports Gateway_Guarantees "HOL-Library.Multiset"
begin

text \<open>
  Every upstream execution is accounted for: gateways and other clients of the control API take turns, in
  any order and with any losses and faults, and the audit log has an ALLOW of its own for each tool
  call that reached an upstream, for the same action and the hash of the same arguments.  One call of a
  gateway is one turn; its exchange with the API and its call of the upstream touch different parts of
  the world.
\<close>

section \<open>What the log allows\<close>

fun text_field :: "json \<Rightarrow> string \<Rightarrow> string" where
  "text_field v k = (case json_field v k of Some (JStr s) \<Rightarrow> s | _ \<Rightarrow> [])"

text \<open>The action and the hash of the arguments of an evaluation that ended in ALLOW.\<close>

definition allow_entry :: "audit_row \<Rightarrow> (string \<times> string) list" where
  "allow_entry r =
     (if au_type r = ''action.evaluated''
         \<and> (case json_field (au_payload r) ''result'' of Some v \<Rightarrow> text_field v ''decision'' = ALLOW | None \<Rightarrow> False)
      then [(text_field (au_payload r) ''tool'', text_field (au_payload r) ''arguments_hash'')] else [])"

definition allow_entries :: "audit_row list \<Rightarrow> (string \<times> string) list" where
  "allow_entries rs = concat (map allow_entry rs)"

lemma allow_entries_prefix: "prefix rs rs' \<Longrightarrow> mset (allow_entries rs) \<subseteq># mset (allow_entries rs')"
  by (auto simp: allow_entries_def prefix_def)

lemma allow_entry_action:
  "allow_entry (audit_event c rand now run ''action.evaluated'' (action_payload w q i hash res ids) d)
    = (if decision res = ALLOW then [(ac_tool q, hash)] else [])"
  by (simp add: allow_entry_def audit_event_def Let_def action_payload_def encode_result_def)

section \<open>Executions\<close>

text \<open>An upstream that writes down what it is called for: the mapped action and the arguments.\<close>

type_synonym execution = "string \<times> (string \<times> json) list"

definition logged ::
  "'schema offered \<Rightarrow> (string \<Rightarrow> (string \<times> json) list \<Rightarrow> 'v \<Rightarrow> (string + mcp_result option) \<times> 'v)
    \<Rightarrow> string \<Rightarrow> (string \<times> json) list \<Rightarrow> 'v \<times> execution list \<Rightarrow> (string + mcp_result option) \<times> 'v \<times> execution list" where
  "logged t call name args vl =
     (case call name args (fst vl) of (answer, v) \<Rightarrow> (answer, v, snd vl @ [(mp_action (of_mapping t), args)]))"

text \<open>The world: any gateway handles a call, or any other client, operator or start-up uses the API.\<close>

inductive world_step ::
  "codec \<Rightarrow> activation server \<Rightarrow> 'schema schemas \<Rightarrow> db \<times> 'v \<times> execution list \<Rightarrow> db \<times> 'v \<times> execution list \<Rightarrow> bool"
  for cd s sc where
  gateway_call:
    "sendable_tool (cd_lower cd) opts t \<Longrightarrow>
     handler (cd_lower cd) sc opts (service_authorize cd s w f l az) (upstream_call (logged t call)) t q tr sr late (d, vl)
       = (y, (d', vl')) \<Longrightarrow> world_step cd s sc (d, vl) (d', vl')"
| service: "api_step s d d' \<Longrightarrow> world_step cd s sc (d, vl) (d', vl)"

inductive_cases world_stepE: "world_step cd s sc x y"

definition executed :: "activation server \<Rightarrow> execution list \<Rightarrow> (string \<times> string) list" where
  "executed s calls = map (\<lambda>(tool, args). (tool, digest (srv_crypto s) (JObj args))) calls"

definition accounted :: "activation server \<Rightarrow> db \<times> 'v \<times> execution list \<Rightarrow> bool" where
  "accounted s x \<longleftrightarrow> mset (executed s (snd (snd x))) \<subseteq># mset (allow_entries (t_audit (fst x)))"

section \<open>Every step keeps the account\<close>

lemma sort_keys_idem [simp]: "sort_keys (sort_keys v) = sort_keys v"
proof (induction v)
  case (JObj kvs)
  let ?s = "sort_key fst (map (\<lambda>(k, v). (k, sort_keys v)) kvs)"
  have "map (\<lambda>(k, v). (k, sort_keys v)) ?s = ?s"
    by (rule map_idI) (use JObj in \<open>fastforce simp: snds.simps\<close>)
  then show ?case by (simp add: sort_key_id_if_sorted)
qed simp_all

lemma digest_sorted: "digest c (JObj (sorted_members kvs)) = digest c (JObj kvs)"
proof -
  have "JObj (sorted_members kvs) = sort_keys (JObj kvs)" by (simp add: sorted_members_def)
  then show ?thesis unfolding digest_def marshal_any_def by (simp only: sort_keys_idem)
qed

lemma api_audit_grows: "server_ok s \<Longrightarrow> api_step s d d' \<Longrightarrow> prefix (t_audit d) (t_audit d')"
  using step_extends [OF api_step_ledger] by (auto simp: extends_def)

lemma service_api_step:
  assumes "service_authorize cd s w f l az parent a (d, u) = (answer, (d', u'))"
  shows "(d' = d \<or> api_step s d d') \<and> u' = u"
proof (cases "l = Request_Lost")
  case True
  with assms show ?thesis by (simp add: service_authorize_def authorize_def service_send_def)
next
  case False
  let ?r = "authorize_request az parent a"
  obtain y d1 where a: "api s w f (authorization_header ?r) (action_body cd (hq_body ?r)) d = (y, d1)" by fastforce
  then have "d' = d1" "u' = u"
    using assms False by (auto simp: service_authorize_def authorize_def service_send_def split: prod.splits if_splits)
  with api_step.call [OF a] show ?thesis by simp
qed

lemma service_audit_grows:
  assumes "server_ok s" and "service_authorize cd s w f l az parent a (d, u) = (answer, (d', u'))"
  shows "prefix (t_audit d) (t_audit d') \<and> u' = u"
  using service_api_step [OF assms(2)] api_audit_grows [OF assms(1)] by auto

lemma granted_audit:
  assumes "granted_by s w a (d, u) (d', u')"
  shows "mset (allow_entries (t_audit d')) = mset (allow_entries (t_audit d))
    + {# (ga_tool a, digest (srv_crypto s) (JObj (elems (ga_arguments a)))) #}"
proof -
  obtain i res ids where act: "action s w (Inr (received a)) d = Inr ((RAction i res ids, 200), d')" "decision res = ALLOW"
    using assms by (auto simp: granted_by_def)
  have h: "arguments_hash s (ac_arguments (received a)) = digest (srv_crypto s) (JObj (elems (ga_arguments a)))"
    by (cases "ga_arguments a") (simp_all add: received_def digest_sorted)
  from act(1) show ?thesis
  proof (cases rule: action_Inr)
    case (1 v args res' ids')
    then have "res' = res" by simp
    then have "allow_entries (t_audit d') = allow_entries (t_audit d)
        @ [(ac_tool (received a), arguments_hash s (ac_arguments (received a)))]"
      using 1(10) act(2) by (simp add: allow_entries_def allow_entry_action)
    then show ?thesis unfolding h by (simp add: received_def)
  qed
qed

lemma admitted_tool: "admit lower sc opts t q = Inr a \<Longrightarrow> ga_tool a = mp_action (of_mapping t)"
  by (auto elim: admit_Inr)

lemma world_step_accounted:
  assumes "server_ok s" and "world_step cd s sc x y" and "accounted s x"
  shows "accounted s y"
  using assms(2)
proof (cases rule: world_step.cases)
  case (service d d' vl)
  have "mset (allow_entries (t_audit d)) \<subseteq># mset (allow_entries (t_audit d'))"
    by (rule allow_entries_prefix [OF api_audit_grows [OF assms(1) service(3)]])
  with assms(3) service show ?thesis by (auto simp: accounted_def intro: subset_mset.order_trans)
next
  case (gateway_call opts t w f l az call q tr sr late d vl out d' vl')
  obtain rep o' where out: "out = (rep, o')" by (cases out)
  from gateway_call(4) [unfolded out] show ?thesis
  proof (cases rule: handler_cases)
    case (rejected code m)
    with assms(3) gateway_call show ?thesis by simp
  next
    case (refused a answer m)
    from service_audit_grows [OF assms(1) refused(2)]
    have "mset (allow_entries (t_audit d)) \<subseteq># mset (allow_entries (t_audit d'))" "vl' = vl"
      by (simp_all add: allow_entries_prefix)
    with assms(3) gateway_call show ?thesis by (auto simp: accounted_def intro: subset_mset.order_trans)
  next
    case (forwarded a e w1 answer)
    obtain d1 u1 where w1: "w1 = (d1, u1)" by (cases w1)
    have "sendable (cd_lower cd) a" by (rule admitted_sendable [OF forwarded(1) gateway_call(3)])
    from control_api.receipt_granted [OF this forwarded(2,3)] have g: "granted_by s w a (d, vl) (d1, u1)" unfolding w1 .
    then have "u1 = vl" by (simp add: granted_by_def)
    with forwarded(7) w1 have y: "d' = d1" "snd vl' = snd vl @ [(mp_action (of_mapping t), elems (ga_arguments a))]"
      by (auto simp: upstream_call_def logged_def split: prod.splits)
    show ?thesis
      using assms(3) gateway_call(1,2) granted_audit [OF g] admitted_tool [OF forwarded(1)]
      by (simp add: accounted_def executed_def y)
  qed
qed

lemma world_accounted:
  assumes "server_ok s" and "(world_step cd s sc)\<^sup>*\<^sup>* x y" and "accounted s x"
  shows "accounted s y"
  using assms(2,3) by (induction rule: rtranclp_induct) (auto intro: world_step_accounted [OF assms(1)])

text \<open>
  The audit log accounts for every upstream execution: in every history that starts with an empty database,
  of any number of gateways and other clients, with lost messages and faults in between, the executed
  tool calls (with the hashes of the arguments the upstream got) are, as a multiset, among the evaluations
  that the log records as ALLOW; so no decision is used for two executions.
\<close>

theorem executions_accounted:
  assumes "server_ok s" and "(world_step cd s sc)\<^sup>*\<^sup>* (empty_db, v, []) (d, v', calls)"
  shows "mset (map (\<lambda>(tool, args). (tool, digest (srv_crypto s) (JObj args))) calls)
    \<subseteq># mset (allow_entries (t_audit d))"
proof -
  have "accounted s (empty_db, v, [])" by (simp add: accounted_def executed_def)
  from world_accounted [OF assms this] show ?thesis by (simp add: accounted_def executed_def)
qed

text \<open>The history of the scenario, with its refund executed through the gateway.\<close>

lemma demo_world:
  "(world_step sample_codec demo_server demo_schemas)\<^sup>*\<^sup>* (empty_db, 0::nat, [])
     (db_acted, 1, [(''refunds.create'', demo_arguments)])"
proof -
  have lift: "(world_step sample_codec demo_server demo_schemas)\<^sup>*\<^sup>* (d, vl) (d', vl)"
    if "(api_step demo_server)\<^sup>*\<^sup>* d d'" for d d' and vl :: "nat \<times> execution list"
    using that by (induction rule: rtranclp_induct) (auto intro: rtranclp.rtrancl_into_rtrancl world_step.service)
  have "(world_step sample_codec demo_server demo_schemas)\<^sup>*\<^sup>* (empty_db, 0::nat, []) (db_approved, 0, [])"
    by (rule lift) (rule reachable_states(3) [unfolded reachable_def])
  moreover have "logged demo_offered demo_call (of_name demo_offered) (elems (ga_arguments demo_action)) (0, [])
      = (Inr (Some demo_answer), 1, [(''refunds.create'', demo_arguments)])"
    by (simp add: logged_def demo_called) (simp add: demo_offered_def refund_mapping_def demo_action_def)
  from allowed_forwarded [where call = "logged demo_offered demo_call" and tr = "[]" and sr = "[]", OF demo_admitted demo_sendable demo_size demo_token_ok refl
        demo_step demo_receipt(4,1-3,7) this]
  have "world_step sample_codec demo_server demo_schemas (db_approved, 0::nat, []) (db_acted, 1, [(''refunds.create'', demo_arguments)])"
    by (rule world_step.gateway_call [OF demo_sendable])
  ultimately show ?thesis by (rule rtranclp.rtrancl_into_rtrancl)
qed

theorem executions_accounted_witness:
  "{# (''refunds.create'', digest (srv_crypto demo_server) (JObj demo_arguments)) #} \<subseteq># mset (allow_entries (t_audit db_acted))"
  using executions_accounted [OF demo_ok demo_world] by simp

end
