(* ===== verification/Interleaving.thy ===== *)
theory Interleaving
  imports Accountability
begin

text \<open>
  Calls in flight: the handler of one gateway call (\<open>internal/gateway/gateway.go\<close>) gives way to others twice,
  while it waits for the control API and while it waits for the upstream.  Here a call is taken apart
  at these points, and the parts of any number of calls, at any number of gateways, alternate with each
  other and with every other use of the API.
\<close>

section \<open>One call in parts\<close>

text \<open>Admitted and about to ask the API (with the span it sends), or answered by it.\<close>

datatype 'schema flight =
  Asking "'schema offered" string gw_action
| Answered "'schema offered" gw_action "string + authorization"

fun flight_action :: "'schema flight \<Rightarrow> gw_action" where
  "flight_action (Asking t parent a) = a"
| "flight_action (Answered t a answer) = a"

text \<open>The verdicts with which the handler goes on to the upstream.\<close>

definition forwardable :: "string + authorization \<Rightarrow> bool" where
  "forwardable answer \<longleftrightarrow>
     (case answer of
        Inl e \<Rightarrow> False
      | Inr d \<Rightarrow> \<not> (decision (au_result d) \<noteq> ALLOW \<or> violations (au_result d) \<noteq> [] \<or> au_action d = []))"

record ('schema, 'u) traffic =
  tf_db :: db
  tf_upstream :: 'u
  tf_flights :: "'schema flight multiset"
  tf_calls :: "gw_action list"

inductive traffic_step ::
  "codec \<Rightarrow> activation server \<Rightarrow> 'schema schemas
    \<Rightarrow> (string \<Rightarrow> (string \<times> json) list \<Rightarrow> 'u \<Rightarrow> (string + mcp_result option) \<times> 'u)
    \<Rightarrow> ('schema, 'u) traffic \<Rightarrow> ('schema, 'u) traffic \<Rightarrow> bool"
  for cd s sc call where
  arrives:
    "sendable_tool (cd_lower cd) opts t \<Longrightarrow> admit (cd_lower cd) sc opts t q = Inr a \<Longrightarrow>
     parent = span_header (start_span tr sr no_span (cp_traceparent q)) \<Longrightarrow>
     traffic_step cd s sc call x (x\<lparr>tf_flights := add_mset (Asking t parent a) (tf_flights x)\<rparr>)"
| asks:
    "tf_flights x = add_mset (Asking t parent a) m \<Longrightarrow>
     service_authorize cd s w f l az parent a (tf_db x, ()) = (answer, (d', u)) \<Longrightarrow>
     traffic_step cd s sc call x (x\<lparr>tf_db := d', tf_flights := add_mset (Answered t a answer) m\<rparr>)"
| gives_up:
    "tf_flights x = add_mset (Answered t a answer) m \<Longrightarrow> \<not> forwardable answer \<or> late \<Longrightarrow>
     traffic_step cd s sc call x (x\<lparr>tf_flights := m\<rparr>)"
| forwards:
    "tf_flights x = add_mset (Answered t a answer) m \<Longrightarrow> forwardable answer \<Longrightarrow>
     call (of_name t) (elems (ga_arguments a)) (tf_upstream x) = (reply, u') \<Longrightarrow>
     traffic_step cd s sc call x (x\<lparr>tf_upstream := u', tf_flights := m, tf_calls := tf_calls x @ [a]\<rparr>)"
| service: "api_step s (tf_db x) d' \<Longrightarrow> traffic_step cd s sc call x (x\<lparr>tf_db := d'\<rparr>)"

definition no_traffic :: "db \<Rightarrow> 'u \<Rightarrow> ('schema, 'u) traffic" where
  "no_traffic d u = \<lparr>tf_db = d, tf_upstream = u, tf_flights = {#}, tf_calls = []\<rparr>"

text \<open>The handler is these parts in their order, with nothing in between.\<close>

lemma service_authorize_upstream:
  assumes "service_authorize cd s w f l az parent a (d, u) = (answer, (d', u'))"
  shows "u' = u \<and> service_authorize cd s w f l az parent a (d, v) = (answer, (d', v))"
  using assms by (auto simp: service_authorize_def authorize_def service_send_def split: prod.splits if_splits)

lemma handler_in_parts:
  assumes "sendable_tool (cd_lower cd) opts t"
    and "handler (cd_lower cd) sc opts (service_authorize cd s w f l az) (upstream_call call) t q tr sr late
      (tf_db x, tf_upstream x) = ((rep, out), (d', u'))"
  shows "\<exists>cs. (traffic_step cd s sc call)\<^sup>*\<^sup>* x (x\<lparr>tf_db := d', tf_upstream := u', tf_calls := tf_calls x @ cs\<rparr>)
    \<and> (cs = [] \<and> u' = tf_upstream x \<or> (\<exists>a. admit (cd_lower cd) sc opts t q = Inr a \<and> cs = [a]))"
  using assms(2)
proof (cases rule: handler_cases)
  case (rejected code m)
  then show ?thesis by (intro exI [of _ "[]"]) simp
next
  case (refused a answer m)
  let ?parent = "span_header (start_span tr sr no_span (cp_traceparent q))"
  let ?x1 = "x\<lparr>tf_flights := add_mset (Asking t ?parent a) (tf_flights x)\<rparr>"
  let ?x2 = "?x1\<lparr>tf_db := d', tf_flights := add_mset (Answered t a answer) (tf_flights x)\<rparr>"
  have e: "u' = tf_upstream x" "service_authorize cd s w f l az ?parent a (tf_db x, ()) = (answer, (d', ()))"
    using service_authorize_upstream [OF refused(2), of "()"] by blast+
  have "traffic_step cd s sc call x ?x1" by (rule traffic_step.arrives [OF assms(1) refused(1) refl])
  moreover have "traffic_step cd s sc call ?x1 ?x2"
    by (rule traffic_step.asks [where parent = ?parent and w = w and f = f and l = l and az = az and u = "()"]) (simp_all add: e)
  moreover have "traffic_step cd s sc call ?x2 (?x2\<lparr>tf_flights := tf_flights x\<rparr>)"
    by (rule traffic_step.gives_up [where late = True]) simp_all
  ultimately have "(traffic_step cd s sc call)\<^sup>*\<^sup>* x (?x2\<lparr>tf_flights := tf_flights x\<rparr>)"
    by (meson converse_rtranclp_into_rtranclp rtranclp.rtrancl_refl)
  then show ?thesis by (intro exI [of _ "[]"]) (simp add: e)
next
  case (forwarded a e w1 answer)
  let ?parent = "span_header (start_span tr sr no_span (cp_traceparent q))"
  obtain d1 u1 where w1: "w1 = (d1, u1)" by (cases w1)
  have k: "u1 = tf_upstream x" "service_authorize cd s w f l az ?parent a (tf_db x, ()) = (Inr e, (d1, ()))"
    using service_authorize_upstream [OF forwarded(2) [unfolded w1], of "()"] by blast+
  have c: "d' = d1" "call (of_name t) (elems (ga_arguments a)) (tf_upstream x) = (answer, u')"
    using forwarded(7) k unfolding w1 by (auto simp: upstream_call_def split: prod.splits)
  let ?x1 = "x\<lparr>tf_flights := add_mset (Asking t ?parent a) (tf_flights x)\<rparr>"
  let ?x2 = "?x1\<lparr>tf_db := d', tf_flights := add_mset (Answered t a (Inr e)) (tf_flights x)\<rparr>"
  let ?x3 = "?x2\<lparr>tf_upstream := u', tf_flights := tf_flights x, tf_calls := tf_calls ?x2 @ [a]\<rparr>"
  have "traffic_step cd s sc call x ?x1" by (rule traffic_step.arrives [OF assms(1) forwarded(1) refl])
  moreover have "traffic_step cd s sc call ?x1 ?x2" 
    by (rule traffic_step.asks [where parent = ?parent and w = w and f = f and l = l and az = az and u = "()"]) (simp_all add: k c)
  moreover have "traffic_step cd s sc call ?x2 ?x3"
    by (rule traffic_step.forwards [where t = t and answer = "Inr e" and reply = answer]) (use forwarded(3-5) c in \<open>simp_all add: forwardable_def\<close>)
  ultimately have "(traffic_step cd s sc call)\<^sup>*\<^sup>* x ?x3"
    by (meson converse_rtranclp_into_rtranclp rtranclp.rtrancl_refl)
  then show ?thesis using forwarded(1) by (intro exI [of _ "[a]"]) simp
qed

section \<open>The account over interleaved calls\<close>

definition entry_of :: "activation server \<Rightarrow> gw_action \<Rightarrow> string \<times> string" where
  "entry_of s a = (ga_tool a, digest (srv_crypto s) (JObj (elems (ga_arguments a))))"

text \<open>The flights that carry an ALLOW which has not been used yet.\<close>

fun granted_flight :: "'schema flight \<Rightarrow> bool" where
  "granted_flight (Asking t parent a) = False"
| "granted_flight (Answered t a answer) = (case answer of Inl e \<Rightarrow> False | Inr d \<Rightarrow> decision (au_result d) = ALLOW)"

definition granted_actions :: "('schema, 'u) traffic \<Rightarrow> gw_action multiset" where
  "granted_actions x = image_mset flight_action (filter_mset granted_flight (tf_flights x))"

text \<open>What was executed or may still be executed without asking again.\<close>

definition spent :: "('schema, 'u) traffic \<Rightarrow> gw_action multiset" where
  "spent x = mset (tf_calls x) + granted_actions x"

definition in_account :: "codec \<Rightarrow> activation server \<Rightarrow> ('schema, 'u) traffic \<Rightarrow> bool" where
  "in_account cd s x \<longleftrightarrow>
     (\<forall>fl \<in># tf_flights x. sendable (cd_lower cd) (flight_action fl))
     \<and> image_mset (entry_of s) (spent x) \<subseteq># mset (allow_entries (t_audit (tf_db x)))"

lemma forwardable_granted: "forwardable answer \<Longrightarrow> granted_flight (Answered t a answer)"
  by (cases answer) (simp_all add: forwardable_def)

lemma service_grants:
  assumes "service_authorize cd s w f l az parent a (d, ()) = (answer, (d', u))" and "sendable (cd_lower cd) a"
    and "granted_flight (Answered t a answer)"
  shows "granted_by s w a (d, ()) (d', ())"
proof -
  obtain e where e: "answer = Inr e" "decision (au_result e) = ALLOW" using assms(3) by (cases answer) auto
  show ?thesis using control_api.receipt_granted [OF assms(2) assms(1) [unfolded e(1)] e(2)] by simp
qed

text \<open>How one step changes what is spent: only an ALLOW adds to it, and what it adds is in the log.\<close>

lemma traffic_step_spent:
  assumes "server_ok s" and "traffic_step cd s sc call x y" and "in_account cd s x"
  obtains (kept) "spent y \<subseteq># spent x" and "prefix (t_audit (tf_db x)) (t_audit (tf_db y))"
      and "\<forall>fl \<in># tf_flights y. sendable (cd_lower cd) (flight_action fl)"
  | (granted) w a where "spent y = add_mset a (spent x)" and "granted_by s w a (tf_db x, ()) (tf_db y, ())"
      and "\<forall>fl \<in># tf_flights y. sendable (cd_lower cd) (flight_action fl)"
  using assms(2)
proof (cases rule: traffic_step.cases)
  case (arrives opts t q a parent tr sr)
  with admitted_sendable [OF arrives(3,2)] assms(3) show thesis
    by (intro kept) (auto simp: spent_def granted_actions_def in_account_def)
next
  case (asks t parent a m w f l az answer d' u)
  then have fit: "sendable (cd_lower cd) a" "\<forall>fl \<in># m. sendable (cd_lower cd) (flight_action fl)"
    using assms(3) by (simp_all add: in_account_def)
  show thesis
  proof (cases "granted_flight (Answered t a answer)")
    case True
    with service_grants [OF asks(3) fit(1)] asks fit show thesis
      by (intro granted [of a w]) (auto simp: spent_def granted_actions_def)
  next
    case False
    with service_audit_grows [OF assms(1) asks(3)] asks fit show thesis
      by (intro kept) (auto simp: spent_def granted_actions_def)
  qed
next
  case (gives_up t a answer m late)
  with assms(3) show thesis by (intro kept) (auto simp: spent_def granted_actions_def in_account_def)
next
  case (forwards t a answer m reply u')
  with forwardable_granted [OF forwards(3), of t a] assms(3) show thesis
    by (intro kept) (auto simp: spent_def granted_actions_def in_account_def)
next
  case (service d')
  with api_audit_grows [OF assms(1) service(2)] assms(3) show thesis
    by (intro kept) (auto simp: spent_def granted_actions_def in_account_def)
qed

lemma traffic_step_account:
  assumes "server_ok s" and "traffic_step cd s sc call x y" and "in_account cd s x"
  shows "in_account cd s y"
  using assms
proof (cases rule: traffic_step_spent)
  case kept
  have "image_mset (entry_of s) (spent y) \<subseteq># image_mset (entry_of s) (spent x)" using kept(1) by (rule image_mset_subseteq_mono)
  also have "\<dots> \<subseteq># mset (allow_entries (t_audit (tf_db x)))" using assms(3) by (simp add: in_account_def)
  also have "\<dots> \<subseteq># mset (allow_entries (t_audit (tf_db y)))" using kept(2) by (rule allow_entries_prefix)
  finally show ?thesis using kept(3) by (simp add: in_account_def)
next
  case (granted w a)
  with assms(3) granted_audit [OF granted(2)] show ?thesis by (simp add: in_account_def entry_of_def)
qed

lemma traffic_account:
  assumes "server_ok s" and "(traffic_step cd s sc call)\<^sup>*\<^sup>* x y" and "in_account cd s x"
  shows "in_account cd s y"
  using assms(2,3) by (induction rule: rtranclp_induct) (auto intro: traffic_step_account [OF assms(1)])

lemma in_account_start: "in_account cd s (no_traffic d u)"
  by (simp add: in_account_def no_traffic_def spent_def granted_actions_def)

text \<open>
  C4: the audit log accounts for every upstream execution, however the calls interleave.  Let any number of
  gateways handle calls, each stopping to wait for the control API and for the upstream while the others
  and all other clients go on, with lost messages and faults in between: the executed tool calls (with the hashes of the
  arguments the upstream got) are, as a multiset, among the evaluations the log records as ALLOW, so
  no decision is used for two executions.
\<close>

theorem interleaved_calls_accounted:
  assumes "server_ok s" and "(traffic_step cd s sc call)\<^sup>*\<^sup>* (no_traffic empty_db u) x"
  shows "mset (map (\<lambda>a. (ga_tool a, digest (srv_crypto s) (JObj (elems (ga_arguments a))))) (tf_calls x))
    \<subseteq># mset (allow_entries (t_audit (tf_db x)))"
proof -
  have "image_mset (entry_of s) (mset (tf_calls x)) + image_mset (entry_of s) (granted_actions x)
      \<subseteq># mset (allow_entries (t_audit (tf_db x)))"
    using traffic_account [OF assms in_account_start] by (simp add: in_account_def spent_def)
  then have "image_mset (entry_of s) (mset (tf_calls x)) \<subseteq># mset (allow_entries (t_audit (tf_db x)))"
    by (rule subset_mset.order_trans [OF mset_subset_eq_add_left])
  then show ?thesis by (simp add: entry_of_def [abs_def])
qed

section \<open>A revocation overtakes all but the calls in flight\<close>

lemma ancestry_kept:
  assumes "ancestry d v vs" and "extends d d'" and "st_parent v' = st_parent v" and "stored_id v' = stored_id v"
  shows "\<exists>vs'. ancestry d' v' vs' \<and> map stored_id vs' = map stored_id vs"
  using assms
proof (induction arbitrary: v' rule: ancestry.induct)
  case (root v)
  then show ?case by (intro exI [of _ "[v']"]) (simp add: ancestry.root)
next
  case (up v p u us)
  obtain r where r: "find_envelope d p = Some r" "er_doc r = Some (st_env u)" "env_id (st_env u) = p" "st_parent u = er_parent r"
    using up.hyps(2) by (auto simp: load_Inr)
  then obtain r' where r': "find_envelope d' p = Some r'" "keeps_envelope r r'"
    using up.prems(1) unfolding extends_def by blast
  let ?u = "\<lparr>st_env = st_env u, st_run = er_run r', st_revoked = er_revoked r', st_parent = er_parent r'\<rparr>"
  have l: "load d' p = Inr ?u" using r r' by (simp add: load_Inr keeps_envelope_def)
  have "st_parent ?u = st_parent u" "stored_id ?u = stored_id u"
    using r(4) r'(2) by (simp_all add: keeps_envelope_def stored_id_def)
  from up.IH [OF up.prems(1) this] obtain us' where "ancestry d' ?u us'" "map stored_id us' = map stored_id us" by blast
  then show ?case
    using up.hyps(1) up.prems(2,3) l by (intro exI [of _ "v' # us'"]) (auto intro: ancestry.up)
qed

text \<open>No action of an envelope is granted once it or an ancestor was revoked.\<close>

lemma revoked_not_granted:
  assumes "load d j = Inr v" and "ancestry d v vs" and "z \<in> set vs" and "st_revoked z \<noteq> None"
    and "extends d e" and "granted_by s w a (e, u) (e', u')"
  shows "ga_envelope a \<noteq> j"
proof
  assume j: "ga_envelope a = j"
  obtain i res ids where "action s w (Inr (received a)) e = Inr ((RAction i res ids, 200), e')" "decision res = ALLOW"
    using assms(6) by (auto simp: granted_by_def)
  then obtain y where y: "load e j = Inr y" "active s (d_now w) e y = Inr ()"
    using action_ALLOW j by (auto simp: received_def)
  obtain r r' where "find_envelope d j = Some r" "st_parent v = er_parent r" "er_doc r = Some (st_env v)"
      "find_envelope e j = Some r'" "st_parent y = er_parent r'" "er_doc r' = Some (st_env y)" "keeps_envelope r r'"
    using assms(1,5) y(1) unfolding load_Inr extends_def by fastforce
  then have "st_parent y = st_parent v" "stored_id y = stored_id v" by (auto simp: keeps_envelope_def stored_id_def)
  from ancestry_kept [OF assms(2,5) this] obtain ys where ys: "ancestry e y ys" "map stored_id ys = map stored_id vs" by blast
  have "stored_id z \<in> set (map stored_id ys)" unfolding ys(2) using assms(3) by simp
  moreover have "load d (stored_id v) = Inr v" using assms(1) load_id [OF assms(1)] by (simp add: stored_id_def)
  from ancestry_loaded [OF assms(2) this assms(3)] have "load d (stored_id z) = Inr z" .
  ultimately show False using revoked_forever [OF assms(5) _ assms(4) y(1) ys(1)] y(2) by auto
qed

lemma traffic_step_extends:
  assumes "server_ok s" and "traffic_step cd s sc call x y"
  shows "extends (tf_db x) (tf_db y)"
proof -
  have grows: "api_step s d d' \<Longrightarrow> extends d d'" for d d' using api_steps_extend [OF assms(1)] by blast
  from assms(2) show ?thesis
  proof (cases rule: traffic_step.cases)
    case (asks t parent a m w f l az answer d' u)
    with service_api_step [OF asks(3)] grows show ?thesis by (auto intro: extends_refl)
  qed (use grows in \<open>auto intro: extends_refl\<close>)
qed

definition of_envelope :: "string \<Rightarrow> gw_action multiset \<Rightarrow> gw_action multiset" where
  "of_envelope j m = filter_mset (\<lambda>a. ga_envelope a = j) m"

lemma revoked_spent:
  assumes "server_ok s" and "in_account cd s x" and "(traffic_step cd s sc call)\<^sup>*\<^sup>* x y"
    and "load (tf_db x) j = Inr v" and "ancestry (tf_db x) v vs" and "z \<in> set vs" and "st_revoked z \<noteq> None"
  shows "of_envelope j (spent y) \<subseteq># of_envelope j (spent x) \<and> extends (tf_db x) (tf_db y) \<and> in_account cd s y"
  using assms(3)
proof (induction rule: rtranclp_induct)
  case base
  show ?case using assms(2) by (simp add: extends_refl)
next
  case (step y y')
  have e: "extends (tf_db x) (tf_db y')"
    using step.IH traffic_step_extends [OF assms(1) step.hyps(2)] by (blast intro: extends_trans)
  have i: "in_account cd s y'" using traffic_step_account [OF assms(1) step.hyps(2)] step.IH by blast
  have "in_account cd s y" using step.IH by simp
  with assms(1) step.hyps(2) have "of_envelope j (spent y') \<subseteq># of_envelope j (spent y)"
  proof (cases rule: traffic_step_spent)
    case kept
    then show ?thesis by (simp add: of_envelope_def multiset_filter_mono)
  next
    case (granted w a)
    have "ga_envelope a \<noteq> j"
      by (rule revoked_not_granted [OF assms(4-7) _ granted(2)]) (use step.IH in blast)
    with granted(1) show ?thesis by (simp add: of_envelope_def)
  qed
  then show ?case using step.IH e i by (blast intro: subset_mset.order_trans)
qed

text \<open>
  C8: a revocation overtakes all but the calls in flight.  Whatever happens after a moment in which an envelope or one of
  its ancestors is revoked, the upstream executes no call of that envelope beyond those executed and
  those whose ALLOW had already come back to a gateway at that moment.
\<close>

theorem revocation_overtakes:
  assumes "server_ok s" and "(traffic_step cd s sc call)\<^sup>*\<^sup>* (no_traffic empty_db u) x"
    and "load (tf_db x) j = Inr v" and "ancestry (tf_db x) v vs" and "z \<in> set vs" and "st_revoked z \<noteq> None"
    and "(traffic_step cd s sc call)\<^sup>*\<^sup>* x y"
  shows "of_envelope j (mset (tf_calls y)) \<subseteq># of_envelope j (mset (tf_calls x) + granted_actions x)"
proof -
  have "of_envelope j (spent y) \<subseteq># of_envelope j (spent x)"
    using revoked_spent [OF assms(1) traffic_account [OF assms(1,2) in_account_start] assms(7,3-6)] by blast
  moreover have "of_envelope j (mset (tf_calls y)) \<subseteq># of_envelope j (spent y)"
    by (simp add: spent_def of_envelope_def)
  ultimately show ?thesis unfolding spent_def by (rule subset_mset.order_trans [rotated])
qed

text \<open>The refund of the scenario, overtaken by the revocation of its root while its ALLOW was on the way.\<close>

abbreviation demo_traffic :: "(unit, nat) traffic \<Rightarrow> (unit, nat) traffic \<Rightarrow> bool" where
  "demo_traffic \<equiv> traffic_step sample_codec demo_server demo_schemas demo_call"

lemma demo_overtaken:
  obtains x y where "demo_traffic\<^sup>*\<^sup>* (no_traffic empty_db 0) x" and "demo_traffic\<^sup>*\<^sup>* x y"
    and "tf_db x = db_revoked" and "tf_calls x = []" and "granted_actions x = {#demo_action#}"
    and "tf_db y = db_revoked" and "tf_calls y = [demo_action]"
proof -
  let ?parent = "span_header (start_span [] [] no_span (cp_traceparent demo_params))"
  let ?answer = "Inr \<lparr>au_action = demo_id, au_result = allow, au_consumed = Some [pr_id approval_row_1]\<rparr>"
  let ?x0 = "no_traffic db_approved (0::nat)"
  let ?x1 = "?x0\<lparr>tf_flights := add_mset (Asking demo_offered ?parent demo_action) (tf_flights ?x0)\<rparr>"
  let ?x2 = "?x1\<lparr>tf_db := db_acted, tf_flights := add_mset (Answered demo_offered demo_action ?answer) {#}\<rparr>"
  let ?x3 = "?x2\<lparr>tf_db := db_revoked\<rparr>"
  let ?x4 = "?x3\<lparr>tf_upstream := 1, tf_flights := {#}, tf_calls := tf_calls ?x3 @ [demo_action]\<rparr>"
  have lift: "demo_traffic\<^sup>*\<^sup>* (no_traffic d u) (no_traffic d' u)" if "(api_step demo_server)\<^sup>*\<^sup>* d d'" for d d' u
    using that
  proof (induction rule: rtranclp_induct)
    case (step d1 d2)
    have "demo_traffic (no_traffic d1 u) ((no_traffic d1 u)\<lparr>tf_db := d2\<rparr>)"
      by (rule traffic_step.service) (simp add: no_traffic_def step.hyps)
    with step.IH show ?case by (auto simp: no_traffic_def intro: rtranclp.rtrancl_into_rtrancl)
  qed simp
  have 0: "demo_traffic\<^sup>*\<^sup>* (no_traffic empty_db 0) ?x0" by (rule lift) (rule reachable_states(3) [unfolded reachable_def])
  have 1: "demo_traffic ?x0 ?x1" by (rule traffic_step.arrives [OF demo_sendable demo_admitted refl])
  have 2: "demo_traffic ?x1 ?x2"
    by (rule traffic_step.asks [where u = "()", OF _ allowed_receipt [OF admitted_sendable [OF demo_admitted demo_sendable]
          demo_size demo_token_ok refl _ demo_receipt(4,1-3,7)]]) (use demo_step in \<open>simp_all add: no_traffic_def\<close>)
  have 3: "demo_traffic ?x2 ?x3" by (rule traffic_step.service) (use steps(5) in simp)
  have "forwardable ?answer" using demo_receipt(2,4,5) by (simp add: forwardable_def)
  then have 4: "demo_traffic ?x3 ?x4" 
    by (intro traffic_step.forwards [where t = demo_offered and reply = "Inr (Some demo_answer)"])
      (simp_all add: demo_call_def no_traffic_def)
  have "demo_traffic\<^sup>*\<^sup>* (no_traffic empty_db 0) ?x3" using 0 1 2 3 by (meson rtranclp.rtrancl_into_rtrancl)
  moreover have "demo_traffic\<^sup>*\<^sup>* ?x3 ?x4" using 4 by blast
  ultimately show thesis
    by (rule that) (use demo_receipt(4) in \<open>simp_all add: no_traffic_def granted_actions_def\<close>)
qed

theorem interleaved_calls_accounted_witness:
  "{# (''refunds.create'', digest (srv_crypto demo_server) (JObj demo_arguments)) #} \<subseteq># mset (allow_entries (t_audit db_revoked))"
proof (rule demo_overtaken)
  fix x y
  assume 1: "demo_traffic\<^sup>*\<^sup>* (no_traffic empty_db 0) x"
    "demo_traffic\<^sup>*\<^sup>* x y"
    "tf_db y = db_revoked" "tf_calls y = [demo_action]"
  have "ga_tool demo_action = ''refunds.create''" "elems (ga_arguments demo_action) = demo_arguments" by (simp_all add: demo_action_def)
  with interleaved_calls_accounted [OF demo_ok rtranclp_trans [OF 1(1,2)]] 1(3,4) show ?thesis by simp
qed

theorem revocation_overtakes_witness:
  "\<exists>(x::(unit, nat) traffic) (y::(unit, nat) traffic). granted_actions x = {#demo_action#} \<and> tf_calls x = [] \<and> tf_calls y = [demo_action]
     \<and> of_envelope ''env_child'' (mset (tf_calls y)) \<subseteq># of_envelope ''env_child'' (mset (tf_calls x) + granted_actions x)"
proof (rule demo_overtaken)
  fix x y
  assume 1: "demo_traffic\<^sup>*\<^sup>* (no_traffic empty_db 0) x"
    "demo_traffic\<^sup>*\<^sup>* x y"
    and 2: "tf_db x = db_revoked" "tf_calls x = []" "granted_actions x = {#demo_action#}" "tf_calls y = [demo_action]"
  have "load (tf_db x) ''env_child'' = Inr child_stored" "ancestry (tf_db x) child_stored [child_stored, revoked_root]"
    using load_child_revoked revoked_chain 2(1) by simp_all
  from revocation_overtakes [OF demo_ok 1(1) this _ _ 1(2), of revoked_root]
  have "of_envelope ''env_child'' (mset (tf_calls y)) \<subseteq># of_envelope ''env_child'' (mset (tf_calls x) + granted_actions x)"
    by (simp add: revoked_root_def)
  with 2 show ?thesis by blast
qed

end
