(* ===== verification/Metrics.thy ===== *)
theory Metrics
  imports Scenario Go_Float
begin

text \<open>
  The metrics of the control API (\<open>internal/server/metrics.go\<close>) and what \<open>wrapEndpoint\<close> feeds them: the
  counters are 64-bit words, durations are IEEE doubles (the non-negative ones; \<open>None\<close> is the infinity
  an overflow gives).
\<close>

section \<open>Seconds\<close>

type_synonym double = "(nat \<times> int) option"


fun double_add :: "double \<Rightarrow> double \<Rightarrow> double" where
  "double_add (Some (m, k)) (Some (n, l)) =
     (let e = min k l; s = m * 2 ^ nat (k - e) + n * 2 ^ nat (l - e)
      in if 0 \<le> e then round_double (s * 2 ^ nat e) 1 else round_double s (2 ^ nat (- e)))"
| "double_add x y = None"

text \<open>\<open>Duration.Seconds\<close> of a number of nanoseconds.\<close>

definition seconds :: "nat \<Rightarrow> double" where
  "seconds ns = double_add (round_double (ns div 1000000000) 1) (round_double (ns mod 1000000000) 1000000000)"

section \<open>Counters (metrics, observe)\<close>

record metrics =
  mt_requests :: "64 word list"
  mt_authorizations :: "64 word list"
  mt_buckets :: "64 word list"
  mt_sum :: double
  mt_count :: "64 word"


definition latency_bounds :: "double list" where
  "latency_bounds =
     map (\<lambda>(n, m). round_double n m)
       [(1, 1000), (5, 1000), (1, 100), (25, 1000), (5, 100), (1, 10), (25, 100), (1, 1), (5, 1)]"

definition authorization_outcomes :: "string list" where
  "authorization_outcomes = [''allow'', ''deny'', ''rejected'', ''error'']"

definition status_class :: "nat \<Rightarrow> nat" where
  "status_class status = (let c = status div 100 in if c < 1 \<or> c > 5 then 5 else c)"


section \<open>The exposition (serveMetrics)\<close>

definition text_line :: "string \<Rightarrow> string" where
  "text_line s = s @ [CHR 0x0A]"

definition metric_line :: "string \<Rightarrow> 64 word \<Rightarrow> string" where
  "metric_line name n = text_line (name @ '' '' @ show_nat (unat n))"

text \<open>\<open>fmt_g\<close> is the verb \<open>%g\<close>.\<close>

definition metrics_text :: "(double \<Rightarrow> string) \<Rightarrow> metrics \<Rightarrow> string" where
  "metrics_text fmt_g m =
     text_line ''# HELP counterseal_http_requests_total API endpoint requests by HTTP status class, excluding health and metrics.''
     @ text_line ''# TYPE counterseal_http_requests_total counter''
     @ concat (map (\<lambda>i. metric_line (''counterseal_http_requests_total{status_class='' @ [CHR 0x22] @ show_nat i @ ''xx''
         @ [CHR 0x22] @ ''}'') (mt_requests m ! i)) [1..<6])
     @ text_line ''# HELP counterseal_authorization_requests_total Action evaluations: committed allow/deny, rejected input/auth, or service error.''
     @ text_line ''# TYPE counterseal_authorization_requests_total counter''
     @ concat (map2 (\<lambda>name n. metric_line (''counterseal_authorization_requests_total{outcome='' @ quote name @ ''}'') n)
         authorization_outcomes (mt_authorizations m))
     @ text_line ''# HELP counterseal_authorization_duration_seconds Total action endpoint latency including authentication, transaction wait and commit; excludes upstream execution.''
     @ text_line ''# TYPE counterseal_authorization_duration_seconds histogram''
     @ concat (map2 (\<lambda>bound n. metric_line (''counterseal_authorization_duration_seconds_bucket{le='' @ [CHR 0x22] @ fmt_g bound
         @ [CHR 0x22] @ ''}'') n) latency_bounds (mt_buckets m))
     @ metric_line (''counterseal_authorization_duration_seconds_bucket{le='' @ [CHR 0x22] @ ''+Inf'' @ [CHR 0x22] @ ''}'') (mt_count m)
     @ text_line (''counterseal_authorization_duration_seconds_sum '' @ fmt_g (mt_sum m))
     @ metric_line ''counterseal_authorization_duration_seconds_count'' (mt_count m)"

definition serve_metrics :: "'ctx server \<Rightarrow> (double \<Rightarrow> string) \<Rightarrow> string \<Rightarrow> metrics \<Rightarrow> (json + string) \<times> nat" where
  "serve_metrics s fmt_g h m =
     (if \<not> is_service s h then (Inl (JObj [(''error'', JStr ''service authentication required'')]), 401)
      else (Inr (metrics_text fmt_g m), 200))"

text \<open>\<open>GET /healthz\<close>: the database answers the ping or not.\<close>

definition healthz :: "bool \<Rightarrow> json \<times> nat" where
  "healthz reachable_db =
     (if reachable_db then (JObj [(''status'', JStr ''ok'')], 200) else (JObj [(''status'', JStr ''unavailable'')], 503))"

section \<open>Measured calls\<close>

definition is_action :: "request \<Rightarrow> bool" where
  "is_action r = (case r of PostAction b \<Rightarrow> True | _ \<Rightarrow> False)"

text \<open>A call fails when it has no bearer token or its transaction returns an error.\<close>

definition call_failed :: "activation server \<Rightarrow> draws \<Rightarrow> faults \<Rightarrow> string \<Rightarrow> request \<Rightarrow> db \<Rightarrow> bool" where
  "call_failed s w f h r d =
     (\<not> is_public r \<and> \<not> has_bearer h
      \<or> (case fst (transaction f (endpoint s w h r) d) of Inl e \<Rightarrow> True | Inr y \<Rightarrow> False))"


section \<open>The counters count\<close>

type_synonym observation = "nat \<times> bool \<times> string \<times> double"






text \<open>A history of calls, with the responses.\<close>

type_synonym call = "draws \<times> faults \<times> string \<times> request \<times> nat"




text \<open>What the calls of a history contribute.\<close>

fun observed :: "activation server \<Rightarrow> call list \<Rightarrow> db \<Rightarrow> observation list" where
  "observed s [] d = []"
| "observed s ((w, f, h, r, ns) # cs) d =
     (case api s w f h r d of
        (y, d') \<Rightarrow> (snd y, is_action r, outcome_label r y (call_failed s w f h r d), seconds ns) # observed s cs d')"





lemma observed_length [simp]: "length (observed s cs d) = length cs"
  by (induction s cs d rule: observed.induct) (auto split: prod.splits)






end
