(* ===== verification/Decode_Valid.thy ===== *)
theory Decode_Valid
  imports Decode
begin

text \<open>
  What the typed decoder of an envelope guarantees whatever the document holds: all text is valid UTF-8,
  no resource category appears twice, and an expiry that was given is one that prints and parses again.
\<close>

section \<open>Properties a decoder keeps\<close>

definition keeps :: "('a \<Rightarrow> bool) \<Rightarrow> 'a field \<Rightarrow> bool" where
  "keeps P f \<longleftrightarrow> (\<forall>n v x y. readable n v \<and> P x \<and> f v x = Inr y \<longrightarrow> P y)"

lemma keepsI:
  assumes "\<And>n v x y. readable n v \<Longrightarrow> P x \<Longrightarrow> f v x = Inr y \<Longrightarrow> P y"
  shows "keeps P f"
  using assms unfolding keeps_def by blast

lemma keepsD: "keeps P f \<Longrightarrow> f v x = Inr y \<Longrightarrow> readable n v \<Longrightarrow> P x \<Longrightarrow> P y"
  unfolding keeps_def by blast

lemma keeps_True: "keeps (\<lambda>_. True) f"
  by (simp add: keeps_def)

lemma keeps_field:
  assumes "keeps P f" and "\<And>s. Q s \<Longrightarrow> P (sel s)" and "\<And>s x. Q s \<Longrightarrow> P x \<Longrightarrow> Q (upd x s)"
  shows "keeps Q (at_field sel upd f)"
proof (rule keepsI)
  fix n v s t
  assume 1: "readable n v" "Q s" "at_field sel upd f v s = Inr t"
  then obtain x where x: "f v (sel s) = Inr x" "t = upd x s" by (auto simp: at_field_def rbind_eq_Inr)
  have "P x" by (rule keepsD [OF assms(1) x(1) 1(1)]) (rule assms(2) [OF 1(2)])
  then show "Q t" using assms(3) 1(2) x(2) by simp
qed

lemma find_field_in: "find_field fs k = Some f \<Longrightarrow> \<exists>k'. (k', f) \<in> set fs"
  by (auto simp: find_field_def find_Some_iff split: option.splits dest: map_of_SomeD nth_mem) (metis nth_mem)

lemma keeps_struct:
  assumes "\<forall>f \<in> set (map snd fs). keeps P f"
  shows "keeps P (decode_struct strict fs)"
proof (rule keepsI)
  fix n v x y
  assume 1: "readable n v" "P x" "decode_struct strict fs v x = Inr y"
  show "P y"
  proof (cases v)
    case (JObj kvs)
    then have "fold_result (decode_member strict fs) kvs x = Inr y" using 1(3) by simp
    then show ?thesis
    proof (rule fold_result_invariant)
      fix kv s s'
      assume 2: "kv \<in> set kvs" "P s" "decode_member strict fs kv s = Inr s'"
      obtain k w where kv: "kv = (k, w)" by (cases kv)
      have w: "readable (n - 1) w" using 1(1) JObj 2(1) kv by auto
      show "P s'"
      proof (cases "find_field fs k")
        case None
        with 2 kv show ?thesis by (simp add: decode_member_def split: if_splits)
      next
        case (Some f)
        then have "keeps P f" using assms find_field_in by fastforce
        then show ?thesis using 2 kv w Some by (auto simp: decode_member_def dest: keepsD)
      qed
    qed (rule 1(2))
  qed (use 1 in auto)
qed

lemma keeps_string: "keeps valid_utf8 decode_string"
proof (rule keepsI)
  show "readable n v \<Longrightarrow> valid_utf8 x \<Longrightarrow> decode_string v x = Inr y \<Longrightarrow> valid_utf8 y" for n v x y
    by (cases v) auto
qed

lemma keeps_slice:
  assumes "keeps P f" and "P zero"
  shows "keeps (\<lambda>s. \<forall>x \<in> set (elems s). P x) (decode_slice f zero)"
proof (rule keepsI)
  fix n v s t
  assume 1: "readable n v" "\<forall>x \<in> set (elems s). P x" "decode_slice f zero v s = Inr t"
  show "\<forall>x \<in> set (elems t). P x"
  proof (cases v)
    case (JArr vs)
    have "\<forall>x \<in> set xs. P x"
      if "decode_elems f zero vs olds = Inr xs" "\<forall>v \<in> set vs. readable (n - 1) v" "\<forall>x \<in> set olds. P x" for xs olds
      using that
    proof (induction vs arbitrary: olds xs)
      case (Cons v vs)
      then obtain x ys where x: "f v (case olds of [] \<Rightarrow> zero | x # _ \<Rightarrow> x) = Inr x" "decode_elems f zero vs (tl olds) = Inr ys"
        "xs = x # ys" by (auto simp: rbind_eq_Inr)
      have "P (case olds of [] \<Rightarrow> zero | x # _ \<Rightarrow> x)" using Cons.prems(3) assms(2) by (cases olds) auto
      with x(1) Cons.prems(2) have "P x" by (auto intro: keepsD [OF assms(1)])
      moreover have "\<forall>x \<in> set ys. P x"
        by (rule Cons.IH [OF x(2)]) (use Cons.prems in \<open>cases olds; auto\<close>)+
      ultimately show ?case using x(3) by simp
    qed simp
    then show ?thesis using 1 JArr by (auto simp: rbind_eq_Inr)
  qed (use 1 in auto)
qed

lemma put_entry_keys: "distinct (map fst m) \<Longrightarrow> distinct (map fst (put_entry k v m))"
proof (cases "k \<in> fst ` set m")
  case True
  have "map fst (map (\<lambda>(l, u). (l, if l = k then v else u)) m) = map fst m" by (rule nth_equalityI) (simp_all add: split_beta)
  with True show "distinct (map fst m) \<Longrightarrow> ?thesis" unfolding put_entry_def by (simp only: if_True simp_thms)
qed (simp add: put_entry_def)

lemma put_entry_set: "(l, u) \<in> set (put_entry k v m) \<Longrightarrow> (l, u) \<in> set m \<or> (l, u) = (k, v)"
  by (auto simp: put_entry_def split: if_splits)

lemma keeps_map:
  assumes "keeps P f" and "P zero"
  shows "keeps (\<lambda>m. wf_map m \<and> (\<forall>(k, x) \<in> set (elems m). valid_utf8 k \<and> P x)) (decode_map f zero)"
    (is "keeps ?Q _")
proof (rule keepsI)
  fix n v s t
  assume 1: "readable n v" "?Q s" "decode_map f zero v s = Inr t"
  show "?Q t"
  proof (cases v)
    case (JObj kvs)
    let ?step = "\<lambda>(k, v) m. rbind (f v zero) (\<lambda>x. Inr (put_entry k x m))"
    obtain m where m: "fold_result ?step kvs (elems s) = Inr m" "t = Some m"
      using 1(3) JObj by (auto simp: rbind_eq_Inr)
    from m(1) have "?Q (Some m)"
    proof (rule fold_result_invariant [where P = "\<lambda>m. ?Q (Some m)"])
      show "?Q (Some (elems s))" using 1(2) by (cases s) (simp_all add: wf_map_def)
    next
      fix kv m m'
      assume 2: "kv \<in> set kvs" "?Q (Some m)" "?step kv m = Inr m'"
      obtain k w where kv: "kv = (k, w)" by (cases kv)
      then obtain x where x: "f w zero = Inr x" "m' = put_entry k x m" using 2(3) by (auto simp: rbind_eq_Inr)
      have r: "readable (n - 1) w" "valid_utf8 k" using 1(1) JObj 2(1) kv by auto
      have "P x" by (rule keepsD [OF assms(1) x(1) r(1) assms(2)])
      then show "?Q (Some m')"
        using 2(2) r(2) x(2) put_entry_keys [of m k x] by (auto simp: wf_map_def dest!: put_entry_set)
    qed
    with m(2) show ?thesis by simp
  qed (use 1 in \<open>auto simp: wf_map_def\<close>)
qed

section \<open>Envelopes\<close>

text \<open>What \<open>time\<close> documents of \<open>UnmarshalJSON\<close>: a parsed time prints as a text that parses to it.\<close>

definition codec_times :: "codec \<Rightarrow> bool" where
  "codec_times cd \<longleftrightarrow> (\<forall>s t. cd_time cd s = Some t \<longrightarrow> time_laws cd t)"

definition decoded_ok :: "codec \<Rightarrow> envelope \<Rightarrow> bool" where
  "decoded_ok cd e \<longleftrightarrow>
     utf8_envelope e \<and> wf_map (resources e) \<and> (is_zero (expires_at e) \<or> time_laws cd (expires_at e))"

lemma keeps_time: "codec_times cd \<Longrightarrow> keeps (\<lambda>t. is_zero t \<or> time_laws cd t) (decode_gtime cd)"
proof (rule keepsI)
  show "codec_times cd \<Longrightarrow> is_zero x \<or> time_laws cd x \<Longrightarrow> decode_gtime cd v x = Inr y
      \<Longrightarrow> is_zero y \<or> time_laws cd y" for v x y
    by (cases v) (auto simp: codec_times_def split: option.splits)
qed

lemma keeps_party: "keeps utf8_party (decode_party strict)"
  unfolding decode_party_def
  by (rule keeps_struct) (auto intro!: keeps_field [OF keeps_string] simp: utf8_party_def)

lemma keeps_approval: "keeps (\<lambda>a. valid_utf8 (condition a) \<and> valid_utf8 (required_role a)) (decode_approval strict)"
  unfolding decode_approval_def
  by (rule keeps_struct) (auto intro!: keeps_field [OF keeps_string])

lemma valid_utf8_Nil [simp]: "valid_utf8 []"
  by (simp add: valid_utf8_def)

lemma keeps_strings: "keeps utf8_slice decode_strings"
  unfolding decode_strings_def utf8_slice_def by (rule keeps_slice [OF keeps_string]) simp

lemma keeps_envelope:
  assumes "codec_times cd"
  shows "keeps (decoded_ok cd) (decode_envelope cd strict)"
proof -
  note Q = decoded_ok_def utf8_envelope_def
  have "utf8_slice None" by (simp add: utf8_slice_def)
  note fields = keeps_field [where Q = "decoded_ok cd", OF keeps_string] keeps_field [where Q = "decoded_ok cd", OF keeps_party]
    keeps_field [where Q = "decoded_ok cd", OF keeps_strings]
    keeps_field [where Q = "decoded_ok cd", OF keeps_map [OF keeps_strings this]]
    keeps_field [where Q = "decoded_ok cd", OF keeps_slice [OF keeps_approval, of zero_approval]]
    keeps_field [where Q = "decoded_ok cd", OF keeps_time [OF assms]]
    keeps_field [where Q = "decoded_ok cd" and P = "\<lambda>_. True", OF keeps_True]
  have "\<forall>f \<in> set (map snd (envelope_fields cd strict)). keeps (decoded_ok cd) f"
    unfolding envelope_fields_def list.map snd_conv list.set ball_simps
    by (intro conjI TrueI; rule fields; simp add: Q zero_approval_def)
  then show ?thesis unfolding decode_envelope_def by (rule keeps_struct)
qed

lemma unmarshalled_ok:
  assumes "unmarshal_envelope cd raw = Inr e" and "codec_times cd"
  shows "decoded_ok cd e"
proof -
  obtain v where v: "parse_document raw = Some v" "decode_envelope cd False v zero_envelope = Inr e"
    using assms(1) by (auto simp: unmarshal_envelope_def split: option.splits)
  have "decoded_ok cd zero_envelope"
    by (simp add: decoded_ok_def utf8_envelope_def zero_envelope_def zero_party_def utf8_party_def utf8_slice_def
        wf_map_def is_zero_def utc_def)
  then show ?thesis
    by (rule keepsD [OF keeps_envelope [OF assms(2)] v(2) document_readable [OF v(1)]])
qed

text \<open>An envelope reads back with its resources in key order, from the indented document too.\<close>

definition in_key_order :: "envelope \<Rightarrow> envelope" where
  "in_key_order e = e\<lparr>resources := map_option (sort_key fst) (resources e)\<rparr>"

lemma encode_in_key_order: "wf_map (resources e) \<Longrightarrow> encode_envelope (in_key_order e) = encode_envelope e"
proof (cases "resources e")
  case (Some kvs)
  assume "wf_map (resources e)"
  then have "encode_resources (Some (sort_key fst kvs)) = encode_resources (Some kvs)"
    by (intro encode_resources_order [symmetric]) (simp_all add: Some wf_map_def)
  then show ?thesis by (simp add: encode_envelope_def in_key_order_def Some)
next
  case None
  then have "in_key_order e = e" by (cases e) (simp add: in_key_order_def)
  then show ?thesis by simp
qed

lemma document_read_back:
  assumes "decoded_ok cd e" and "\<not> is_zero (expires_at e)" and "parse_document raw = Some (encode_envelope e)"
  shows "unmarshal_envelope cd raw = Inr (in_key_order e)"
proof -
  have w: "wf_map (resources e)" using assms(1) by (simp add: decoded_ok_def)
  have "decode_envelope cd False (encode_envelope (in_key_order e)) zero_envelope = Inr (in_key_order e)"
  proof (rule decode_encoded_envelope)
    show "wf_map (resources (in_key_order e))"
      using w by (cases "resources e") (auto simp: in_key_order_def wf_map_def distinct_map)
    show "sorted (map fst (elems (resources (in_key_order e))))"
      by (cases "resources e") (simp_all add: in_key_order_def)
    show "cd_time cd (rfc3339_nano (expires_at (in_key_order e))) = Some (expires_at (in_key_order e))"
      using assms(1,2) by (simp add: decoded_ok_def in_key_order_def time_laws_def)
  qed
  then show ?thesis
    using assms(3) encode_in_key_order [OF w] by (simp add: unmarshal_envelope_def)
qed

end
