(* ===== verification/Json_Indent.thy ===== *)
theory Json_Indent
  imports Json_Readable
begin

text \<open>
  \<open>json.MarshalIndent(v, "", "  ")\<close>: every item and member on a line of its own, two blanks per level, empty
  arrays and objects without a line break.  The decoder skips the white space, so the indented text
  decodes to the same value.
\<close>

definition newline :: "nat \<Rightarrow> string" where
  "newline l = CHR 0x0A # replicate (2 * l) (CHR 0x20)"

fun indent_json :: "nat \<Rightarrow> json \<Rightarrow> string" where
  "indent_json l (JArr vs) =
     (if vs = [] then ''[]''
      else ''['' @ newline (Suc l) @ join (CHR '','' # newline (Suc l)) (map (indent_json (Suc l)) vs) @ newline l @ '']'')"
| "indent_json l (JObj kvs) =
     (if kvs = [] then ''{}''
      else ''{'' @ newline (Suc l)
        @ join (CHR '','' # newline (Suc l)) (map (\<lambda>(k, v). print_string k @ '': '' @ indent_json (Suc l) v) kvs)
        @ newline l @ ''}'')"
| "indent_json l v = print_json v"

lemma newline_ws [simp]: "ws_only (newline l)" "delim (newline l @ s)" "ws_only '' ''"
  by (simp_all add: newline_def ws_only_def is_ws_def)

lemma take_join_head:
  assumes "vs \<noteq> []" and "\<And>v. v \<in> set vs \<Longrightarrow> \<exists>c t. p v = c # t \<and> P c"
  shows "\<exists>c t. join s (map p vs) = c # t \<and> P c"
  using assms by (cases vs) (fastforce simp: join_Cons)+

lemma indent_head: "readable n v \<Longrightarrow> \<exists>c t. indent_json l v = c # t \<and> \<not> is_ws c \<and> c \<noteq> CHR '']''"
proof (cases v)
  case (JNum s)
  assume "readable n v"
  with JNum have "json_number s" by simp
  then obtain c t where "s = c # t" "is_digit c \<or> c = CHR ''-''" by (rule json_number_head)
  with number_head [of c] JNum show ?thesis by auto
next
  case (JStr s)
  then show ?thesis by (simp add: print_string_def)
qed auto

lemma parse_value_indented:
  assumes "readable n v" and "delim x"
  shows "parse_value n (indent_json l v @ x) = Some (v, x)"
  using assms
proof (induction v arbitrary: n x l)
  case (JArr vs)
  show ?case
  proof (cases "vs = []")
    case True
    with JArr.prems show ?thesis by (simp add: parse_value.simps)
  next
    case False
    let ?items = "join (CHR '','' # newline (Suc l)) (map (indent_json (Suc l)) vs)"
    let ?t = "newline (Suc l) @ ?items @ newline l @ CHR '']'' # x"
    have "parse_items (n - 1) ?t = Some (vs, x)"
      by (rule parse_items_text [OF False]) (use JArr in auto)
    moreover have "\<exists>c t. ?items = c # t \<and> \<not> is_ws c \<and> c \<noteq> CHR '']''"
      by (rule take_join_head [OF False]) (use JArr.prems(1) indent_head [of "n - 1"] in simp)
    then have "take 1 (skip_ws ?t) \<noteq> '']''" by auto
    ultimately show ?thesis using JArr.prems(1) False by (simp add: parse_value.simps)
  qed
next
  case (JObj kvs)
  show ?case
  proof (cases "kvs = []")
    case True
    with JObj.prems show ?thesis by (simp add: parse_value.simps)
  next
    case False
    let ?pr = "\<lambda>(k, v). print_string k @ '': '' @ indent_json (Suc l) v"
    let ?items = "join (CHR '','' # newline (Suc l)) (map ?pr kvs)"
    let ?t = "newline (Suc l) @ ?items @ newline l @ CHR ''}'' # x"
    have "parse_members (n - 1) (newline (Suc l) @ join (CHR '','' # newline (Suc l))
        (map (\<lambda>(k, v). print_string k @ CHR '':'' # '' '' @ indent_json (Suc l) v) kvs) @ newline l @ CHR ''}'' # x) = Some (kvs, x)"
      by (rule parse_members_text [OF False]) (use JObj in \<open>fastforce simp: snds.simps\<close>)+
    then have "parse_members (n - 1) ?t = Some (kvs, x)" by simp
    moreover obtain k v us where "kvs = (k, v) # us" using False by (cases kvs) auto
    then have "\<exists>t. ?items = CHR 0x22 # t" by (simp add: join_Cons print_string_def)
    then have "take 1 (skip_ws ?t) \<noteq> ''}''" by auto
    ultimately show ?thesis using JObj.prems(1) False by (simp add: parse_value.simps)
  qed
qed (auto simp: parse_value_string parse_value_number intro: parse_value_printed_plain [unfolded append.simps])

lemma document_indented: "readable 10000 v \<Longrightarrow> parse_document (indent_json 0 v) = Some v"
  using parse_value_indented [of 10000 v "[]" 0] by (simp add: parse_document_def skip_ws_def)

text \<open>The same with the line feed of \<open>Fprintln\<close>.\<close>

lemma line_indented: "readable 10000 v \<Longrightarrow> parse_document (indent_json 0 v @ [CHR 0x0A]) = Some v"
  using parse_value_indented [of 10000 v "[CHR 0x0A]" 0] by (simp add: parse_document_def skip_ws_def is_ws_def)

end
