(* ===== verification/Keys.thy ===== *)
theory Keys
  imports Envelope
begin

text \<open>
  Files of the command line tools, and the key files (\<open>internal/keys/keys.go\<close>).  A file system maps
  paths to contents; different paths are different files.  Every call of \<open>os\<close> can fail: a \<open>disk\<close> says
  with which error, and how much of a failed write was written.  The error of a text that is not base64 is
  given without the offset of its bad byte.
\<close>

section \<open>The file system\<close>

type_synonym files = "string \<Rightarrow> string option"

record disk =
  dk_read :: "string \<Rightarrow> string option"
  dk_open :: "string \<Rightarrow> string option"
  dk_write :: "string \<Rightarrow> (nat \<times> string) option"
  dk_close :: "string \<Rightarrow> string option"
  dk_remove :: "string \<Rightarrow> string option"

definition good_disk :: disk where
  "good_disk =
     \<lparr>dk_read = \<lambda>_. None, dk_open = \<lambda>_. None, dk_write = \<lambda>_. None, dk_close = \<lambda>_. None, dk_remove = \<lambda>_. None\<rparr>"

text \<open>\<open>os.ReadFile\<close>, \<open>os.Remove\<close>, \<open>os.WriteFile\<close>.\<close>

definition read_file :: "disk \<Rightarrow> string \<Rightarrow> files \<Rightarrow> string + string" where
  "read_file dk path fs =
     (case fs path of
        None \<Rightarrow> Inl (''open '' @ path @ '': no such file or directory'')
      | Some s \<Rightarrow> (case dk_read dk path of None \<Rightarrow> Inr s | Some e \<Rightarrow> Inl e))"

definition remove_file :: "disk \<Rightarrow> string \<Rightarrow> files \<Rightarrow> string option \<times> files" where
  "remove_file dk path fs =
     (case dk_remove dk path of
        Some e \<Rightarrow> (Some e, fs)
      | None \<Rightarrow>
          if fs path = None then (Some (''remove '' @ path @ '': no such file or directory''), fs)
          else (None, fs(path := None)))"

text \<open>What is in the file after a write, and the errors of \<open>Write\<close> and \<open>Close\<close>.\<close>

definition written :: "disk \<Rightarrow> string \<Rightarrow> string \<Rightarrow> string \<times> string option" where
  "written dk path s =
     (case dk_write dk path of None \<Rightarrow> (s, None) | Some (n, e) \<Rightarrow> (take n s, Some e))"

definition write_file :: "disk \<Rightarrow> string \<Rightarrow> string \<Rightarrow> files \<Rightarrow> (string + unit) \<times> files" where
  "write_file dk path s fs =
     (case dk_open dk path of
        Some e \<Rightarrow> (Inl e, fs)
      | None \<Rightarrow>
          (case written dk path s of
             (t, Some e) \<Rightarrow> (Inl e, fs(path \<mapsto> t))
           | (t, None) \<Rightarrow>
               (case dk_close dk path of Some e \<Rightarrow> Inl e | None \<Rightarrow> Inr (), fs(path \<mapsto> t))))"

section \<open>Key files (keys.go)\<close>

text \<open>\<open>errors.Join\<close>: the messages of the errors there are, a line each.\<close>

definition join_errors :: "string option list \<Rightarrow> string" where
  "join_errors es = join [CHR 0x0A] (concat (map (\<lambda>e. case e of None \<Rightarrow> [] | Some m \<Rightarrow> [m]) es))"

definition write_base64 :: "disk \<Rightarrow> string \<Rightarrow> string \<Rightarrow> files \<Rightarrow> (string + unit) \<times> files" where
  "write_base64 dk path b fs =
     (if dk_open dk path \<noteq> None then (Inl (the (dk_open dk path)), fs)
      else if fs path \<noteq> None then (Inl (''open '' @ path @ '': file exists''), fs)
      else (case written dk path (b64_encode b) of
          (t, write_error) \<Rightarrow>
            if write_error \<noteq> None \<or> dk_close dk path \<noteq> None
            then (case remove_file dk path (fs(path \<mapsto> t)) of
                (e, fs) \<Rightarrow> (Inl (join_errors [write_error, dk_close dk path, e]), fs))
            else (Inr (), fs(path \<mapsto> t))))"

definition read_base64 :: "disk \<Rightarrow> string \<Rightarrow> files \<Rightarrow> string + string" where
  "read_base64 dk path fs =
     (case read_file dk path fs of
        Inl e \<Rightarrow> Inl (''read '' @ path @ '': '' @ e)
      | Inr raw \<Rightarrow>
          (case b64_decode raw of
             None \<Rightarrow> Inl (''decode '' @ path @ '': illegal base64 data'')
           | Some key \<Rightarrow> Inr key))"

definition load_private :: "disk \<Rightarrow> string \<Rightarrow> files \<Rightarrow> string + string" where
  "load_private dk path fs =
     rbind (read_base64 dk path fs) (\<lambda>key.
       if length key \<noteq> 64
       then Inl (''invalid private key size '' @ show_nat (length key) @ '', want 64'') else Inr key)"

definition load_public :: "disk \<Rightarrow> string \<Rightarrow> files \<Rightarrow> string + string" where
  "load_public dk path fs =
     rbind (read_base64 dk path fs) (\<lambda>key.
       if length key \<noteq> 32
       then Inl (''invalid public key size '' @ show_nat (length key) @ '', want 32'') else Inr key)"

text \<open>\<open>Generate\<close>; \<open>random\<close> is what \<open>ed25519.GenerateKey\<close> gives: an error or the public and the private key.\<close>

definition generate :: "disk \<Rightarrow> string + string \<times> string \<Rightarrow> string \<Rightarrow> files \<Rightarrow> (string + unit) \<times> files" where
  "generate dk random name fs =
     (case random of
        Inl e \<Rightarrow> (Inl (''generate key: '' @ e), fs)
      | Inr (pub, priv) \<Rightarrow>
          (case write_base64 dk (name @ ''.priv'') priv fs of
             (Inl e, fs) \<Rightarrow> (Inl (''write private key: '' @ e), fs)
           | (Inr _, fs) \<Rightarrow>
               (case write_base64 dk (name @ ''.pub'') pub fs of
                  (Inl e, fs) \<Rightarrow>
                    (case remove_file dk (name @ ''.priv'') fs of
                       (Some c, fs) \<Rightarrow> (Inl (''write public key: '' @ e @ '' (private key cleanup: '' @ c @ '')''), fs)
                     | (None, fs) \<Rightarrow> (Inl (''write public key: '' @ e), fs))
                | (Inr _, fs) \<Rightarrow> (Inr (), fs))))"

section \<open>Properties\<close>

text \<open>A key is written whole to a new file, or no existing file changes, and none at all if what was created can be removed.\<close>

lemma write_base64_cases:
  assumes "write_base64 dk path b fs = (r, fs')"
  obtains (ok) "r = Inr ()" "fs path = None" "fs' = fs(path \<mapsto> b64_encode b)"
    | (failed) e where "r = Inl e" "fs \<subseteq>\<^sub>m fs'" "dk_remove dk path = None \<longrightarrow> fs' = fs"
proof -
  consider (open_error) e where "dk_open dk path = Some e" | (exists) s where "dk_open dk path = None" "fs path = Some s"
    | (new) "dk_open dk path = None" "fs path = None" by fastforce
  then show thesis
  proof cases
    case open_error
    with assms show thesis by (intro failed) (auto simp: write_base64_def)
  next
    case exists
    with assms show thesis by (intro failed) (auto simp: write_base64_def)
  next
    case new
    obtain t e where w: "written dk path (b64_encode b) = (t, e)" by fastforce
    show thesis
    proof (cases "e = None \<and> dk_close dk path = None")
      case True
      then have "t = b64_encode b" using w by (auto simp: written_def split: option.splits)
      with True assms new w show thesis by (intro ok) (auto simp: write_base64_def)
    next
      case False
      have up: "fs \<subseteq>\<^sub>m fs(path \<mapsto> t)" using new by (auto simp: map_le_def)
      obtain e' gs where rm: "remove_file dk path (fs(path \<mapsto> t)) = (e', gs)" by fastforce
      then have gs: "fs \<subseteq>\<^sub>m gs" "dk_remove dk path = None \<longrightarrow> gs = fs"
        using up new by (auto simp: remove_file_def fun_upd_idem split: option.splits)
      have "r = Inl (join_errors [e, dk_close dk path, e'])" "fs' = gs"
        using assms False new w rm by (auto simp: write_base64_def)
      with gs show thesis by (intro failed) simp_all
    qed
  qed
qed

lemma private_public_paths: "name @ ''.pub'' \<noteq> name @ ''.priv''"
  by simp

lemma read_written:
  assumes "fs path = Some (b64_encode b)" and "dk_read dk path = None"
  shows "read_base64 dk path fs = Inr b"
  using assms by (simp add: read_base64_def read_file_def b64_decode_encode)

lemma load_written:
  assumes "fs path = Some (b64_encode b)" and "dk_read dk path = None"
  shows "length b = 64 \<Longrightarrow> load_private dk path fs = Inr b" and "length b = 32 \<Longrightarrow> load_public dk path fs = Inr b"
  using read_written [of fs path b dk, OF assms] by (simp_all add: load_private_def load_public_def)

lemma generate_cases:
  assumes "generate dk (Inr (pub, priv)) name fs = (r, fs')"
  obtains (ok) "r = Inr ()" "fs (name @ ''.priv'') = None" "fs (name @ ''.pub'') = None"
      "fs' = fs(name @ ''.priv'' \<mapsto> b64_encode priv, name @ ''.pub'' \<mapsto> b64_encode pub)"
    | (failed) e where "r = Inl e" "fs \<subseteq>\<^sub>m fs'"
      "dk_remove dk (name @ ''.priv'') = None \<and> dk_remove dk (name @ ''.pub'') = None \<longrightarrow> fs' = fs"
proof -
  let ?p = "name @ ''.priv''" and ?q = "name @ ''.pub''"
  obtain r1 fs1 where w1: "write_base64 dk ?p priv fs = (r1, fs1)" by fastforce
  then show thesis
  proof (cases rule: write_base64_cases)
    case (failed e)
    with assms w1 show thesis by (intro that(2)) (auto simp: generate_def)
  next
    case ok1: ok
    obtain r2 fs2 where w2: "write_base64 dk ?q pub fs1 = (r2, fs2)" by fastforce
    then show thesis
    proof (cases rule: write_base64_cases)
      case ok
      with assms w1 w2 ok1 show thesis by (intro that(1)) (auto simp: generate_def split: if_splits)
    next
      case (failed e)
      obtain c gs where rm: "remove_file dk ?p fs2 = (c, gs)" by fastforce
      have kept: "fs2 a = fs a" if "fs a = Some y" for a y
        using failed(2) ok1 that by (fastforce simp: map_le_def dom_def)
      have "gs a = Some y" if "fs a = Some y" for a y
        using that kept [OF that] rm ok1(2) by (auto simp: remove_file_def split: option.splits if_splits)
      then have "fs \<subseteq>\<^sub>m gs" by (auto simp: map_le_def)
      moreover have "gs = fs" if "dk_remove dk ?p = None" "dk_remove dk ?q = None"
        using that rm failed(3) ok1 by (auto simp: remove_file_def)
      moreover have "\<exists>e. r = Inl e" "fs' = gs"
        using assms w1 w2 ok1 failed rm by (auto simp: generate_def split: option.splits)
      ultimately show thesis by (auto intro: that(2))
    qed
  qed
qed

text \<open>
  C37: a generated key pair loads, and no key is lost: with a fresh pair of Ed25519 keys \<open>Generate\<close> either
  writes both to new files from which they load, changing nothing else, or fails; it never changes a file
  that was there, and after a failure nothing has changed unless a file it had made could not be removed.
\<close>

theorem generated_keys_load:
  assumes "generate dk (Inr (pub, priv)) name fs = (r, fs')" and "length pub = 32" and "length priv = 64"
  shows "fs \<subseteq>\<^sub>m fs'
    \<and> (case r of
        Inr _ \<Rightarrow> fs' = fs(name @ ''.priv'' \<mapsto> b64_encode priv, name @ ''.pub'' \<mapsto> b64_encode pub)
          \<and> load_private (dk\<lparr>dk_read := \<lambda>_. None\<rparr>) (name @ ''.priv'') fs' = Inr priv
          \<and> load_public (dk\<lparr>dk_read := \<lambda>_. None\<rparr>) (name @ ''.pub'') fs' = Inr pub
      | Inl e \<Rightarrow> fs' = fs \<or> dk_remove dk (name @ ''.priv'') \<noteq> None \<or> dk_remove dk (name @ ''.pub'') \<noteq> None)"
  using assms(1)
proof (cases rule: generate_cases)
  case ok
  let ?dk = "dk\<lparr>dk_read := \<lambda>_. None\<rparr>"
  have "load_private ?dk (name @ ''.priv'') fs' = Inr priv" "load_public ?dk (name @ ''.pub'') fs' = Inr pub"
    by (rule load_written; simp add: ok assms)+
  moreover have "fs \<subseteq>\<^sub>m fs'" using ok by (auto simp: map_le_def)
  ultimately show ?thesis using ok by simp
next
  case (failed e)
  then show ?thesis by auto
qed

definition demo_keys :: "(string + unit) \<times> files" where
  "demo_keys = generate good_disk (Inr (replicate 32 CHR ''p'', replicate 64 CHR ''s'')) ''key'' (\<lambda>_. None)"

lemma demo_keys_ok: "fst demo_keys = Inr ()"
  by (simp add: demo_keys_def generate_def write_base64_def written_def good_disk_def)

theorem generated_keys_load_witness:
  "load_private good_disk ''key.priv'' (snd demo_keys) = Inr (replicate 64 CHR ''s'')"
proof -
  have "demo_keys = (Inr (), snd demo_keys)" using demo_keys_ok by (simp add: prod_eq_iff)
  then have "generate good_disk (Inr (replicate 32 CHR ''p'', replicate 64 CHR ''s'')) ''key'' (\<lambda>_. None) = (Inr (), snd demo_keys)"
    by (simp only: demo_keys_def)
  note g = generated_keys_load [OF this, unfolded length_replicate, OF refl refl, unfolded sum.case]
  have "load_private (good_disk\<lparr>dk_read := \<lambda>_. None\<rparr>) (''key'' @ ''.priv'') (snd demo_keys) = Inr (replicate 64 CHR ''s'')"
    by (rule g [THEN conjunct2, THEN conjunct2, THEN conjunct1])
  then show ?thesis by (simp add: good_disk_def)
qed

end
