(* ===== verification/Cli_Envelope.thy ===== *)
theory Cli_Envelope
  imports Decode_Valid Json_Indent Keys
begin

text \<open>
  The commands \<open>counterseal envelope create\<close> and \<open>envelope verify\<close> (\<open>cmd/cli/envelope_create.go\<close>,
  \<open>envelope_verify.go\<close>): from a draft file and a key file to a signed document, and back.  The flags are
  arguments, what the command prints is its result; printing to the terminal does not fail.
\<close>

section \<open>envelope create\<close>

definition fill_draft :: "string \<Rightarrow> envelope \<Rightarrow> envelope" where
  "fill_draft rand e =
     (let e = (if env_id e = [] then e\<lparr>env_id := new_env_id rand\<rparr> else e)
      in if env_version e = [] then e\<lparr>env_version := ''1''\<rparr> else e)"

definition signed_draft ::
  "disk \<Rightarrow> codec \<Rightarrow> crypto \<Rightarrow> string \<Rightarrow> string \<Rightarrow> string \<Rightarrow> files \<Rightarrow> string + envelope" where
  "signed_draft dk cd c rand draft key fs =
     rbind (wrap_error ((@) ''read draft: '') (read_file dk draft fs)) (\<lambda>raw.
     rbind (wrap_error ((@) ''parse draft: '') (unmarshal_envelope cd raw)) (\<lambda>e.
       let e = fill_draft rand e
       in (case validate_structure e of
             Some err \<Rightarrow> Inl (''draft is missing required fields: '' @ validation_text err)
           | None \<Rightarrow>
               rbind (wrap_error ((@) ''load signing key: '') (load_private dk key fs)) (\<lambda>priv.
               rbind (wrap_error ((@) ''sign envelope: '') (sign c e priv)) (\<lambda>sig.
                 Inr (e\<lparr>signature := sig\<rparr>))))))"

definition envelope_create ::
  "disk \<Rightarrow> codec \<Rightarrow> crypto \<Rightarrow> string \<Rightarrow> string \<Rightarrow> string \<Rightarrow> string \<Rightarrow> files \<Rightarrow> (string + string) \<times> files" where
  "envelope_create dk cd c rand draft key out fs =
     (case signed_draft dk cd c rand draft key fs of
        Inl e \<Rightarrow> (Inl e, fs)
      | Inr e \<Rightarrow>
          let document = indent_json 0 (encode_envelope e)
          in if out = [] then (Inr (document @ [CHR 0x0A]), fs)
             else (case write_file dk out document fs of
                 (Inl err, fs) \<Rightarrow> (Inl (''write signed envelope: '' @ err), fs)
               | (Inr _, fs) \<Rightarrow> (Inr (''Wrote signed envelope to '' @ out @ [CHR 0x0A]), fs)))"

section \<open>envelope verify\<close>

text \<open>The messages of \<open>Verify\<close>; the decoder's own message also says at which byte it stopped.\<close>

fun verify_text :: "verify_error \<Rightarrow> string" where
  "verify_text (BadKeySize n) = ''invalid public key size '' @ show_nat n"
| "verify_text NoSignature = ''envelope has no signature''"
| "verify_text BadEncoding = ''invalid signature encoding: illegal base64 data''"
| "verify_text SignatureInvalid = ''signature invalid''"

definition check_line :: "string \<Rightarrow> string option \<Rightarrow> string \<Rightarrow> string" where
  "check_line name err note =
     name @ '': '' @ (case err of None \<Rightarrow> ''VALID'' @ note | Some m \<Rightarrow> ''INVALID ('' @ m @ '')'') @ [CHR 0x0A]"

definition envelope_report :: "crypto \<Rightarrow> gtime \<Rightarrow> string \<Rightarrow> envelope \<Rightarrow> (string + unit) \<times> string" where
  "envelope_report c now pub e =
     (let fields = map_option validation_text (validate_structure e);
          expiry = map_option validation_text (validate_expiration e now);
          sig = (case verify c e pub of Inl err \<Rightarrow> Some (verify_text err) | Inr _ \<Rightarrow> None);
          valid = (fields = None \<and> expiry = None \<and> sig = None)
      in (if valid then Inr () else Inl (''envelope '' @ env_id e @ '' failed verification''),
          ''Envelope verification: '' @ env_id e @ [CHR 0x0A]
          @ check_line ''Required fields'' fields []
          @ check_line ''Expiration'' expiry ('' (expires '' @ rfc3339 (expires_at e) @ '')'')
          @ check_line ''Signature'' sig []
          @ ''STATUS: '' @ (if valid then ''VALID'' else ''INVALID'') @ [CHR 0x0A]))"

definition envelope_verify ::
  "disk \<Rightarrow> codec \<Rightarrow> crypto \<Rightarrow> gtime \<Rightarrow> string \<Rightarrow> string \<Rightarrow> files \<Rightarrow> (string + unit) \<times> string" where
  "envelope_verify dk cd c now document key fs =
     (case rbind (wrap_error ((@) ''read envelope: '') (read_file dk document fs)) (\<lambda>raw.
             rbind (wrap_error ((@) ''parse envelope: '') (unmarshal_envelope cd raw)) (\<lambda>e.
             rbind (wrap_error ((@) ''load verification key: '') (load_public dk key fs)) (\<lambda>pub.
               Inr (e, pub)))) of
        Inl err \<Rightarrow> (Inl err, [])
      | Inr (e, pub) \<Rightarrow> envelope_report c now pub e)"

section \<open>Properties\<close>

lemma report_accepts:
  "fst (envelope_report c now pub e) = Inr () \<longleftrightarrow>
     validate_structure e = None \<and> after (expires_at e) now \<and> verify c e pub = Inr ()"
  by (auto simp: envelope_report_def Let_def validate_expiration_None split: sum.split)

lemma signed_draft_Inr:
  assumes "signed_draft dk cd c rand draft key fs = Inr e"
  obtains raw d priv sig where "read_file dk draft fs = Inr raw" and "unmarshal_envelope cd raw = Inr d"
    and "validate_structure (fill_draft rand d) = None" and "load_private dk key fs = Inr priv"
    and "sign c (fill_draft rand d) priv = Inr sig" and "e = (fill_draft rand d)\<lparr>signature := sig\<rparr>"
  using assms by (auto simp: signed_draft_def rbind_eq_Inr Let_def split: option.splits)

lemma utf8_env_id: "valid_utf8 (new_env_id s)"
proof (rule utf8_ascii)
  have "byte (hex_digit d) < 128" if "d < 16" for d using that by (simp add: hex_digit_def byte_def of_char_of)
  moreover have "byte c div 16 < 16" "byte c mod 16 < 16" for c using byte_less [of c] by auto
  ultimately have "\<forall>c \<in> set (hex_encode s). byte c < 128" by (auto simp: hex_encode_def hex_byte_def)
  then show "\<forall>c \<in> set (new_env_id s). byte c < 128" by (simp add: new_env_id_def byte_def)
qed

lemma utf8_b64_encode: "valid_utf8 (b64_encode s)"
proof (rule utf8_ascii)
  have "byte (b64_char i) < 128" if "i < 64" for i
    using that by (auto simp: b64_char_def byte_def of_char_of)
  then show "\<forall>c \<in> set (b64_encode s). byte c < 128"
    by (induction s rule: b64_encode.induct) (simp_all, simp_all add: byte_def)
qed

lemma filled_ok: "decoded_ok cd d \<Longrightarrow> decoded_ok cd (fill_draft rand d)"
proof -
  have "valid_utf8 ''1''" by code_simp
  then show "decoded_ok cd d \<Longrightarrow> decoded_ok cd (fill_draft rand d)"
    using utf8_env_id [of rand] by (auto simp: decoded_ok_def utf8_envelope_def fill_draft_def Let_def)
qed

lemma canonical_in_key_order: "wf_map (resources e) \<Longrightarrow> canonical_bytes (in_key_order e) = canonical_bytes e"
proof -
  assume "wf_map (resources e)"
  then have "encode_envelope (in_key_order (e\<lparr>signature := []\<rparr>)) = encode_envelope (e\<lparr>signature := []\<rparr>)"
    by (intro encode_in_key_order) simp
  moreover have "(in_key_order e)\<lparr>signature := []\<rparr> = in_key_order (e\<lparr>signature := []\<rparr>)"
    by (cases e) (simp add: in_key_order_def)
  ultimately show ?thesis by (simp add: canonical_bytes_def)
qed

text \<open>
  C38: what \<open>envelope create\<close> writes, \<open>envelope verify\<close> accepts: whatever the draft holds, the written
  document, read with the public half of the signing key, is valid exactly until the draft's expiry.
\<close>

theorem created_envelope_verifies:
  assumes "envelope_create dk cd c rand draft key out fs = (Inr msg, fs')" and "out \<noteq> []"
    and "codec_times cd" and "load_private dk key fs = Inr priv" and "key_pair c priv pub"
    and "read_file dk draft fs = Inr raw" and "unmarshal_envelope cd raw = Inr d"
    and "load_public dk' pub_key fs' = Inr pub" and "dk_read dk' out = None"
  shows "fst (envelope_verify dk' cd c now out pub_key fs') = Inr () \<longleftrightarrow> after (expires_at d) now"
proof -
  obtain e where e: "signed_draft dk cd c rand draft key fs = Inr e" and w: "write_file dk out (indent_json 0 (encode_envelope e)) fs = (Inr (), fs')"
    using assms(1,2) by (auto simp: envelope_create_def Let_def split: sum.splits prod.splits)
  let ?f = "fill_draft rand d"
  from e obtain sig where sig: "validate_structure ?f = None" "sign c ?f priv = Inr sig" "e = ?f\<lparr>signature := sig\<rparr>"
    by (rule signed_draft_Inr) (use assms(4,6,7) in auto)
  have stored: "read_file dk' out fs' = Inr (indent_json 0 (encode_envelope e))"
    using w assms(9) by (auto simp: write_file_def written_def read_file_def split: option.splits prod.splits)
  have sig_ok: "valid_utf8 sig" using sig(2) by (auto simp: sign_def utf8_b64_encode split: if_splits)
  have ok: "decoded_ok cd e"
    using filled_ok [OF unmarshalled_ok [OF assms(7,3)], of rand] sig_ok sig(3)
    by (simp add: decoded_ok_def utf8_envelope_def)
  have e_valid: "validate_structure e = None" using sig(1,3) by (simp add: validate_structure_None)
  then have nz: "\<not> is_zero (expires_at e)" by (simp add: validate_structure_None)
  have "readable 10000 (encode_envelope e)"
    by (rule readable_encoded) (use ok nz in \<open>auto simp: decoded_ok_def time_laws_def\<close>)
  then have "unmarshal_envelope cd (indent_json 0 (encode_envelope e)) = Inr (in_key_order e)"
    by (intro document_read_back [OF ok nz] document_indented)
  then have v: "envelope_verify dk' cd c now out pub_key fs' = envelope_report c now pub (in_key_order e)"
    using stored assms(8) by (simp add: envelope_verify_def wrap_error_def)
  have "validate_structure (in_key_order e) = None" "expires_at (in_key_order e) = expires_at d"
    using e_valid sig(3) by (simp_all add: validate_structure_None in_key_order_def fill_draft_def Let_def)
  moreover have "verify c (in_key_order e) pub = verify c e pub"
  proof -
    have "canonical_bytes (in_key_order e) = canonical_bytes e"
      by (rule canonical_in_key_order) (use ok in \<open>simp add: decoded_ok_def\<close>)
    moreover have "signature (in_key_order e) = signature e" by (simp add: in_key_order_def)
    ultimately show ?thesis by (simp only: verify_def)
  qed
  moreover have "verify c e pub = Inr ()"
    using verify_signed [OF assms(5) sig(2)] sig(3) by simp
  ultimately show ?thesis unfolding v report_accepts by simp
qed

definition draft_files :: files where
  "draft_files =
     [''draft.json'' \<mapsto> print_json (encode_envelope sorted_child), ''key.priv'' \<mapsto> b64_encode sample_key,
      ''key.pub'' \<mapsto> b64_encode sample_pub]"

definition draft_created :: "(string + string) \<times> files" where
  "draft_created = envelope_create good_disk sample_codec sample_crypto [] ''draft.json'' ''key.priv'' ''signed.json'' draft_files"

lemma sample_codec_times: "codec_times sample_codec"
proof -
  have "valid_utf8 (rfc3339_nano (utc 66174969600000000000))" by code_simp
  then show ?thesis by (simp add: codec_times_def sample_codec_def time_laws_def)
qed

lemma sorted_child_draft: "unmarshal_envelope sample_codec (print_json (encode_envelope sorted_child)) = Inr sorted_child"
proof (rule document_read)
  show "utf8_envelope sorted_child" by code_simp
  show "wf_map (resources sorted_child)" "sorted (map fst (elems (resources sorted_child)))" by code_simp+
  have "expires_at sorted_child = utc 66174969600000000000" by (simp add: sorted_child_def sample_child_def)
  moreover have "valid_utf8 (rfc3339_nano (utc 66174969600000000000))" by code_simp
  ultimately show "time_laws sample_codec (expires_at sorted_child)" by (simp add: time_laws_def sample_codec_def)
qed

lemma draft_keys:
  "load_private good_disk ''key.priv'' draft_files = Inr sample_key"
  "load_public good_disk ''key.pub'' (draft_files(''signed.json'' \<mapsto> s)) = Inr sample_pub"
  by (rule load_written; simp add: draft_files_def good_disk_def sample_key_def sample_pub_def)+

lemma draft_read: "read_file good_disk ''draft.json'' draft_files = Inr (print_json (encode_envelope sorted_child))"
  by (simp add: read_file_def draft_files_def good_disk_def del: encode_envelope_def)

lemma good_disk_writes [simp]: "dk_open good_disk p = None" "written good_disk p s = (s, None)" "dk_close good_disk p = None"
  by (simp_all add: good_disk_def written_def)

lemma draft_signs: "\<exists>msg s. draft_created = (Inr msg, draft_files(''signed.json'' \<mapsto> s))"
proof -
  obtain sig where "sign sample_crypto sorted_child sample_key = Inr sig" using sign_ok [OF sample_key_pair] by blast
  moreover have "fill_draft [] sorted_child = sorted_child" "validate_structure sorted_child = None"
    by (simp_all add: fill_draft_def sorted_child_def sample_child_def validate_structure_def is_zero_def utc_def)
  ultimately have "signed_draft good_disk sample_codec sample_crypto [] ''draft.json'' ''key.priv'' draft_files
      = Inr (sorted_child\<lparr>signature := sig\<rparr>)"
    using draft_read sorted_child_draft draft_keys(1) by (simp add: signed_draft_def wrap_error_def)
  then have "draft_created = (Inr (''Wrote signed envelope to '' @ ''signed.json'' @ [CHR 0x0A]),
      draft_files(''signed.json'' \<mapsto> indent_json 0 (encode_envelope (sorted_child\<lparr>signature := sig\<rparr>))))"
    by (simp add: draft_created_def envelope_create_def write_file_def)
  then show ?thesis by blast
qed

theorem created_envelope_verifies_witness:
  "fst (envelope_verify good_disk sample_codec sample_crypto (utc 0) ''signed.json'' ''key.pub'' (snd draft_created)) = Inr ()"
proof -
  obtain msg s where c: "draft_created = (Inr msg, draft_files(''signed.json'' \<mapsto> s))" using draft_signs by blast
  have "''signed.json'' \<noteq> []" "dk_read good_disk ''signed.json'' = None" by (simp_all add: good_disk_def)
  from created_envelope_verifies [OF c [unfolded draft_created_def] this(1) sample_codec_times draft_keys(1) sample_key_pair
      draft_read sorted_child_draft draft_keys(2) this(2)]
  show ?thesis by (simp add: c sorted_child_def sample_child_def after_def utc_def)
qed

end
