(* ===== verification/Cli_Policy.thy ===== *)
theory Cli_Policy
  imports Cli_Envelope Server Delegation
begin

text \<open>
  The commands \<open>counterseal policy diff\<close> and \<open>policy validate\<close> (\<open>cmd/cli/policy.go\<close>): the strict reading of
  an envelope from JSON or YAML, the engine, the signatures, the report and the exit status (\<open>Inl\<close> is a
  failure).  The YAML decoder is a parameter; the CEL environment compiles, so the engine is there.
\<close>

section \<open>Reading an envelope (readPolicy)\<close>

text \<open>\<open>filepath.Ext\<close>.\<close>

definition file_ext :: "string \<Rightarrow> string" where
  "file_ext path =
     (let plain = (\<lambda>c. c \<noteq> CHR ''.'' \<and> c \<noteq> CHR ''/'')
      in (case dropWhile plain (rev path) of
            CHR ''.'' # r \<Rightarrow> CHR ''.'' # rev (takeWhile plain (rev path))
          | _ \<Rightarrow> []))"

text \<open>
  \<open>yaml.NewDecoder\<close>, its \<open>Decode\<close> into an \<open>any\<close> (the error at the end is \<open>io.EOF\<close>), and \<open>json.Marshal\<close> of
  what it gave.
\<close>

record ('y, 's) yaml =
  ym_start :: "string \<Rightarrow> 's"
  ym_decode :: "'s \<Rightarrow> (string + 'y) \<times> 's"
  ym_marshal :: "'y \<Rightarrow> string + string"

definition yaml_to_json :: "('y, 's) yaml \<Rightarrow> string \<Rightarrow> string + string" where
  "yaml_to_json ym raw =
     (case ym_decode ym (ym_start ym raw) of
        (Inl e, s) \<Rightarrow> Inl e
      | (Inr data, s) \<Rightarrow>
          if fst (ym_decode ym s) \<noteq> Inl eof then Inl ''expected exactly one YAML document''
          else ym_marshal ym data)"

definition read_policy :: "disk \<Rightarrow> codec \<Rightarrow> ('y, 's) yaml \<Rightarrow> string \<Rightarrow> files \<Rightarrow> string + envelope" where
  "read_policy dk cd ym path fs =
     rbind (read_file dk path fs) (\<lambda>raw.
     rbind (let ext = to_lower (cd_lower cd) (file_ext path)
            in if ext = ''.yaml'' \<or> ext = ''.yml'' then yaml_to_json ym raw else Inr raw) (\<lambda>raw.
     rbind (check_json_value (cd_lower cd) raw) (\<lambda>v.
       decode_envelope cd True v zero_envelope)))"

section \<open>The report (printPolicyResult)\<close>

definition report_json :: "result \<Rightarrow> string \<Rightarrow> json" where
  "report_json r mode =
     JObj [(''decision'', JStr (decision r)), (''violations'', JArr (map encode_violation (violations r))),
           (''checks'', JStr mode)]"

definition report_text :: "result \<Rightarrow> string \<Rightarrow> string" where
  "report_text r mode =
     ''POLICY CHECK ('' @ mode @ '')'' @ [CHR 0x0A]
     @ concat (map (\<lambda>v. ''- '' @ v_code v @ '' ['' @ v_field v @ '']: '' @ v_message v @ [CHR 0x0A]) (violations r))
     @ ''DECISION: '' @ decision r @ [CHR 0x0A]"

definition print_policy_result :: "result \<Rightarrow> string \<Rightarrow> string \<Rightarrow> (string + unit) \<times> string" where
  "print_policy_result r format mode =
     (if decision r = DENY then Inl ''policy check denied'' else Inr (),
      if format = ''json'' then print_json (report_json r mode) @ [CHR 0x0A] else report_text r mode)"

section \<open>The commands\<close>

definition content_only :: string where
  "content_only = ''policy content only; signatures not checked''"

definition check_signature :: "disk \<Rightarrow> crypto \<Rightarrow> files \<Rightarrow> string \<times> string \<times> envelope \<Rightarrow> result \<Rightarrow> result" where
  "check_signature dk cr fs item r =
     (case item of (name, path, value) \<Rightarrow>
        (case rbind (load_public dk path fs) (\<lambda>pub. wrap_error verify_text (verify cr value pub)) of
           Inl m \<Rightarrow> \<lparr>decision = DENY, violations = violations r @ [Violation ''SIGNATURE_INVALID'' (name @ ''.signature'') m]\<rparr>
         | Inr _ \<Rightarrow> r))"

definition policy_diff ::
  "disk \<Rightarrow> codec \<Rightarrow> ('y, 's) yaml \<Rightarrow> crypto \<Rightarrow> 'ctx cel \<Rightarrow> gtime \<Rightarrow> string \<Rightarrow> string \<Rightarrow> string \<Rightarrow> string \<Rightarrow> string
    \<Rightarrow> files \<Rightarrow> (string + unit) \<times> string" where
  "policy_diff dk cd ym cr c now format parent_key child_key parent child fs =
     (if format \<noteq> ''text'' \<and> format \<noteq> ''json'' then (Inl ''format must be text or json'', [])
      else if (parent_key = []) \<noteq> (child_key = []) then (Inl ''supply both --parent-key and --child-key'', [])
      else (case rbind (wrap_error ((@) ''parent: '') (read_policy dk cd ym parent fs)) (\<lambda>p.
                 rbind (wrap_error ((@) ''child: '') (read_policy dk cd ym child fs)) (\<lambda>ch. Inr (p, ch))) of
          Inl e \<Rightarrow> (Inl e, [])
        | Inr (p, ch) \<Rightarrow>
            let r = diff c p ch now;
                r = (if parent_key \<noteq> []
                     then fold (check_signature dk cr fs) [(''parent'', parent_key, p), (''child'', child_key, ch)] r else r);
                mode = (if parent_key \<noteq> [] then ''policy content and signatures'' else content_only)
            in print_policy_result r format mode))"

definition policy_validate ::
  "disk \<Rightarrow> codec \<Rightarrow> ('y, 's) yaml \<Rightarrow> 'ctx cel \<Rightarrow> gtime \<Rightarrow> string \<Rightarrow> string \<Rightarrow> files \<Rightarrow> (string + unit) \<times> string" where
  "policy_validate dk cd ym c now format path fs =
     (if format \<noteq> ''text'' \<and> format \<noteq> ''json'' then (Inl ''format must be text or json'', [])
      else (case read_policy dk cd ym path fs of
          Inl e \<Rightarrow> (Inl e, [])
        | Inr v \<Rightarrow> print_policy_result (Validate c v now) format content_only))"

section \<open>Properties\<close>

lemma print_policy_ok: "fst (print_policy_result r format mode) = Inr () \<longleftrightarrow> decision r \<noteq> DENY"
  by (simp add: print_policy_result_def)

text \<open>A key file holds a key under which the envelope's signature verifies.\<close>

definition signed_under :: "disk \<Rightarrow> crypto \<Rightarrow> files \<Rightarrow> string \<Rightarrow> envelope \<Rightarrow> bool" where
  "signed_under dk cr fs path e \<longleftrightarrow> (\<exists>pub. load_public dk path fs = Inr pub \<and> verify cr e pub = Inr ())"

lemma check_signature_decision:
  "decision (check_signature dk cr fs (name, path, e) r) \<noteq> DENY \<longleftrightarrow> decision r \<noteq> DENY \<and> signed_under dk cr fs path e"
proof (cases "rbind (load_public dk path fs) (\<lambda>pub. wrap_error verify_text (verify cr e pub))")
  case (Inl m)
  then have "\<not> signed_under dk cr fs path e" by (auto simp: signed_under_def wrap_error_def)
  with Inl show ?thesis by (simp add: check_signature_def)
next
  case (Inr u)
  then have "signed_under dk cr fs path e" by (auto simp: signed_under_def rbind_eq_Inr)
  with Inr show ?thesis by (simp add: check_signature_def)
qed

lemma diff_not_denied: "decision (diff c p ch now) \<noteq> DENY \<longleftrightarrow> allows c now p ch"
  by (simp add: allows_def diff_def Let_def)

lemma policy_diff_ok:
  "fst (policy_diff dk cd ym cr c now format parent_key child_key parent child fs) = Inr () \<longleftrightarrow>
     format \<in> {''text'', ''json''} \<and> (parent_key = [] \<longleftrightarrow> child_key = [])
     \<and> (\<exists>p ch. read_policy dk cd ym parent fs = Inr p \<and> read_policy dk cd ym child fs = Inr ch \<and> allows c now p ch
          \<and> (parent_key = [] \<or> signed_under dk cr fs parent_key p \<and> signed_under dk cr fs child_key ch))"
  (is "?ok \<longleftrightarrow> ?flags \<and> ?keys \<and> ?docs")
proof (cases "?flags \<and> ?keys")
  case True
  then have f: "\<not> (format \<noteq> ''text'' \<and> format \<noteq> ''json'')" "\<not> ((parent_key = []) \<noteq> (child_key = []))" by auto
  show ?thesis
  proof (cases "read_policy dk cd ym parent fs")
    case (Inl e)
    with f True show ?thesis unfolding policy_diff_def if_not_P [OF f(1)] if_not_P [OF f(2)] by (simp add: wrap_error_def)
  next
    case p: (Inr p)
    show ?thesis
    proof (cases "read_policy dk cd ym child fs")
      case (Inl e)
      with f True p show ?thesis unfolding policy_diff_def if_not_P [OF f(1)] if_not_P [OF f(2)] by (simp add: wrap_error_def)
    next
      case ch: (Inr ch)
      show ?thesis
        using True p ch unfolding policy_diff_def if_not_P [OF f(1)] if_not_P [OF f(2)]
        by (simp add: wrap_error_def Let_def print_policy_ok check_signature_decision diff_not_denied)
    qed
  qed
next
  case False
  then show ?thesis by (auto simp: policy_diff_def)
qed

text \<open>So the child of a successful check permits nothing that its parent does not.\<close>

lemma policy_diff_narrows:
  assumes "fst (policy_diff dk cd ym cr c now format pk ck parent child fs) = Inr ()"
    and "read_policy dk cd ym parent fs = Inr p" and "read_policy dk cd ym child fs = Inr ch" and "permits ch d"
  shows "permits p d"
proof -
  have "allows c now p ch" using assms(1-3) unfolding policy_diff_ok by auto
  then show ?thesis using engine.chain_narrows [of c now p "[ch]" ch d] assms(4) by simp
qed

lemma policy_validate_exact:
  "fst (policy_validate dk cd ym c now format path fs) = Inr () \<longleftrightarrow>
     format \<in> {''text'', ''json''} \<and> (\<exists>v. read_policy dk cd ym path fs = Inr v \<and> policy_ok c v now)"
proof -
  have "decision (Validate c v now) \<noteq> DENY \<longleftrightarrow> policy_ok c v now" for v
    by (simp flip: Validate_ALLOW add: Validate_def)
  then show ?thesis
    by (auto simp: policy_validate_def print_policy_ok split: sum.split)
qed


end
