(* ===== verification/Json_Reindent.thy ===== *)
theory Json_Reindent
  imports Json_Indent
begin

text \<open>
  \<open>json.Indent\<close>, which works on the bytes of a text with a scanner, not on its value; on what the encoder
  prints it gives what \<open>json.MarshalIndent\<close> gives.
\<close>

text \<open>
  \<open>json.Indent\<close> on a valid text, byte by byte: inside a string and after a backslash; whether the indentation
  of an opened array or object is still due; whether the value has begun (white space after its end is kept).
\<close>

fun indent_text :: "bool \<Rightarrow> bool \<Rightarrow> bool \<Rightarrow> bool \<Rightarrow> nat \<Rightarrow> string \<Rightarrow> string" where
  "indent_text in_string escaped due begun depth [] = []"
| "indent_text in_string escaped due begun depth (c # r) =
     (if in_string
      then c # indent_text (escaped \<or> c \<noteq> CHR 0x22) (\<not> escaped \<and> c = CHR 0x5C) due begun depth r
      else if is_ws c
      then (if depth = 0 \<and> \<not> due \<and> begun then [c] else []) @ indent_text False False due begun depth r
      else let closing = (c = CHR ''}'' \<or> c = CHR '']'');
               level = (if due \<and> \<not> closing then Suc depth else depth)
        in (if due \<and> \<not> closing then newline level else [])
           @ (if c = CHR ''{'' \<or> c = CHR ''['' then c # indent_text False False True True level r
              else if c = CHR '','' then c # newline level @ indent_text False False False True level r
              else if c = CHR '':'' then c # CHR '' '' # indent_text False False False True level r
              else if closing
              then (if due then c # indent_text False False False True depth r
                    else newline (depth - 1) @ c # indent_text False False False True (depth - 1) r)
              else c # indent_text (c = CHR 0x22) False False True level r))"


section \<open>Strings\<close>

definition plain_bytes :: "string \<Rightarrow> bool" where
  "plain_bytes s \<longleftrightarrow> (\<forall>c \<in> set s. c \<noteq> CHR 0x22 \<and> c \<noteq> CHR 0x5C)"

lemma plain_bytes_simps [simp]: "plain_bytes []" "plain_bytes (c # s) \<longleftrightarrow> c \<noteq> CHR 0x22 \<and> c \<noteq> CHR 0x5C \<and> plain_bytes s"
  by (simp_all add: plain_bytes_def)

lemma scan_plain:
  "plain_bytes s \<Longrightarrow> indent_text True False due begun d (s @ x) = s @ indent_text True False due begun d x"
  by (induction s) simp_all

lemma scan_escape:
  "plain_bytes s \<Longrightarrow> indent_text True False due begun d (CHR 0x5C # e # s @ x)
    = CHR 0x5C # e # s @ indent_text True False due begun d x"
  using scan_plain by simp

lemma special_bytes: "byte (CHR 0x22) = 34" "byte (CHR 0x5C) = 92"
  by (simp_all add: byte_def)

lemma plain_hex: "plain_bytes (hex_byte c)"
proof -
  have "hex_digit d \<noteq> CHR 0x22 \<and> hex_digit d \<noteq> CHR 0x5C" if "d < 16" for d
  proof -
    have "byte (hex_digit d) \<in> {48..57} \<union> {97..102}" using that by (auto simp: hex_digit_def byte_def of_char_of)
    then show ?thesis by (auto simp: byte_def)
  qed
  moreover have "byte c div 16 < 16" "byte c mod 16 < 16"
    using byte_less [of c] by (simp_all add: less_mult_imp_div_less)
  ultimately show ?thesis by (simp add: hex_byte_def)
qed

lemma escape_rune_scan:
  assumes "rune_ok r"
  shows "plain_bytes (escape_rune r) \<or> (\<exists>e t. escape_rune r = CHR 0x5C # e # t \<and> plain_bytes t)"
proof (cases "length r = 1")
  case True
  then obtain c where r: "r = [c]" by (cases r) auto
  then have "byte c < 128" using assms by (simp add: rune_ok_single)
  with r show ?thesis using plain_hex [of c] by (auto simp: escape_rune_def)
next
  case False
  have "plain_bytes r"
    using assms False by (cases rule: rune_ok_shape) (auto simp: second_ok_def cont_def special_bytes split: if_splits)
  then show ?thesis using escape_rune_long [OF False] by auto
qed

lemma scan_rune:
  "rune_ok r \<Longrightarrow> indent_text True False due begun d (escape_rune r @ x) = escape_rune r @ indent_text True False due begun d x"
  using escape_rune_scan [of r] scan_plain [of "escape_rune r"] scan_escape by (auto simp del: indent_text.simps)

lemma scan_runes:
  "\<forall>r \<in> set rs. rune_ok r \<Longrightarrow> indent_text True False due begun d (concat (map escape_rune rs) @ x)
    = concat (map escape_rune rs) @ indent_text True False due begun d x"
  by (induction rs) (simp_all add: scan_rune del: indent_text.simps)

lemma scan_string:
  "valid_utf8 s \<Longrightarrow> indent_text False False due begun d (print_string s @ x)
    = (if due then newline (Suc d) else []) @ print_string s
      @ indent_text False False False True (if due then Suc d else d) x"
  using valid_utf8_runes [of s] by (simp add: print_string_def scan_runes is_ws_def Let_def)

section \<open>Numbers\<close>

definition number_char :: "char \<Rightarrow> bool" where
  "number_char c \<longleftrightarrow> is_digit c \<or> c \<in> set ''+-.eE''"

lemma digits_chars: "digits s = (a, r) \<Longrightarrow> \<forall>c \<in> set a. number_char c"
  by (auto simp: digits_def number_char_def dest: set_takeWhileD)

lemma parse_integer_chars: "parse_integer s = Some (a, r) \<Longrightarrow> \<forall>c \<in> set a. number_char c"
  using digits_chars [of s] by (cases "digits s") (auto simp: parse_integer_def split: list.splits if_splits)

lemma parse_fraction_chars: "parse_fraction s = Some (a, r) \<Longrightarrow> \<forall>c \<in> set a. number_char c"
  using digits_chars [of "drop 1 s"] by (cases "digits (drop 1 s)") (auto simp: parse_fraction_def number_char_def split: list.splits if_splits)

lemma parse_exponent_chars: "parse_exponent s = Some (a, r) \<Longrightarrow> \<forall>c \<in> set a. number_char c"
proof -
  let ?t = "drop (length (sign_of (drop 1 s))) (drop 1 s)"
  have "\<forall>c \<in> set (sign_of (drop 1 s)). number_char c" by (auto simp: sign_of_def number_char_def)
  then show "parse_exponent s = Some (a, r) \<Longrightarrow> ?thesis"
    using digits_chars [of ?t] by (cases "digits ?t") (auto simp: parse_exponent_def number_char_def split: list.splits if_splits)
qed

lemma json_number_chars:
  assumes "json_number s"
  shows "\<forall>c \<in> set s. number_char c"
proof -
  define sg where "sg = (if take 1 s = ''-'' then ''-'' else [])"
  have sg: "\<forall>c \<in> set sg. number_char c" by (simp add: sg_def number_char_def)
  obtain a r b u c where "parse_integer (drop (length sg) s) = Some (a, r)" "parse_fraction r = Some (b, u)"
    "parse_exponent u = Some (c, [])" "s = sg @ a @ b @ c"
    using assms unfolding json_number_def parse_number_def Let_def sg_def [symmetric] by (auto split: option.splits)
  note parts = parse_integer_chars [OF this(1)] parse_fraction_chars [OF this(2)] parse_exponent_chars [OF this(3)] this(4)
  show ?thesis unfolding parts(4) using sg parts(1-3) by (simp only: set_append ball_Un)
qed

lemma number_char_scan:
  assumes "number_char c"
  shows "\<not> is_ws c \<and> c \<notin> set ''{[,:]}'' \<and> c \<noteq> CHR 0x22"
  using assms by (auto simp: number_char_def is_digit_def is_ws_def byte_def)

lemma scan_number_rest:
  "\<forall>c \<in> set s. number_char c \<Longrightarrow> indent_text False False False True d (s @ x) = s @ indent_text False False False True d x"
proof (induction s)
  case (Cons c s)
  then show ?case using number_char_scan [of c] by (simp add: Let_def)
qed simp

lemma scan_number:
  assumes "json_number s"
  shows "indent_text False False due begun d (s @ x)
    = (if due then newline (Suc d) else []) @ s @ indent_text False False False True (if due then Suc d else d) x"
proof -
  have n: "\<forall>c \<in> set s. number_char c" using assms by (rule json_number_chars)
  obtain c t where "s = c # t" using assms by (rule json_number_head)
  then show ?thesis using n number_char_scan [of c] scan_number_rest [of t] by (simp add: Let_def)
qed

section \<open>Values\<close>

text \<open>What the scanner makes of an item that stands alone: \<open>p\<close> prints it, \<open>q\<close> indents it at a level.\<close>

definition scans :: "string \<Rightarrow> (nat \<Rightarrow> string) \<Rightarrow> bool" where
  "scans p q \<longleftrightarrow>
     (\<forall>due begun d x. indent_text False False due begun d (p @ x)
        = (if due then newline (Suc d) else []) @ q (if due then Suc d else d)
          @ indent_text False False False True (if due then Suc d else d) x)"

lemma scansD: "scans p q \<Longrightarrow> indent_text False False due begun d (p @ x)
    = (if due then newline (Suc d) else []) @ q (if due then Suc d else d)
      @ indent_text False False False True (if due then Suc d else d) x"
  unfolding scans_def by blast

lemma scan_closing:
  "c = CHR ''}'' \<or> c = CHR '']'' \<Longrightarrow> indent_text False False False begun (Suc d) (c # x)
    = newline d @ c # indent_text False False False True d x"
  by (auto simp: is_ws_def Let_def)

lemma scan_comma: "indent_text False False False begun d (CHR '','' # x) = CHR '','' # newline d @ indent_text False False False True d x"
  by (simp add: is_ws_def Let_def)

lemma scan_items:
  assumes "vs \<noteq> []" and "\<forall>v \<in> set vs. scans (p v) (q v)"
  shows "indent_text False False False True (Suc d) (join '','' (map p vs) @ x)
    = join (CHR '','' # newline (Suc d)) (map (\<lambda>v. q v (Suc d)) vs) @ indent_text False False False True (Suc d) x"
  using assms
proof (induction vs rule: list_nonempty_induct)
  case (single v)
  then show ?case using scansD [of "p v" "q v" False True "Suc d" x] by simp
next
  case (cons v vs)
  have s: "scans (p v) (q v)" using cons.prems by simp
  have j: "join '','' (map p (v # vs)) = p v @ CHR '','' # join '','' (map p vs)"
    "join (CHR '','' # newline (Suc d)) (map (\<lambda>v. q v (Suc d)) (v # vs))
      = q v (Suc d) @ CHR '','' # newline (Suc d) @ join (CHR '','' # newline (Suc d)) (map (\<lambda>v. q v (Suc d)) vs)"
    using cons.hyps by (cases vs; simp)+
  show ?case
    unfolding j append_assoc append_Cons scansD [OF s] scan_comma if_False
    using cons by simp
qed

text \<open>The first item comes after an opening bracket, its indentation still due.\<close>

lemma scan_first:
  assumes "scans (p v) (q v)"
  shows "indent_text False False True True d (join '','' (map p (v # vs)) @ x)
    = newline (Suc d) @ indent_text False False False True (Suc d) (join '','' (map p (v # vs)) @ x)"
proof -
  obtain t where t: "join '','' (map p (v # vs)) = p v @ t" by (cases vs) auto
  show ?thesis unfolding t append_assoc scansD [OF assms] by simp
qed

lemma scan_open:
  "c = CHR ''{'' \<or> c = CHR ''['' \<Longrightarrow> indent_text False False due begun d (c # x)
    = (if due then newline (Suc d) else []) @ c # indent_text False False True True (if due then Suc d else d) x"
  by (auto simp: is_ws_def Let_def)

lemma scan_empty:
  "c = CHR ''}'' \<or> c = CHR '']'' \<Longrightarrow> indent_text False False True True d (c # x) = c # indent_text False False False True d x"
  by (auto simp: is_ws_def Let_def)

text \<open>A bracketed list of items; \<open>join\<close> of the items and the closing bracket follow the opening one.\<close>

lemma scan_bracketed:
  assumes "vs \<noteq> []" and "\<forall>v \<in> set vs. scans (p v) (q v)" and "c = CHR ''{'' \<or> c = CHR ''[''" and "c' = CHR ''}'' \<or> c' = CHR '']''"
  shows "scans (c # join '','' (map p vs) @ [c'])
    (\<lambda>d. c # newline (Suc d) @ join (CHR '','' # newline (Suc d)) (map (\<lambda>v. q v (Suc d)) vs) @ newline d @ [c'])"
proof -
  obtain v us where vs: "vs = v # us" using assms(1) by (cases vs) auto
  have first: "indent_text False False True True d (join '','' (map p vs) @ c' # x)
      = newline (Suc d) @ indent_text False False False True (Suc d) (join '','' (map p vs) @ c' # x)" for d x
    using scan_first [of p v q d us "c' # x"] assms(2) vs by simp
  show ?thesis
    unfolding scans_def append_Cons append_assoc append_Nil scan_open [OF assms(3)] first scan_items [OF assms(1,2)]
      scan_closing [OF assms(4)] by simp
qed

lemma scan_value: "readable n v \<Longrightarrow> scans (print_json v) (\<lambda>d. indent_json d v)"
proof (induction v arbitrary: n)
  case JNull
  then show ?case by (simp add: scans_def is_ws_def Let_def)
next
  case (JBool b)
  then show ?case by (simp add: scans_def is_ws_def Let_def)
next
  case (JNum s)
  then have "json_number s" by simp
  from scan_number [OF this] show ?case by (simp add: scans_def del: indent_text.simps)
next
  case (JStr s)
  then have "valid_utf8 s" by simp
  from scan_string [OF this] show ?case by (simp add: scans_def del: indent_text.simps)
next
  case (JArr vs)
  show ?case
  proof (cases "vs = []")
    case True
    then show ?thesis by (simp add: scans_def scan_open scan_empty del: indent_text.simps)
  next
    case False
    have "scans (CHR ''['' # join '','' (map print_json vs) @ [CHR '']''])
      (\<lambda>d. CHR ''['' # newline (Suc d) @ join (CHR '','' # newline (Suc d)) (map (\<lambda>v. indent_json (Suc d) v) vs) @ newline d @ [CHR '']''])"
      by (rule scan_bracketed [OF False, where p = print_json and q = "\<lambda>v d. indent_json d v"]) (use JArr in auto)
    with False show ?thesis by simp
  qed
next
  case (JObj kvs)
  let ?p = "\<lambda>(k, v). print_string k @ '':'' @ print_json v" and ?q = "\<lambda>kv d. case kv of (k, v) \<Rightarrow> print_string k @ '': '' @ indent_json d v"
  show ?case
  proof (cases "kvs = []")
    case True
    then show ?thesis by (simp add: scans_def scan_open scan_empty del: indent_text.simps)
  next
    case False
    have "scans (?p kv) (?q kv)" if "kv \<in> set kvs" for kv
    proof -
      obtain k v where kv: "kv = (k, v)" by (cases kv)
      have "scans (print_json v) (\<lambda>d. indent_json d v)" "valid_utf8 k"
        using JObj.IH [of kv v "n - 1"] JObj.prems that kv by (auto simp: snds.simps)
      moreover have "indent_text False False False True d (CHR '':'' # y)
          = CHR '':'' # CHR '' '' # indent_text False False False True d y" for d y
        by (simp add: is_ws_def Let_def)
      ultimately show ?thesis
        unfolding kv by (simp add: scans_def scan_string del: indent_text.simps)
    qed
    then have "scans (CHR ''{'' # join '','' (map ?p kvs) @ [CHR ''}''])
      (\<lambda>d. CHR ''{'' # newline (Suc d) @ join (CHR '','' # newline (Suc d)) (map (\<lambda>kv. ?q kv (Suc d)) kvs) @ newline d @ [CHR ''}''])"
      by (intro scan_bracketed [OF False]) auto
    with False show ?thesis by simp
  qed
qed

text \<open>White space after the value is kept, as the line feed of a response is.\<close>

lemma indent_text_printed:
  assumes "readable n v" and "ws_only w"
  shows "indent_text False False False False 0 (print_json v @ w) = indent_json 0 v @ w"
proof -
  have "indent_text False False False True 0 w = w"
    using assms(2) by (induction w) (auto simp: ws_only_def)
  then show ?thesis using scansD [OF scan_value [OF assms(1)], of False False 0 w] by simp
qed

end
