(* ===== verification/Cli_Commands.thy ===== *)
theory Cli_Commands
  imports Cli_Policy Json_Reindent Gateway Api
begin

text \<open>
  The other commands of \<open>cmd/cli\<close>: \<open>keygen\<close>, \<open>audit verify\<close>, \<open>operator\<close>, and the start of \<open>server\<close> and
  \<open>gateway\<close> up to the point where they serve.  \<open>getenv\<close> is \<open>os.Getenv\<close>; opening a database, the network
  and the MCP session are parameters.
\<close>

section \<open>keygen (keygen.go)\<close>

text \<open>\<open>made\<close> is the error of \<open>os.MkdirAll\<close> on the directory of the key files.\<close>

definition keygen ::
  "disk \<Rightarrow> string option \<Rightarrow> string + string \<times> string \<Rightarrow> string \<Rightarrow> files \<Rightarrow> (string + string) \<times> files" where
  "keygen dk made random out fs =
     (case made of
        Some e \<Rightarrow> (Inl (''create key directory: '' @ e), fs)
      | None \<Rightarrow>
          (case generate dk random out fs of
             (Inl e, fs) \<Rightarrow> (Inl e, fs)
           | (Inr _, fs) \<Rightarrow> (Inr (''Wrote '' @ out @ ''.priv and '' @ out @ ''.pub'' @ [CHR 0x0A]), fs)))"

section \<open>audit verify (audit.go)\<close>

text \<open>\<open>url.PathEscape\<close>.\<close>

definition upper_hex :: "nat \<Rightarrow> char" where
  "upper_hex d = char_of (if d < 10 then 48 + d else 55 + d)"

definition path_char :: "char \<Rightarrow> bool" where
  "path_char c \<longleftrightarrow>
     48 \<le> byte c \<and> byte c \<le> 57 \<or> 65 \<le> byte c \<and> byte c \<le> 90 \<or> 97 \<le> byte c \<and> byte c \<le> 122
     \<or> c \<in> set ''-_.~$&+:=@''"

definition path_escape :: "string \<Rightarrow> string" where
  "path_escape s =
     concat (map (\<lambda>c. if path_char c then [c] else [CHR ''%'', upper_hex (byte c div 16), upper_hex (byte c mod 16)]) s)"

definition audit_request :: "string \<Rightarrow> string \<Rightarrow> string \<Rightarrow> http_request" where
  "audit_request base token run =
     \<lparr>hq_url = trim_right_slashes base @ ''/v1/audit/'' @ path_escape run @ ''/verify'',
      hq_headers = [(''Authorization'', ''Bearer '' @ token)], hq_body = []\<rparr>"

text \<open>\<open>send\<close> posts the request: an error, or the status and the body or the error of reading it.\<close>

definition audit_verify ::
  "(string \<Rightarrow> string) \<Rightarrow> (http_request \<Rightarrow> string + nat \<times> (string + string)) \<Rightarrow> string \<Rightarrow> string
    \<Rightarrow> (string + unit) \<times> string" where
  "audit_verify getenv send base run =
     (let token = getenv ''HANDOFFGUARD_API_TOKEN''
      in if token = [] then (Inl ''HANDOFFGUARD_API_TOKEN is required'', [])
         else (case send (audit_request base token run) of
             Inl e \<Rightarrow> (Inl e, [])
           | Inr (status, Inl e) \<Rightarrow> (Inl e, [])
           | Inr (status, Inr body) \<Rightarrow>
               if status \<noteq> 200 then (Inl (''audit API returned HTTP '' @ show_nat status), [])
               else let raw = take 1048576 body
                 in (case parse_document raw of
                       None \<Rightarrow> (Inl ''invalid JSON text'', [])
                     | Some v \<Rightarrow>
                         (case decode_struct False [(''status'', decode_string)] v [] of
                            Inl e \<Rightarrow> (Inl e, [])
                          | Inr verdict \<Rightarrow>
                              (if verdict \<noteq> ''VALID'' then Inl ''audit verification failed'' else Inr (),
                               indent_text False False False False 0 raw @ [CHR 0x0A])))))"

section \<open>operator (operator.go)\<close>

text \<open>
  The arguments are checked before the transaction begins; these checks give the only \<open>Internal\<close> errors of
  the two operations.
\<close>

definition checked_transaction :: "faults \<Rightarrow> (db \<Rightarrow> api_error + unit \<times> db) \<Rightarrow> db \<Rightarrow> (api_error + unit) \<times> db" where
  "checked_transaction f fn d =
     (case fn d of Inl (Internal e) \<Rightarrow> (Inl (Internal e), d) | _ \<Rightarrow> transaction f fn d)"

text \<open>
  \<open>opened\<close> is the error of \<open>store.Open\<close> or \<open>Migrate\<close>; the three subcommands are told apart by their name.
\<close>

definition operator_command ::
  "(string \<Rightarrow> string) \<Rightarrow> (string \<Rightarrow> string option) \<Rightarrow> crypto \<Rightarrow> draws \<Rightarrow> faults \<Rightarrow> string \<Rightarrow> string \<Rightarrow> string
    \<Rightarrow> string \<Rightarrow> string \<Rightarrow> bool \<Rightarrow> db \<Rightarrow> (api_error + string) \<times> db" where
  "operator_command getenv opened cr w f operation username name role password_env if_absent d =
     (let url = getenv ''HANDOFFGUARD_DATABASE_URL''; password = getenv password_env
      in if url = [] then (Inl (Internal ''HANDOFFGUARD_DATABASE_URL is required''), d)
         else (case opened url of
             Some e \<Rightarrow> (Inl (Internal e), d)
           | None \<Rightarrow>
               (case (if operation = ''create''
                      then checked_transaction f (provision_operator cr w username name role password if_absent) d
                      else checked_transaction f (change_operator cr w username password (operation = ''disable'')) d) of
                  (Inl e, d) \<Rightarrow> (Inl e, d)
                | (Inr _, d) \<Rightarrow> (Inr (''Operator account updated'' @ [CHR 0x0A]), d))))"

section \<open>server (server.go)\<close>

text \<open>\<open>s\<close> holds the CEL environment and the demonstration flag; the key and the token complete it.\<close>

definition server_command ::
  "(string \<Rightarrow> string) \<Rightarrow> disk \<Rightarrow> files \<Rightarrow> (string \<Rightarrow> string option) \<Rightarrow> (string \<Rightarrow> string) \<Rightarrow> faults \<Rightarrow> string
    \<Rightarrow> 'ctx server \<Rightarrow> db \<Rightarrow> (api_error + 'ctx server) \<times> db" where
  "server_command getenv dk fs opened derive f key_path s d =
     (let url = getenv ''HANDOFFGUARD_DATABASE_URL''; token = getenv ''HANDOFFGUARD_API_TOKEN''
      in if url = [] \<or> token = []
         then (Inl (Internal ''HANDOFFGUARD_DATABASE_URL and HANDOFFGUARD_API_TOKEN are required''), d)
         else (case load_private dk key_path fs of
             Inl e \<Rightarrow> (Inl (Internal e), d)
           | Inr key \<Rightarrow>
               (case opened url of
                  Some e \<Rightarrow> (Inl (Internal e), d)
                | None \<Rightarrow>
                    let s = s\<lparr>srv_key := key, srv_pub := drop 32 key, srv_token_hash := sha256 (srv_crypto s) token\<rparr>
                    in (case new_server derive s token f d of
                          (Inl e, d) \<Rightarrow> (Inl e, d)
                        | (Inr _, d) \<Rightarrow> (Inr s, d)))))"

section \<open>gateway (gateway.go, and the transports of transport.go)\<close>

datatype transport = Upstream_Url string string | Upstream_Command "string list" "string list"

definition http_transport :: "net \<Rightarrow> string \<Rightarrow> string \<Rightarrow> string + transport" where
  "http_transport n url token = rbind (validate_url n url) (\<lambda>_. Inr (Upstream_Url url token))"

definition command_transport :: "(string \<Rightarrow> string option) \<Rightarrow> string list \<Rightarrow> string list \<Rightarrow> string + transport" where
  "command_transport lookup args extra =
     (if args = [] \<or> hd args = [] then Inl ''an upstream command is required''
      else rbind (upstream_environment lookup extra) (\<lambda>env. Inr (Upstream_Command args env)))"

record gateway_flags =
  gf_args :: "string list"
  gf_upstream :: string
  gf_env :: "string list"
  gf_api :: string

definition getenv_of :: "(string \<Rightarrow> string option) \<Rightarrow> string \<Rightarrow> string" where
  "getenv_of lookup name = (case lookup name of None \<Rightarrow> [] | Some v \<Rightarrow> v)"

definition gateway_command ::
  "(string \<Rightarrow> string) \<Rightarrow> (string \<Rightarrow> string option) \<Rightarrow> net \<Rightarrow> 'schema schemas \<Rightarrow> (transport \<Rightarrow> string + 'u)
    \<Rightarrow> (string \<Rightarrow> 'u \<Rightarrow> (string + page option) \<times> 'u) \<Rightarrow> options \<Rightarrow> gateway_flags \<Rightarrow> string + string
    \<Rightarrow> string + authorizer \<times> transport \<times> 'schema offered list" where
  "gateway_command lower lookup n sc connect list_tools opts fl raw_config =
     (if (gf_upstream fl = []) = (gf_args fl = [])
      then Inl ''provide either --upstream-url or an upstream command after --''
      else if gf_upstream fl \<noteq> [] \<and> gf_env fl \<noteq> []
      then Inl ''--upstream-env applies only to subprocess upstreams''
      else rbind (load_config lower raw_config) (\<lambda>cfg.
           rbind (new_authorizer n (gf_api fl) (getenv_of lookup ''HANDOFFGUARD_API_TOKEN'')) (\<lambda>az.
           rbind (if gf_upstream fl \<noteq> []
                  then http_transport n (gf_upstream fl) (getenv_of lookup ''HANDOFFGUARD_UPSTREAM_TOKEN'')
                  else command_transport lookup (gf_args fl) (gf_env fl)) (\<lambda>t.
           rbind (wrap_error ((@) ''connect upstream: '') (connect t)) (\<lambda>u.
           rbind (new_gateway list_tools lower sc cfg opts u) (\<lambda>ts. Inr (az, t, ts)))))))"

section \<open>Lemmas\<close>

lemma keygen_keeps_files: "fst (keygen dk made random out fs) = Inl e \<Longrightarrow> random = Inr (pub, priv)
    \<Longrightarrow> fs \<subseteq>\<^sub>m snd (keygen dk made random out fs)"
proof (cases made)
  case None
  assume 1: "fst (keygen dk made random out fs) = Inl e" "random = Inr (pub, priv)"
  obtain r fs' where g: "generate dk (Inr (pub, priv)) out fs = (r, fs')" by fastforce
  then have "fs \<subseteq>\<^sub>m fs'" by (cases rule: generate_cases) (use 1 None g in \<open>auto simp: keygen_def map_le_def\<close>)
  moreover have "snd (keygen dk made random out fs) = fs'"
    using g None 1(2) by (auto simp: keygen_def split: sum.split)
  ultimately show ?thesis by simp
qed (simp add: keygen_def)

lemma audit_verify_ok:
  "fst (audit_verify getenv send base run) = Inr () \<longleftrightarrow>
     getenv ''HANDOFFGUARD_API_TOKEN'' \<noteq> []
     \<and> (\<exists>body v. send (audit_request base (getenv ''HANDOFFGUARD_API_TOKEN'') run) = Inr (200, Inr body)
          \<and> parse_document (take 1048576 body) = Some v
          \<and> decode_struct False [(''status'', decode_string)] v [] = Inr ''VALID'')"
  by (auto simp: audit_verify_def Let_def split: sum.splits prod.splits option.splits if_splits)

lemma pin_key_pinned: "pin_key s d = Inr (u, d') \<Longrightarrow> map_of (t_metadata d') signing_key = Some (hex_encode (srv_pub s))"
  by (auto simp: pin_key_def Let_def map_add_def split: option.splits if_splits)

text \<open>The answer of the API is printed indented, with its line feed and that of \<open>Fprintln\<close>.\<close>

lemma audit_verify_prints:
  assumes "getenv ''HANDOFFGUARD_API_TOKEN'' \<noteq> []"
    and "send (audit_request base (getenv ''HANDOFFGUARD_API_TOKEN'') run) = Inr (200, Inr (write_json v))"
    and "readable 10000 v" and "v = JObj kvs" and "length (write_json v) \<le> 1048576"
    and "decode_struct False [(''status'', decode_string)] v [] = Inr verdict"
  shows "audit_verify getenv send base run
    = (if verdict \<noteq> ''VALID'' then Inl ''audit verification failed'' else Inr (), indent_json 0 v @ [CHR 0x0A, CHR 0x0A])"
proof -
  have "ws_only [CHR 0x0A]" by (simp add: ws_only_def is_ws_def)
  from indent_text_printed [OF assms(3) this]
  have "indent_text False False False False 0 (write_json v) = indent_json 0 v @ [CHR 0x0A]" by (simp add: write_json_def)
  moreover have "parse_document (write_json v) = Some v"
    using line_printed assms(3,4) by (simp add: write_json_def)
  ultimately show ?thesis
    using assms(1,2,5,6) by (simp add: audit_verify_def Let_def del: indent_text.simps decode_struct.simps)
qed

text \<open>A server that starts has the key that signed what is in the database.\<close>

lemma server_command_pinned:
  assumes "server_command getenv dk fs opened derive f key_path s d = (Inr s', d')"
  shows "map_of (t_metadata d') signing_key = Some (hex_encode (srv_pub s'))
    \<and> load_private dk key_path fs = Inr (srv_key s') \<and> 32 \<le> length (getenv ''HANDOFFGUARD_API_TOKEN'')"
proof -
  let ?token = "getenv ''HANDOFFGUARD_API_TOKEN''"
  obtain key where k: "load_private dk key_path fs = Inr key"
    and new: "new_server derive (s\<lparr>srv_key := key, srv_pub := drop 32 key, srv_token_hash := sha256 (srv_crypto s) ?token\<rparr>)
        ?token f d = (Inr (), d')"
    and s': "s' = s\<lparr>srv_key := key, srv_pub := drop 32 key, srv_token_hash := sha256 (srv_crypto s) ?token\<rparr>"
    using assms by (auto simp: server_command_def Let_def split: if_splits sum.splits option.splits prod.splits)
  from new have p: "pin_key s' d = Inr ((), d')" and t: "32 \<le> length ?token"
    unfolding s' by (auto simp: new_server_def transaction_def split: if_splits sum.splits option.splits prod.splits)
  show ?thesis using pin_key_pinned [OF p] k t s' by (simp only: simp_thms) simp
qed

text \<open>A gateway starts from a valid configuration, with a token for the control API.\<close>

lemma gateway_command_Inr:
  assumes "gateway_command lower lookup n sc connect list_tools opts fl raw_config = Inr (az, t, ts)"
  obtains cfg u where "load_config lower raw_config = Inr cfg" and "connect t = Inr u"
    and "new_gateway list_tools lower sc cfg opts u = Inr ts" and "32 \<le> length (az_token az)"
    and "(gf_upstream fl = []) \<noteq> (gf_args fl = [])"
  using assms
  by (auto simp: gateway_command_def rbind_eq_Inr new_authorizer_def split: if_splits)

end
