(* ===== verification/Cli_Program.thy ===== *)
theory Cli_Program
  imports Cli_Commands
begin

text \<open>
  The program as a whole (\<open>cmd/cli\<close>): the commands with their flags and arguments as they are declared to
  cobra, the exit of \<open>main\<close>, and the life of the \<open>server\<close> command from opening the database to shutdown.
  Cobra's reading of the command line, the driver and the HTTP server are outside.
\<close>

section \<open>Declared commands\<close>

datatype flag_value = Text_Flag string | Switch_Flag bool | Texts_Flag "string list" | Duration_Flag int

record cli_flag =
  fl_name :: string
  fl_default :: flag_value
  fl_required :: bool

text \<open>\<open>cm_quiet\<close> are \<open>SilenceUsage\<close> and \<open>SilenceErrors\<close>; \<open>Unchecked\<close> is no \<open>Args\<close> given.\<close>

datatype arity = Unchecked | No_Args | Exact_Args nat

record cli_command =
  cm_path :: "string list"
  cm_arity :: arity
  cm_quiet :: "bool \<times> bool"
  cm_flags :: "cli_flag list"

definition text_flag :: "string \<Rightarrow> string \<Rightarrow> cli_flag" where
  "text_flag name value = \<lparr>fl_name = name, fl_default = Text_Flag value, fl_required = False\<rparr>"

text \<open>\<open>StringVar\<close> with an empty default, followed by \<open>MarkFlagRequired\<close>.\<close>

definition required_flag :: "string \<Rightarrow> cli_flag" where
  "required_flag name = \<lparr>fl_name = name, fl_default = Text_Flag [], fl_required = True\<rparr>"

definition envelope_create_flags :: "cli_flag list" where
  "envelope_create_flags = [required_flag ''in'', required_flag ''key'', text_flag ''out'' []]"

definition envelope_verify_flags :: "cli_flag list" where
  "envelope_verify_flags = [required_flag ''in'', required_flag ''key'']"

text \<open>\<open>filepath.Join\<close> on a home directory that is clean already.\<close>

definition default_key_prefix :: "string + string \<Rightarrow> string" where
  "default_key_prefix home = (case home of Inl e \<Rightarrow> ''key'' | Inr h \<Rightarrow> h @ ''/.handoffguard/key'')"

definition keygen_flags :: "string + string \<Rightarrow> cli_flag list" where
  "keygen_flags home = [text_flag ''out'' (default_key_prefix home)]"

definition audit_flags :: "cli_flag list" where
  "audit_flags = [text_flag ''url'' ''http://127.0.0.1:8080'']"

definition policy_diff_flags :: "cli_flag list" where
  "policy_diff_flags = [text_flag ''parent-key'' [], text_flag ''child-key'' [], text_flag ''format'' ''text'']"

definition policy_validate_flags :: "cli_flag list" where
  "policy_validate_flags = [text_flag ''format'' ''text'']"

definition operator_flags :: "string \<Rightarrow> cli_flag list" where
  "operator_flags operation =
     [required_flag ''username'']
     @ (if operation \<noteq> ''disable'' then [text_flag ''password-env'' ''HANDOFFGUARD_OPERATOR_PASSWORD''] else [])
     @ (if operation = ''create''
        then [required_flag ''name'', text_flag ''role'' ''viewer'',
              \<lparr>fl_name = ''if-absent'', fl_default = Switch_Flag False, fl_required = False\<rparr>] else [])"

definition server_flags :: "cli_flag list" where
  "server_flags =
     [text_flag ''addr'' ''127.0.0.1:8080'',
      \<lparr>fl_name = ''allow-demo-approvals'', fl_default = Switch_Flag False, fl_required = False\<rparr>, required_flag ''key'']"

definition gateway_command_flags :: "cli_flag list" where
  "gateway_command_flags =
     [required_flag ''config'', required_flag ''agent'', required_flag ''envelope'',
      text_flag ''api-url'' ''http://127.0.0.1:8080'', text_flag ''upstream-url'' [],
      \<lparr>fl_name = ''upstream-env'', fl_default = Texts_Flag [], fl_required = False\<rparr>,
      \<lparr>fl_name = ''timeout'', fl_default = Duration_Flag (30 * 10 ^ 9), fl_required = False\<rparr>]"

definition envelope_create_command :: cli_command where
  "envelope_create_command =
     \<lparr>cm_path = [''envelope'', ''create''], cm_arity = Unchecked, cm_quiet = (False, False), cm_flags = envelope_create_flags\<rparr>"

definition envelope_verify_command :: cli_command where
  "envelope_verify_command =
     \<lparr>cm_path = [''envelope'', ''verify''], cm_arity = Unchecked, cm_quiet = (False, False), cm_flags = envelope_verify_flags\<rparr>"

definition policy_diff_command :: cli_command where
  "policy_diff_command =
     \<lparr>cm_path = [''policy'', ''diff''], cm_arity = Exact_Args 2, cm_quiet = (True, True), cm_flags = policy_diff_flags\<rparr>"

definition policy_validate_command :: cli_command where
  "policy_validate_command =
     \<lparr>cm_path = [''policy'', ''validate''], cm_arity = Exact_Args 1, cm_quiet = (True, True), cm_flags = policy_validate_flags\<rparr>"

definition audit_verify_command :: cli_command where
  "audit_verify_command =
     \<lparr>cm_path = [''audit'', ''verify''], cm_arity = Exact_Args 1, cm_quiet = (True, False), cm_flags = audit_flags\<rparr>"

definition server_declaration :: cli_command where
  "server_declaration =
     \<lparr>cm_path = [''server''], cm_arity = No_Args, cm_quiet = (False, False), cm_flags = server_flags\<rparr>"

definition gateway_declaration :: cli_command where
  "gateway_declaration =
     \<lparr>cm_path = [''gateway''], cm_arity = Unchecked, cm_quiet = (True, True), cm_flags = gateway_command_flags\<rparr>"

definition demo_mcp_command :: cli_command where
  "demo_mcp_command =
     \<lparr>cm_path = [''demo-mcp''], cm_arity = No_Args, cm_quiet = (True, True), cm_flags = []\<rparr>"

definition keygen_command :: "string + string \<Rightarrow> cli_command" where
  "keygen_command home =
     \<lparr>cm_path = [''keygen''], cm_arity = Unchecked, cm_quiet = (False, False), cm_flags = keygen_flags home\<rparr>"

definition operator_commands :: "cli_command list" where
  "operator_commands =
     map (\<lambda>operation. \<lparr>cm_path = [''operator'', operation], cm_arity = No_Args, cm_quiet = (False, False),
        cm_flags = operator_flags operation\<rparr>) [''create'', ''reset-password'', ''disable'']"

definition program_commands :: "string + string \<Rightarrow> cli_command list" where
  "program_commands home =
     [envelope_create_command, envelope_verify_command, keygen_command home, policy_diff_command, policy_validate_command,
      audit_verify_command, server_declaration, gateway_declaration, demo_mcp_command] @ operator_commands"

lemmas command_defs = envelope_create_command_def envelope_verify_command_def keygen_command_def policy_diff_command_def
  policy_validate_command_def audit_verify_command_def server_declaration_def gateway_declaration_def demo_mcp_command_def

text \<open>What \<open>main\<close> itself writes to standard error and exits with, from the result of \<open>rootCmd.Execute\<close>.\<close>

definition main_exit :: "string + unit \<Rightarrow> string \<times> nat" where
  "main_exit r = (case r of Inl e \<Rightarrow> (e @ [CHR 0x0A], 1) | Inr _ \<Rightarrow> ([], 0))"

section \<open>Opening the database (store.go)\<close>

text \<open>\<open>Open\<close>: the store, and the pools it has closed again.\<close>

definition open_store :: "(string \<Rightarrow> string + 'p) \<Rightarrow> ('p \<Rightarrow> string option) \<Rightarrow> string \<Rightarrow> (string + 'p) \<times> 'p list" where
  "open_store new_pool ping url =
     (case new_pool url of
        Inl e \<Rightarrow> (Inl e, [])
      | Inr pool \<Rightarrow> (case ping pool of Some e \<Rightarrow> (Inl e, [pool]) | None \<Rightarrow> (Inr pool, [])))"

text \<open>
  \<open>Migrate\<close>: every statement of \<open>schema.sql\<close> says \<open>IF NOT EXISTS\<close> or \<open>ON CONFLICT DO NOTHING\<close>, so the rows
  that are there stay and new tables are empty; \<open>refused\<close> is the error of executing it.
\<close>

definition migrate :: "faults \<Rightarrow> api_error option \<Rightarrow> db \<Rightarrow> (api_error + unit) \<times> db" where
  "migrate f refused d = transaction f (\<lambda>d. case refused of Some e \<Rightarrow> Inl e | None \<Rightarrow> Inr ((), d)) d"

definition open_database ::
  "(string \<Rightarrow> string + 'p) \<Rightarrow> ('p \<Rightarrow> string option) \<Rightarrow> faults \<Rightarrow> api_error option \<Rightarrow> db \<Rightarrow> string \<Rightarrow> string option" where
  "open_database new_pool ping f refused d url =
     (case fst (open_store new_pool ping url) of
        Inl e \<Rightarrow> Some e
      | Inr pool \<Rightarrow> (case fst (migrate f refused d) of Inl e \<Rightarrow> Some (error_text e) | Inr _ \<Rightarrow> None))"

section \<open>Serving (server.go)\<close>

datatype serve_error = Server_Closed | Serve_Error string

text \<open>How serving ends: \<open>Serve\<close> returns, or a signal comes, with the results of \<open>Shutdown\<close> and \<open>Serve\<close> then.\<close>

datatype serve_end = Served serve_error | Signalled "string option" serve_error

fun serve_result :: "serve_error \<Rightarrow> string + unit" where
  "serve_result Server_Closed = Inr ()"
| "serve_result (Serve_Error e) = Inl e"

definition serve_api :: "string + string \<Rightarrow> serve_end \<Rightarrow> (string + unit) \<times> string" where
  "serve_api listened ended =
     (case listened of
        Inl e \<Rightarrow> (Inl e, [])
      | Inr addr \<Rightarrow>
          (case ended of
             Served e \<Rightarrow> serve_result e
           | Signalled (Some e) _ \<Rightarrow> Inl e
           | Signalled None e \<Rightarrow> serve_result e,
           ''Counterseal listening on '' @ addr @ [CHR 0x0A]))"

text \<open>The whole command: its result, what it prints, and the database when it starts to serve.\<close>

definition run_server ::
  "(string \<Rightarrow> string) \<Rightarrow> disk \<Rightarrow> files \<Rightarrow> (string \<Rightarrow> string + 'p) \<Rightarrow> ('p \<Rightarrow> string option) \<Rightarrow> faults \<Rightarrow> api_error option
    \<Rightarrow> (string \<Rightarrow> string) \<Rightarrow> faults \<Rightarrow> string \<Rightarrow> 'ctx server \<Rightarrow> string + string \<Rightarrow> serve_end \<Rightarrow> db
    \<Rightarrow> (string + unit) \<times> string \<times> db" where
  "run_server getenv dk fs new_pool ping fm refused derive f key_path s listened ended d =
     (case server_command getenv dk fs (open_database new_pool ping fm refused d) derive f key_path s d of
        (Inl e, d) \<Rightarrow> (Inl (error_text e), [], d)
      | (Inr _, d) \<Rightarrow> (case serve_api listened ended of (r, out) \<Rightarrow> (r, out, d)))"

section \<open>Lemmas\<close>

text \<open>No two commands share a path, no command has two flags of one name, and what is required has no default.\<close>

lemma program_commands_proper:
  "distinct (map cm_path (program_commands home))"
  "\<forall>c \<in> set (program_commands home). distinct (map fl_name (cm_flags c))"
  "\<forall>c \<in> set (program_commands home). \<forall>g \<in> set (cm_flags c). fl_required g \<longrightarrow> fl_default g = Text_Flag []"
  by (simp_all add: program_commands_def command_defs operator_commands_def operator_flags_def envelope_create_flags_def
      envelope_verify_flags_def keygen_flags_def audit_flags_def policy_diff_flags_def policy_validate_flags_def
      server_flags_def gateway_command_flags_def text_flag_def required_flag_def)

lemma main_exit_ok: "snd (main_exit r) = 0 \<longleftrightarrow> r = Inr ()"
  by (cases r) (simp_all add: main_exit_def)

text \<open>No pool is left open by a store that could not be opened.\<close>

lemma open_store_closes:
  "new_pool url = Inr pool \<Longrightarrow> fst (open_store new_pool ping url) = Inl e \<Longrightarrow> pool \<in> set (snd (open_store new_pool ping url))"
  by (simp add: open_store_def split: option.splits)

lemma migrate_keeps: "snd (migrate f refused d) = d"
  by (simp add: migrate_def transaction_def split: option.split)

lemma open_database_ok:
  "open_database new_pool ping f refused d url = None \<longleftrightarrow>
     (\<exists>pool. open_store new_pool ping url = (Inr pool, [])) \<and> fst (migrate f refused d) = Inr ()"
  by (auto simp: open_database_def open_store_def split: sum.splits option.splits)

lemma serve_api_ok:
  "fst (serve_api listened ended) = Inr () \<longleftrightarrow>
     (\<exists>addr. listened = Inr addr) \<and> ended \<in> {Served Server_Closed, Signalled None Server_Closed}"
  by (auto simp: serve_api_def split: sum.splits serve_end.splits option.splits elim!: serve_result.elims)

lemma run_server_listens:
  assumes "run_server getenv dk fs new_pool ping fm refused derive f key_path s listened ended d = (r, out, d')" and "out \<noteq> []"
  shows "\<exists>s' addr. server_command getenv dk fs (open_database new_pool ping fm refused d) derive f key_path s d = (Inr s', d')
    \<and> listened = Inr addr \<and> out = ''Counterseal listening on '' @ addr @ [CHR 0x0A]
    \<and> load_private dk key_path fs = Inr (srv_key s') \<and> 32 \<le> length (getenv ''HANDOFFGUARD_API_TOKEN'')
    \<and> map_of (t_metadata d') signing_key = Some (hex_encode (srv_pub s'))"
proof -
  obtain x d1 where x: "server_command getenv dk fs (open_database new_pool ping fm refused d) derive f key_path s d = (x, d1)"
    by fastforce
  show ?thesis
  proof (cases x)
    case (Inl e)
    with assms x show ?thesis by (simp add: run_server_def)
  next
    case (Inr s')
    with assms x have "d' = d1" "out = snd (serve_api listened ended)" by (auto simp: run_server_def split: prod.splits)
    moreover from this assms(2) obtain addr where "listened = Inr addr" "out = ''Counterseal listening on '' @ addr @ [CHR 0x0A]"
      by (auto simp: serve_api_def split: sum.splits)
    ultimately show ?thesis using server_command_pinned x Inr by metis
  qed
qed

end
