(* ===== verification/Audit_Path.thy ===== *)
theory Audit_Path
  imports Cli_Commands Exchange Log_Guarantees
begin

text \<open>
  \<open>audit verify\<close> from the command line to the log and back: the URL it posts to, the route of the API, the
  verification in its transaction, and the report as \<open>writeJSON\<close> sends it and the command reads and prints it.
\<close>

section \<open>The route\<close>

text \<open>\<open>url.PathUnescape\<close>, which the router applies to a segment.\<close>

definition path_hex :: "char \<Rightarrow> nat option" where
  "path_hex c =
     (if 48 \<le> byte c \<and> byte c \<le> 57 then Some (byte c - 48)
      else if 65 \<le> byte c \<and> byte c \<le> 70 then Some (byte c - 55)
      else if 97 \<le> byte c \<and> byte c \<le> 102 then Some (byte c - 87) else None)"

fun path_unescape :: "string \<Rightarrow> string option" where
  "path_unescape [] = Some []"
| "path_unescape (c # cs) =
     (if c = CHR ''%'' then
        (case cs of
           a # b # r \<Rightarrow>
             (case (path_hex a, path_hex b, path_unescape r) of
                (Some x, Some y, Some t) \<Rightarrow> Some (char_of (16 * x + y) # t) | _ \<Rightarrow> None)
         | _ \<Rightarrow> None)
      else map_option ((#) c) (path_unescape cs))"

text \<open>
  The pattern \<open>POST /v1/audit/{runId}/verify\<close>: one segment, which is unescaped.  Empty and dot segments are
  cleaned away by the router before any handler is chosen.
\<close>

definition audit_route :: "string \<Rightarrow> request option" where
  "audit_route path =
     (let segment = take (length path - 17) (drop 10 path)
      in if path \<noteq> ''/v1/audit/'' @ segment @ ''/verify'' \<or> CHR ''/'' \<in> set segment \<or> segment \<in> {[], ''.'', ''..''} then None
         else map_option PostVerify (path_unescape segment))"

section \<open>The report\<close>

definition encode_report :: "report \<Rightarrow> json" where
  "encode_report r =
     JObj [(''envelopes_checked'', JNum (show_int (int (rp_envelopes r)))),
           (''events_checked'', JNum (show_int (int (rp_events r)))),
           (''failures'', JArr (map JStr (rp_failures r))), (''head_hash'', JStr (rp_head r)),
           (''status'', JStr (rp_status r))]"

fun audit_response :: "response \<Rightarrow> string" where
  "audit_response (RAudit r) = write_json (encode_report r)"
| "audit_response resp = response_body resp"

text \<open>
  The control API as the command's HTTP client meets it under \<open>base\<close>.  A path that names no run is answered
  without a handler (here with 404).
\<close>

definition audit_service ::
  "activation server \<Rightarrow> draws \<Rightarrow> faults \<Rightarrow> string \<Rightarrow> db \<Rightarrow> http_request \<Rightarrow> string + nat \<times> (string + string)" where
  "audit_service s w f base d r =
     (case audit_route (drop (length (trim_right_slashes base)) (hq_url r)) of
        None \<Rightarrow> Inr (404, Inr ''404 page not found'')
      | Some rq \<Rightarrow>
          (case api s w f (authorization_header r) rq d of
             ((resp, status), _) \<Rightarrow> Inr (status, Inr (audit_response resp))))"

section \<open>Lemmas\<close>

lemma path_hex_upper: "n < 16 \<Longrightarrow> path_hex (upper_hex n) = Some n"
  by (simp add: path_hex_def upper_hex_def byte_def of_char_of)

lemma path_unescape_escape: "path_unescape (path_escape s) = Some s"
proof (induction s)
  case (Cons c s)
  have e: "path_escape (c # s) = (if path_char c then [c] else [CHR ''%'', upper_hex (byte c div 16), upper_hex (byte c mod 16)]) @ path_escape s"
    by (simp add: path_escape_def)
  have "\<not> path_char (CHR ''%'')" by (simp add: path_char_def byte_def)
  moreover have "16 * (byte c div 16) + byte c mod 16 = byte c" by simp
  then have "char_of (16 * (byte c div 16) + byte c mod 16) = c" by (simp only:) (simp add: byte_def)
  moreover have "byte c div 16 < 16" "byte c mod 16 < 16" using byte_less [of c] by auto
  ultimately show ?case using Cons.IH unfolding e by (auto simp: path_hex_upper)
qed (simp add: path_escape_def)

lemma path_escape_no_slash: "CHR ''/'' \<notin> set (path_escape s)"
proof -
  have "upper_hex n \<noteq> CHR ''/''" if "n < 16" for n
  proof
    assume "upper_hex n = CHR ''/''"
    then have "path_hex (CHR ''/'') = Some n" using path_hex_upper [OF that] by simp
    then show False by (simp add: path_hex_def byte_def)
  qed
  moreover have "byte c div 16 < 16" "byte c mod 16 < 16" for c using byte_less [of c] by auto
  ultimately have "CHR ''/'' \<noteq> upper_hex (byte c div 16)" "CHR ''/'' \<noteq> upper_hex (byte c mod 16)" for c by metis+
  moreover have "\<not> path_char (CHR ''/'')" by (simp add: path_char_def byte_def)
  ultimately show ?thesis by (auto simp: path_escape_def split: if_splits)
qed

lemma audit_route_escaped:
  assumes "run \<notin> {[], ''.'', ''..''}"
  shows "audit_route (''/v1/audit/'' @ path_escape run @ ''/verify'') = Some (PostVerify run)"
proof -
  have "path_escape run \<noteq> t" if "t \<in> {[], ''.'', ''..''}" for t
  proof
    assume "path_escape run = t"
    then have "path_unescape t = Some run" using path_unescape_escape [of run] by simp
    with that have "run = t" by auto
    with that assms show False by simp
  qed
  then have n: "path_escape run \<notin> {[], ''.'', ''..''}" by blast
  have "take (length (''/v1/audit/'' @ path_escape run @ ''/verify'') - 17) (drop 10 (''/v1/audit/'' @ path_escape run @ ''/verify'')) = path_escape run"
    by simp
  with n show ?thesis
    unfolding audit_route_def Let_def by (simp only: path_escape_no_slash path_unescape_escape simp_thms if_False option.map)
qed

text \<open>A run may be created under the name of a dot segment, but no path leads to it.\<close>

lemma dot_runs_unroutable:
  "audit_route (''/v1/audit/'' @ path_escape ''.'' @ ''/verify'') = None"
  "audit_route (''/v1/audit/'' @ path_escape ''..'' @ ''/verify'') = None"
  by code_simp+

lemma encoded_report_status:
  "decode_struct False [(''status'', decode_string)] (encode_report r) [] = Inr (rp_status r)"
proof -
  have f: "fold_name ''status'' \<notin> fold_name ` {''envelopes_checked'', ''events_checked'', ''failures'', ''head_hash''}" by code_simp
  have other: "find_field [(''status'', decode_string)] k = None"
    if "k \<in> {''envelopes_checked'', ''events_checked'', ''failures'', ''head_hash''}" for k
  proof -
    have "fold_name ''status'' \<noteq> fold_name k" using f that by blast
    moreover have "k \<noteq> ''status''" using that by auto
    ultimately show ?thesis by (simp add: find_field_def)
  qed
  show ?thesis by (simp add: encode_report_def decode_member_def other) (simp add: find_field_def)
qed

lemma encoded_report_readable:
  assumes "valid_utf8 (rp_status r)" and "valid_utf8 (rp_head r)" and "\<forall>m \<in> set (rp_failures r). valid_utf8 m"
  shows "readable 10000 (encode_report r)"
proof -
  have "valid_utf8 ''envelopes_checked''" "valid_utf8 ''events_checked''" "valid_utf8 ''failures''" "valid_utf8 ''head_hash''" "valid_utf8 ''status''"
    by code_simp+
  with assms show ?thesis by (simp add: encode_report_def json_number_show_int)
qed

lemma verify_status: "verify_audit c pub run d = Inr r \<Longrightarrow> rp_status r \<in> {''VALID'', ''INVALID''}"
  by (auto simp: verify_audit_def Let_def result_simps split: if_splits)

lemma audit_served:
  assumes "is_service s (''Bearer '' @ token)" and "f = \<lparr>f_begin = None, f_lock = None, f_commit = None\<rparr>"
    and "verify_audit (srv_crypto s) (srv_pub s) run d = Inr r" and "run \<notin> {[], ''.'', ''..''}"
  shows "audit_service s w f base d (audit_request base token run) = Inr (200, Inr (write_json (encode_report r)))"
proof -
  have h: "authorization_header (audit_request base token run) = ''Bearer '' @ token"
    by (simp add: authorization_header_def audit_request_def)
  have p: "drop (length (trim_right_slashes base)) (hq_url (audit_request base token run)) = ''/v1/audit/'' @ path_escape run @ ''/verify''"
    by (simp add: audit_request_def)
  have "api s w f (''Bearer '' @ token) (PostVerify run) d = ((RAudit r, 200), d)"
    using assms(1-3) by (simp add: api_def endpoint_def transaction_def is_service_def verify_run_def)
  then show ?thesis
    unfolding audit_service_def h p audit_route_escaped [OF assms(4)] by simp
qed

text \<open>
  C14: \<open>audit verify\<close> tells what the log says.  With the service's token, for any run whose name can be a path segment and
  without faults, the command prints the API's report of that run, indented, and succeeds
  exactly when the report is VALID; and on every database the service has reached it is.
\<close>

theorem audit_command_exact:
  assumes "getenv ''HANDOFFGUARD_API_TOKEN'' = token" and "token \<noteq> []" and "is_service s (''Bearer '' @ token)"
    and "f = \<lparr>f_begin = None, f_lock = None, f_commit = None\<rparr>" and "run \<notin> {[], ''.'', ''..''}"
    and "verify_audit (srv_crypto s) (srv_pub s) run d = Inr r"
    and "valid_utf8 (rp_head r)" and "\<forall>m \<in> set (rp_failures r). valid_utf8 m"
    and "length (write_json (encode_report r)) \<le> 1048576"
  shows "audit_verify getenv (audit_service s w f base d) base run
      = (if rp_status r \<noteq> ''VALID'' then Inl ''audit verification failed'' else Inr (),
         indent_json 0 (encode_report r) @ [CHR 0x0A, CHR 0x0A])
    \<and> (server_ok s \<and> reachable s d \<longrightarrow> rp_status r = ''VALID'')"
proof -
  have "valid_utf8 ''VALID''" "valid_utf8 ''INVALID''" by code_simp+
  then have "valid_utf8 (rp_status r)" using verify_status [OF assms(6)] by auto
  note readable = encoded_report_readable [OF this assms(7,8)]
  have send: "audit_service s w f base d (audit_request base (getenv ''HANDOFFGUARD_API_TOKEN'') run)
      = Inr (200, Inr (write_json (encode_report r)))"
    unfolding assms(1) by (rule audit_served [OF assms(3,4,6,5)])
  obtain kvs where "encode_report r = JObj kvs" by (simp add: encode_report_def)
  from audit_verify_prints [where getenv = getenv and send = "audit_service s w f base d" and base = base and run = run, OF _ send readable this assms(9) encoded_report_status [of r]]
  have "audit_verify getenv (audit_service s w f base d) base run
      = (if rp_status r \<noteq> ''VALID'' then Inl ''audit verification failed'' else Inr (),
         indent_json 0 (encode_report r) @ [CHR 0x0A, CHR 0x0A])"
    using assms(1,2) by simp
  moreover have "rp_status r = ''VALID''" if "server_ok s" "reachable s d"
  proof -
    have "has_run d run" using assms(6) by (auto simp: verify_audit_def split: if_splits)
    from verify_sound_ledger [OF reachable_ledger_ok [OF that] this] show ?thesis using assms(6) by simp
  qed
  ultimately show ?thesis by blast
qed

text \<open>The first run of the scenario, after its root was created.\<close>

definition report_1 :: report where
  "report_1 = \<lparr>rp_status = ''VALID'', rp_events = 1, rp_envelopes = 1,
     rp_head = hex_encode (take 4 (CHR ''{'' # print_string ''id'') @ ''h''), rp_failures = []\<rparr>"

lemma report_1_text: "valid_utf8 (rp_head report_1)" "length (write_json (encode_report report_1)) \<le> 1048576"
proof -
  show "valid_utf8 (rp_head report_1)" by code_simp
  have "length (write_json (encode_report report_1)) < 200" by code_simp
  then show "length (write_json (encode_report report_1)) \<le> 1048576" by simp
qed

lemma report_1_verified: "verify_audit sample_crypto sample_pub run_1 db_root = Inr report_1"
proof -
  have run: "has_run db_root run_1" by (simp add: has_run_def db_root_def)
  obtain r where r: "verify_audit sample_crypto sample_pub run_1 db_root = Inr r" "rp_status r = ''VALID''" "rp_failures r = []"
      "rp_events r = length (events_of run_1 db_root)" "rp_head r = last_hash run_1 db_root"
    using verify_sound_ledger [OF reachable_ledger_ok [OF demo_ok reachable_states(1)] run] by auto
  have ev: "events_of run_1 db_root = [event_1]" by (simp add: events_of_def db_root_def event_fields)
  have "length (print_string ''id'') = 4" by code_simp
  then have "au_hash event_1 = rp_head report_1"
    by (simp add: event_1_def audit_event_def Let_def header_hash_def digest_text_def sample_crypto_def encode_header_def report_1_def)
  moreover have "rp_envelopes r = 1"
    using r(1) run by (auto simp: verify_audit_def Let_def run_rows_def db_root_def row_of_def read_envelope_def put_def result_simps)
  ultimately have "r = report_1" using r ev by (simp add: report_1_def last_hash_def)
  with r(1) show ?thesis by simp
qed

theorem audit_command_exact_witness:
  "audit_verify (\<lambda>_. ''service'') (audit_service demo_server draw1 no_faults ''http://127.0.0.1:8080'' db_root)
     ''http://127.0.0.1:8080'' run_1 = (Inr (), indent_json 0 (encode_report report_1) @ [CHR 0x0A, CHR 0x0A])"
proof -
  have t: "is_service demo_server (''Bearer '' @ ''service'')"
    by (simp add: is_service_def has_bearer_def bearer_def trim_prefix_def demo_server_def server_with_def)
  have n: "run_1 \<notin> {[], ''.'', ''..''}" by (simp add: run_1_def)
  have "verify_audit (srv_crypto demo_server) (srv_pub demo_server) run_1 db_root = Inr report_1"
    using report_1_verified by (simp add: demo_server_def server_with_def)
  from audit_command_exact [OF refl _ t no_faults_def n this report_1_text(1) _ report_1_text(2)]
  show ?thesis by (simp add: report_1_def)
qed

end
