(* ===== verification/Demo_Upstream.thy ===== *)
theory Demo_Upstream
  imports Decode
begin

text \<open>
  The simulated commerce server (\<open>internal/demomcp/server.go\<close>): the four tools on the bytes of their
  arguments; its state is the number of refunds, a 64-bit counter.
\<close>

text \<open>A tool result: \<open>IsError\<close>, its text, and the structured content.\<close>

record tool_result =
  tr_error :: bool
  tr_text :: string
  tr_structured :: "json option"

definition error_result :: "string \<Rightarrow> tool_result" where
  "error_result m = \<lparr>tr_error = True, tr_text = m, tr_structured = None\<rparr>"

text \<open>The results are maps: \<open>json.Marshal\<close> prints them in key order.\<close>

definition map_result_of :: "(string \<times> json) list \<Rightarrow> tool_result" where
  "map_result_of kvs = \<lparr>tr_error = False, tr_text = marshal_any (JObj kvs), tr_structured = Some (JObj kvs)\<rparr>"

record demo_args =
  da_order :: string
  da_refund :: string
  da_amount :: goint

definition zero_args :: demo_args where
  "zero_args = \<lparr>da_order = [], da_refund = [], da_amount = 0\<rparr>"

definition order_field :: "string \<times> demo_args field" where
  "order_field = (''order_id'', at_field da_order (\<lambda>x. da_order_update (\<lambda>_. x)) decode_string)"

definition refund_field :: "string \<times> demo_args field" where
  "refund_field = (''refund_id'', at_field da_refund (\<lambda>x. da_refund_update (\<lambda>_. x)) decode_string)"

definition amount_field :: "string \<times> demo_args field" where
  "amount_field = (''amount'', at_field da_amount (\<lambda>x. da_amount_update (\<lambda>_. x)) decode_int)"

definition demo_decode :: "(string \<Rightarrow> string) \<Rightarrow> (string \<times> demo_args field) list \<Rightarrow> string \<Rightarrow> string + demo_args" where
  "demo_decode lower fs raw = rbind (strict_decode lower raw) (\<lambda>v. decode_struct True fs v zero_args)"

definition refund_create :: "(string \<Rightarrow> string) \<Rightarrow> string \<Rightarrow> goint \<Rightarrow> tool_result \<times> goint" where
  "refund_create lower raw refunds =
     (case demo_decode lower [order_field, amount_field] raw of
        Inl e \<Rightarrow> (error_result ''order_id and a positive integer amount are required'', refunds)
      | Inr a \<Rightarrow>
          if da_order a = [] \<or> sint (da_amount a) \<le> 0
          then (error_result ''order_id and a positive integer amount are required'', refunds)
          else let n = refunds + 1
            in (map_result_of [(''refund_id'', JStr (''simulated_'' @ show_int (sint n))), (''order_id'', JStr (da_order a)),
                  (''amount'', json_int (da_amount a)), (''simulated'', JBool True)], n))"

definition orders_get :: "(string \<Rightarrow> string) \<Rightarrow> string \<Rightarrow> tool_result" where
  "orders_get lower raw =
     (case demo_decode lower [order_field] raw of
        Inl e \<Rightarrow> error_result ''order_id is required''
      | Inr a \<Rightarrow>
          if da_order a = [] then error_result ''order_id is required''
          else map_result_of [(''order_id'', JStr (da_order a)), (''total'', JNum ''1000''), (''currency'', JStr ''USD''),
                 (''simulated'', JBool True)])"

definition email_send :: "(string \<Rightarrow> string) \<Rightarrow> string \<Rightarrow> tool_result" where
  "email_send lower raw =
     (case demo_decode lower [order_field, refund_field] raw of
        Inl e \<Rightarrow> error_result ''order_id and refund_id are required''
      | Inr a \<Rightarrow>
          if da_order a = [] \<or> da_refund a = [] then error_result ''order_id and refund_id are required''
          else map_result_of [(''order_id'', JStr (da_order a)), (''refund_id'', JStr (da_refund a)),
                 (''notification_id'', JStr ''simulated_notification''), (''simulated'', JBool True)])"

definition payment_export :: tool_result where
  "payment_export = \<lparr>tr_error = False, tr_text = ''SIMULATED_PAYMENT_DATA'', tr_structured = None\<rparr>"

text \<open>The registered tools; another name is the SDK's error (\<open>None\<close>).\<close>

definition demo_server_call :: "(string \<Rightarrow> string) \<Rightarrow> string \<Rightarrow> string \<Rightarrow> goint \<Rightarrow> tool_result option \<times> goint" where
  "demo_server_call lower name raw refunds =
     (if name = ''refund.create'' then (case refund_create lower raw refunds of (r, n) \<Rightarrow> (Some r, n))
      else if name = ''orders.get'' then (Some (orders_get lower raw), refunds)
      else if name = ''email.send'' then (Some (email_send lower raw), refunds)
      else if name = ''payment.export'' then (Some payment_export, refunds)
      else (None, refunds))"

text \<open>Only a refund that is made moves the counter, by one.\<close>

lemma refund_counted:
  "refund_create lower raw n = (r, n') \<Longrightarrow> n' = (if tr_error r then n else n + 1)"
  by (auto simp: refund_create_def error_result_def map_result_of_def Let_def split: sum.splits if_splits)

lemma only_refunds_counted:
  assumes "demo_server_call lower name raw n = (r, n')" and "name \<noteq> ''refund.create''"
  shows "n' = n"
  using assms by (auto simp: demo_server_call_def split: if_splits)

text \<open>A refund is made exactly for one strict document with an order and a positive amount.\<close>

lemma refund_made:
  "\<not> tr_error (fst (refund_create lower raw n)) \<longleftrightarrow>
     (\<exists>a. demo_decode lower [order_field, amount_field] raw = Inr a \<and> da_order a \<noteq> [] \<and> 0 < sint (da_amount a))"
  by (auto simp: refund_create_def error_result_def map_result_of_def Let_def split: sum.splits if_splits)

end
