(* ===== verification/Spec2Isabelle.thy ===== *)
theory Spec2Isabelle
  imports Log_Guarantees Bodies Concurrency Interleaving Metrics Cli_Program Audit_Path Demo_Upstream
begin

text \<open>
  Counterseal signs and narrows authority as it is handed from one agent to the next, and checks every
  tool call against the chain of envelopes behind it.  Three programs work together: the control API (a
  server over PostgreSQL) creates, delegates, revokes and evaluates; the gateway sits between an agent
  and an MCP server and forwards a call only with the API's receipt; the command line makes keys, signs and
  verifies envelopes and checks policies offline.  This library models the Go implementation under
  \<open>src/internal\<close> and \<open>src/cmd/cli\<close>, from the bytes that come in to the bytes that go out.

  \<^bold>\<open>Language and standard library.\<close>  \<open>Prelude\<close> has results, loops that can fail, slices and Go maps (a
  list of entries in some iteration order).  \<open>Go_Text\<close>, \<open>Go_Time\<close>, \<open>Go_Float\<close>, \<open>Base64\<close> model strings as
  bytes with UTF-8, times with their zone, IEEE doubles and base64.  \<open>Json\<close>, \<open>Json_Inject\<close>, \<open>Json_Parse\<close>,
  \<open>Json_Readable\<close>, \<open>Json_Indent\<close>, \<open>Json_Reindent\<close> and \<open>Decode\<close>, \<open>Decode_Valid\<close> model \<open>encoding/json\<close>: the encoder, the byte
  parser, indentation, and the typed decoding into structs, with the round trips between them.

  \<^bold>\<open>Envelopes and policy.\<close>  \<open>Envelope\<close> (\<open>internal/envelope\<close>), \<open>Conditions\<close> and \<open>Policy\<close> (\<open>internal/policy\<close>);
  \<open>Delegation\<close> states what an envelope permits and proves that the engine only lets it shrink
  (the locale \<open>narrowing\<close> and its interpretation), that approvals are not weakened, and that
  results do not depend on map order.

  \<^bold>\<open>Control API.\<close>  \<open>Store\<close> has the tables, their constraints and the transaction; \<open>Server\<close>, \<open>Control\<close>
  (\<open>envelopes.go\<close>), \<open>Actions\<close> (\<open>actions.go\<close>), \<open>Operators\<close>, \<open>Dashboard\<close>, \<open>Audit_Log\<close> the handlers, as
  functions from a database to an error or a response and a database; \<open>Strict_Json\<close> and \<open>Bodies\<close> what
  happens to a request body before; \<open>Api\<close> routes, authentication, transactions and start-up, and the
  histories of the service (\<open>api_step\<close>, \<open>reachable\<close>); \<open>Metrics\<close> the counters.  \<open>Ledger\<close> is the abstract
  specification (envelopes, revocations, approvals, log) and \<open>History\<close>, \<open>Integrity\<close>, \<open>Progress\<close>,
  \<open>Log_Guarantees\<close>, \<open>Guarantees\<close> prove the refinement, the invariants and the end-to-end properties.
  \<open>Concurrency\<close> runs the transactions of many server processes side by side, statement by statement, and
  proves that the advisory lock makes them behave as \<open>api\<close> does, one whole call after another.

  \<^bold>\<open>Gateway.\<close>  \<open>Gateway_Config\<close> (\<open>config.go\<close>), \<open>Authorize\<close> (\<open>authorize.go\<close>, \<open>transport.go\<close>), \<open>Gateway\<close>
  (\<open>gateway.go\<close>) and \<open>Telemetry\<close>.  The locale \<open>authorization_service\<close> states what the handler needs of an
  authorizer; \<open>Exchange\<close> composes the client with the API's bytes and lossy messages, and
  \<open>Gateway_Guarantees\<close> interprets the locale on that composition: what reaches the upstream was
  allowed by every ancestor.  \<open>Accountability\<close> adds the histories of many gateways and clients, in which each
  execution has its own ALLOW in the audit log, one call at a time; \<open>Interleaving\<close> takes a call apart where the
  handler waits (\<open>traffic_step\<close>; \<open>handler_in_parts\<close> shows that the parts make up the handler), proves the same
  for calls that overlap, and bounds what may still be executed after a revocation by the calls in flight.
  \<open>Demo_Upstream\<close> is the simulated server.

  \<^bold>\<open>Command line.\<close>  \<open>Keys\<close> (\<open>internal/keys\<close>, over a file system whose calls may fail), \<open>Cli_Envelope\<close>,
  \<open>Cli_Policy\<close>, \<open>Cli_Commands\<close>; \<open>Cli_Program\<close> has the declared commands and flags, opening and migrating the
  database, and the \<open>server\<close> command until it shuts down; \<open>Audit_Path\<close> follows \<open>audit verify\<close> from its URL through
  the route and the API to the printed report.  \<open>Samples\<close>, \<open>Sample_Server\<close> and \<open>Scenario\<close> hold the concrete envelopes and the
  history that the witnesses evaluate.

  \<^bold>\<open>Bounds.\<close>  Integers are 64-bit words where the code uses \<open>int\<close> or \<open>uint64\<close>; sizes (1 MiB bodies,
  256 KiB arguments, 64 levels of strict JSON, 10000 of the parser, 4096 tools, 100 pages) are the code's.
  No fuel is used: the ancestry loop is bounded by its own depth limit (\<open>ancestry_check_complete\<close> shows that no
  sound chain is cut off), the parsers recurse on the length of the text, discovery on the number of pages.

  \<^bold>\<open>Parameters.\<close>  Code that is not in the repository is an argument: Ed25519, SHA-256 and Argon2id
  (\<open>crypto\<close>), the CEL library (\<open>cel\<close>, with \<open>cel_laws\<close>), \<open>time\<close> parsing and Unicode lower case (\<open>codec\<close>),
  \<open>url.Parse\<close> and \<open>net.ParseIP\<close> (\<open>net\<close>), JSON Schema (\<open>schemas\<close>), YAML (\<open>yaml\<close>), the MCP SDK (pages, calls
  and results) and random bytes (\<open>draws\<close>).  Faults of the database (\<open>faults\<close>), of the network (\<open>link\<close>) and of
  the disk (\<open>disk\<close>) are inputs too.  A JSONB column returns the value that was stored.  Of PostgreSQL the
  model uses that a statement under READ COMMITTED sees what is committed and its own transaction's writes, and
  that the advisory lock has one holder until the transaction ends; handlers are functions from a
  database to a database, which \<open>Concurrency\<close> justifies.

  \<^bold>\<open>Not modelled.\<close>  Timeouts and cancellation (except as faults), the workings of the HTTP server and of the
  database driver, log output other than spans, cobra's reading of the command line (only what is declared to
  it), file modes; the MCP protocol itself, so \<open>gateway\<close> and \<open>demo-mcp\<close> end where the SDK takes over;
  and the parts in other languages (dashboard, Java integration, scripts, deployment).  When a duplicate
  JSON key decodes into a slice twice, only the elements the slice still shows are reused, not those
  hidden in its spare capacity.
\<close>

end
